(* ===== verification/Rust_Prelude.thy ===== *)
theory Rust_Prelude
  imports Main "HOL-Library.Word" "HOL-Library.Monad_Syntax" "HOL-Library.Multiset"
begin

text \<open>
  Shared vocabulary of the development: the machine integers of the Rust sources, their checked
  and saturating operations, little-endian byte strings, results, and the list facts that the
  component theories use.

  The workspace is built with \<^verbatim>\<open>overflow-checks = true\<close> in its release profile
  (\<^verbatim>\<open>src/Cargo.toml\<close>, line 339), so \<open>+\<close>, \<open>-\<close> and \<open>*\<close> on unsigned integers panic on overflow in
  every build.  A computation that may panic has an \<open>option\<close> type here and a panic is \<open>None\<close>; an
  error returned by the code is the \<open>Inl\<close> of a sum.
\<close>

section \<open>Machine integers\<close>

type_synonym u8 = "8 word"
type_synonym u16 = "16 word"
type_synonym u32 = "32 word"
type_synonym u64 = "64 word"
type_synonym u128 = "128 word"

text \<open>
  A \<^verbatim>\<open>Hash\<close> and a \<^verbatim>\<open>[u8; 32]\<close> are 32 bytes compared byte by byte from the first one
  (\<^verbatim>\<open>derive(PartialOrd, Ord)\<close>, \<^verbatim>\<open>src/crypto/hashes/src/lib.rs\<close>); read as a big-endian number
  that is the order of a 256-bit word (lemma \<open>be_to_nat_less_iff\<close> below).
\<close>

type_synonym hash = "256 word"

named_theorems rust_arith \<open>readings of the checked and saturating operations\<close>

definition checked_add :: "'a::len word \<Rightarrow> 'a word \<Rightarrow> 'a word option" where
  "checked_add a b = (if unat a + unat b < 2 ^ LENGTH('a) then Some (a + b) else None)"

definition checked_sub :: "'a::len word \<Rightarrow> 'a word \<Rightarrow> 'a word option" where
  "checked_sub a b = (if b \<le> a then Some (a - b) else None)"

definition checked_mul :: "'a::len word \<Rightarrow> 'a word \<Rightarrow> 'a word option" where
  "checked_mul a b = (if unat a * unat b < 2 ^ LENGTH('a) then Some (a * b) else None)"

definition checked_div :: "'a::len word \<Rightarrow> 'a word \<Rightarrow> 'a word option" where
  "checked_div a b = (if b = 0 then None else Some (a div b))"

definition saturating_sub :: "'a::len word \<Rightarrow> 'a word \<Rightarrow> 'a word" where
  "saturating_sub a b = (if b \<le> a then a - b else 0)"

definition saturating_add :: "'a::len word \<Rightarrow> 'a word \<Rightarrow> 'a word" where
  "saturating_add a b = (if unat a + unat b < 2 ^ LENGTH('a) then a + b else - 1)"

text \<open>\<open>iter().sum()\<close>: a left fold of checked additions from zero.\<close>

fun checked_sum_from :: "'a::len word \<Rightarrow> 'a word list \<Rightarrow> 'a word option" where
  "checked_sum_from acc [] = Some acc"
| "checked_sum_from acc (x # xs) = checked_add acc x \<bind> (\<lambda>s. checked_sum_from s xs)"

abbreviation checked_sum :: "'a::len word list \<Rightarrow> 'a word option" where
  "checked_sum \<equiv> checked_sum_from 0"

lemma unat_lt [simp]: "unat (x :: 'a::len word) < 2 ^ LENGTH('a)"
  by (rule unsigned_less)

lemma checked_add_eq_Some [rust_arith]:
  "checked_add a b = Some c \<longleftrightarrow> unat c = unat a + unat b"
proof
  assume "checked_add a b = Some c"
  then show "unat c = unat a + unat b"
    by (auto simp: checked_add_def unat_word_ariths split: if_splits)
next
  assume c: "unat c = unat a + unat b"
  then have "unat a + unat b < 2 ^ LENGTH('a)" by (metis unat_lt)
  moreover from this c have "a + b = c"
    by (simp add: word_unat_eq_iff unat_word_ariths)
  ultimately show "checked_add a b = Some c" by (simp add: checked_add_def)
qed

lemma checked_add_eq_None [rust_arith]:
  "checked_add a (b :: 'a::len word) = None \<longleftrightarrow> 2 ^ LENGTH('a) \<le> unat a + unat b"
  by (auto simp: checked_add_def)

lemma checked_sub_eq_Some [rust_arith]:
  "checked_sub a b = Some c \<longleftrightarrow> b \<le> a \<and> unat c = unat a - unat b"
  by (auto simp: checked_sub_def unat_sub word_unat_eq_iff)

lemma checked_sub_eq_None [rust_arith]: "checked_sub a b = None \<longleftrightarrow> a < b"
  by (auto simp: checked_sub_def)

lemma checked_mul_eq_Some [rust_arith]:
  "checked_mul a b = Some c \<longleftrightarrow> unat c = unat a * unat b"
proof
  assume "checked_mul a b = Some c"
  then show "unat c = unat a * unat b"
    by (auto simp: checked_mul_def unat_word_ariths split: if_splits)
next
  assume c: "unat c = unat a * unat b"
  then have "unat a * unat b < 2 ^ LENGTH('a)" by (metis unat_lt)
  moreover from this c have "a * b = c"
    by (simp add: word_unat_eq_iff unat_word_ariths)
  ultimately show "checked_mul a b = Some c" by (simp add: checked_mul_def)
qed

lemma checked_mul_eq_None [rust_arith]:
  "checked_mul a (b :: 'a::len word) = None \<longleftrightarrow> 2 ^ LENGTH('a) \<le> unat a * unat b"
  by (auto simp: checked_mul_def)

lemma unat_saturating_sub [rust_arith]: "unat (saturating_sub a b) = unat a - unat b"
  by (auto simp: saturating_sub_def unat_sub word_le_nat_alt)

lemma unat_saturating_add [rust_arith]:
  "unat (saturating_add a (b :: 'a::len word)) = min (unat a + unat b) (2 ^ LENGTH('a) - 1)"
proof -
  have "unat (- 1 :: 'a word) = 2 ^ LENGTH('a) - 1"
    by (simp add: unsigned_minus_1_eq_mask mask_eq_exp_minus_1)
  then show ?thesis
    by (auto simp: saturating_add_def unat_word_ariths min_def)
qed

lemma checked_sum_from_eq_Some:
  "checked_sum_from acc xs = Some s \<longleftrightarrow> unat s = unat acc + sum_list (map unat xs)"
proof (induction xs arbitrary: acc)
  case Nil
  then show ?case by (auto simp: word_unat_eq_iff)
next
  case (Cons x xs)
  show ?case
  proof (cases "checked_add acc x")
    case None
    then have "unat s < unat acc + unat x"
      using unat_lt [of s] by (simp only: checked_add_eq_None)
    with None show ?thesis by simp
  next
    case (Some t)
    then have "unat t = unat acc + unat x" by (simp add: checked_add_eq_Some)
    with Some Cons show ?thesis by (simp add: add.assoc)
  qed
qed

lemma checked_sum_eq_Some [rust_arith]:
  "checked_sum xs = Some s \<longleftrightarrow> unat s = sum_list (map unat xs)"
  by (simp add: checked_sum_from_eq_Some)

lemma checked_sum_Some_ex:
  assumes "sum_list (map unat xs) < 2 ^ LENGTH('a::len)"
  shows "checked_sum (xs :: 'a word list) = Some (word_of_nat (sum_list (map unat xs)))"
  using assms by (simp add: checked_sum_eq_Some unat_of_nat)

section \<open>Byte strings\<close>

lemma unat_ucast_wide: "LENGTH('a::len) \<le> LENGTH('b::len) \<Longrightarrow> unat (ucast (x :: 'a word) :: 'b word) = unat x"
proof -
  assume "LENGTH('a) \<le> LENGTH('b)"
  then have "(2::nat) ^ LENGTH('a) \<le> 2 ^ LENGTH('b)" by (intro power_increasing) auto
  then have "unat x < 2 ^ LENGTH('b)" using unsigned_less [of x, where ?'a = nat] by linarith
  then show ?thesis unfolding unsigned_ucast_eq by (rule take_bit_nat_eq_self)
qed

text \<open>\<open>to_le_bytes\<close> and \<open>from_le_bytes\<close>: the least significant byte first.\<close>

fun nat_to_le :: "nat \<Rightarrow> nat \<Rightarrow> u8 list" where
  "nat_to_le 0 n = []"
| "nat_to_le (Suc k) n = word_of_nat (n mod 256) # nat_to_le k (n div 256)"

fun le_to_nat :: "u8 list \<Rightarrow> nat" where
  "le_to_nat [] = 0"
| "le_to_nat (b # bs) = unat b + 256 * le_to_nat bs"

definition to_le :: "nat \<Rightarrow> 'a::len word \<Rightarrow> u8 list" where
  "to_le k w = nat_to_le k (unat w)"

definition from_le :: "u8 list \<Rightarrow> 'a::len word" where
  "from_le bs = word_of_nat (le_to_nat bs)"

text \<open>\<open>Hash::as_bytes\<close> and \<open>Hash::from_bytes\<close>: the most significant byte first.\<close>

definition hash_bytes :: "hash \<Rightarrow> u8 list" where
  "hash_bytes h = rev (nat_to_le 32 (unat h))"

definition hash_of_bytes :: "u8 list \<Rightarrow> hash" where
  "hash_of_bytes bs = word_of_nat (le_to_nat (rev bs))"

lemma length_nat_to_le [simp]: "length (nat_to_le k n) = k"
  by (induction k arbitrary: n) auto

lemma length_to_le [simp]: "length (to_le k w) = k"
  by (simp add: to_le_def)

lemma length_hash_bytes [simp]: "length (hash_bytes h) = 32"
  by (simp add: hash_bytes_def)

lemma le_to_nat_nat_to_le: "le_to_nat (nat_to_le k n) = n mod 256 ^ k"
proof (induction k arbitrary: n)
  case 0
  then show ?case by simp
next
  case (Suc k)
  have "unat (word_of_nat (n mod 256) :: u8) = n mod 256"
    by (simp add: unat_of_nat)
  then show ?case
    by (simp add: Suc mod_mult2_eq)
qed

lemma nat_to_le_le_to_nat: "length bs = k \<Longrightarrow> nat_to_le k (le_to_nat bs) = bs"
proof (induction bs arbitrary: k)
  case Nil
  then show ?case by simp
next
  case (Cons b bs)
  have b: "unat b < 256" using unat_lt [of b] by simp
  have "(unat b + 256 * le_to_nat bs) mod 256 = unat b"
    using b by simp
  moreover have "(unat b + 256 * le_to_nat bs) div 256 = le_to_nat bs"
    using b by simp
  ultimately show ?case using Cons by (cases k) auto
qed

lemma le_to_nat_lt: "le_to_nat bs < 256 ^ length bs"
proof (induction bs)
  case Nil
  then show ?case by simp
next
  case (Cons b bs)
  have "unat b < 256" using unat_lt [of b] by simp
  with Cons show ?case by simp
qed

lemma from_le_to_le [simp]:
  assumes "LENGTH('a::len) \<le> 8 * k"
  shows "from_le (to_le k w) = (w :: 'a word)"
proof -
  have "unat w < 2 ^ LENGTH('a)" by simp
  also have "(2 :: nat) ^ LENGTH('a) \<le> 2 ^ (8 * k)" using assms by (intro power_increasing) auto
  also have "(2 :: nat) ^ (8 * k) = 256 ^ k" by (simp add: power_mult)
  finally show ?thesis by (simp add: from_le_def to_le_def le_to_nat_nat_to_le)
qed

lemma to_le_from_le:
  assumes "length bs = k" and "LENGTH('a::len) = 8 * k"
  shows "to_le k (from_le bs :: 'a word) = bs"
proof -
  have "le_to_nat bs < 256 ^ k" using le_to_nat_lt [of bs] assms(1) by simp
  also have "(256 :: nat) ^ k = 2 ^ LENGTH('a)" by (simp add: assms(2) power_mult)
  finally show ?thesis
    using assms(1) by (simp add: to_le_def from_le_def unat_of_nat nat_to_le_le_to_nat)
qed

lemma hash_of_bytes_hash_bytes [simp]: "hash_of_bytes (hash_bytes h) = h"
proof -
  have "unat h < 256 ^ 32" using unat_lt [of h] by simp
  then show ?thesis by (simp add: hash_of_bytes_def hash_bytes_def le_to_nat_nat_to_le)
qed

lemma hash_bytes_hash_of_bytes:
  assumes "length bs = 32"
  shows "hash_bytes (hash_of_bytes bs) = bs"
proof -
  have "le_to_nat (rev bs) < 256 ^ 32" using le_to_nat_lt [of "rev bs"] assms by simp
  then show ?thesis
    using assms by (simp add: hash_bytes_def hash_of_bytes_def unat_of_nat nat_to_le_le_to_nat)
qed

text \<open>
  The order of two hashes as 256-bit words is the order of their byte arrays: the first byte that
  differs decides.
\<close>

lemma le_to_nat_snoc: "le_to_nat (bs @ [b]) = le_to_nat bs + 256 ^ length bs * unat b"
  by (induction bs) (auto simp: algebra_simps)

lemma be_to_nat_less_iff:
  assumes "length xs = length ys"
  shows "le_to_nat (rev xs) < le_to_nat (rev ys) \<longleftrightarrow> (xs, ys) \<in> lexord {(a, b). a < (b :: u8)}"
  using assms
proof (induction xs ys rule: list_induct2)
  case Nil
  then show ?case by simp
next
  case (Cons x xs y ys)
  let ?m = "256 ^ length ys :: nat"
  have bx: "le_to_nat (rev xs) < ?m" and bys: "le_to_nat (rev ys) < ?m"
    using le_to_nat_lt [of "rev xs"] le_to_nat_lt [of "rev ys"] Cons.hyps by simp_all
  consider "unat x < unat y" | "unat x = unat y" | "unat y < unat x" by linarith
  then show ?case
  proof cases
    case 1
    then have "?m * Suc (unat x) \<le> ?m * unat y" by (intro mult_le_mono) auto
    with 1 bx show ?thesis by (simp add: le_to_nat_snoc Cons.hyps word_less_nat_alt)
  next
    case 2
    then have "x = y" by (simp add: word_unat_eq_iff)
    with Cons show ?thesis by (simp add: le_to_nat_snoc)
  next
    case 3
    then have "?m * Suc (unat y) \<le> ?m * unat x" by (intro mult_le_mono) auto
    with 3 bys show ?thesis
      by (auto simp: le_to_nat_snoc Cons.hyps word_less_nat_alt)
  qed
qed

lemma hash_less_iff:
  "a < b \<longleftrightarrow> (hash_bytes a, hash_bytes b) \<in> lexord {(x, y). x < (y :: u8)}"
proof -
  have "unat h = le_to_nat (rev (hash_bytes h))" for h
    using unat_lt [of h] by (simp add: hash_bytes_def le_to_nat_nat_to_le)
  then have "a < b \<longleftrightarrow> le_to_nat (rev (hash_bytes a)) < le_to_nat (rev (hash_bytes b))"
    by (simp only: word_less_nat_alt)
  also have "\<dots> \<longleftrightarrow> (hash_bytes a, hash_bytes b) \<in> lexord {(x, y). x < (y :: u8)}"
    by (rule be_to_nat_less_iff) simp
  finally show ?thesis .
qed

section \<open>Results and lists\<close>

text \<open>The \<open>?\<close> operator: go on with the value of an \<open>Ok\<close>, return an \<open>Err\<close> as it is.\<close>

definition res_bind :: "'e + 'a \<Rightarrow> ('a \<Rightarrow> 'e + 'b) \<Rightarrow> 'e + 'b" where
  "res_bind r f = (case r of Inl e \<Rightarrow> Inl e | Inr x \<Rightarrow> f x)"

lemma res_bind_simps [simp]:
  "res_bind (Inl e) f = Inl e"
  "res_bind (Inr x) f = f x"
  by (simp_all add: res_bind_def)

lemma res_bind_eq_Inr: "res_bind r f = Inr y \<longleftrightarrow> (\<exists>x. r = Inr x \<and> f x = Inr y)"
  by (cases r) auto

lemma res_bind_eq_Inl: "res_bind r f = Inl e \<longleftrightarrow> r = Inl e \<or> (\<exists>x. r = Inr x \<and> f x = Inl e)"
  by (cases r) auto

text \<open>
  A computation that may both panic and return an error: \<open>None\<close> is a panic, \<open>Err e\<close> and \<open>Ok x\<close> are
  the two results.  \<open>try_bind\<close> is the \<open>?\<close> operator there.
\<close>

type_synonym ('e, 'a) outcome = "('e + 'a) option"

abbreviation Ok :: "'a \<Rightarrow> ('e, 'a) outcome" where
  "Ok x \<equiv> Some (Inr x)"

abbreviation Err :: "'e \<Rightarrow> ('e, 'a) outcome" where
  "Err e \<equiv> Some (Inl e)"

definition try_bind :: "('e, 'a) outcome \<Rightarrow> ('a \<Rightarrow> ('e, 'b) outcome) \<Rightarrow> ('e, 'b) outcome" where
  "try_bind r f = (case r of None \<Rightarrow> None | Some (Inl e) \<Rightarrow> Err e | Some (Inr x) \<Rightarrow> f x)"

lemma try_bind_simps [simp]:
  "try_bind None f = None"
  "try_bind (Err e) f = Err e"
  "try_bind (Ok x) f = f x"
  by (simp_all add: try_bind_def)

lemma try_bind_eq_Ok: "try_bind r f = Ok y \<longleftrightarrow> (\<exists>x. r = Ok x \<and> f x = Ok y)"
  by (auto simp: try_bind_def split: option.splits sum.splits)

lemma try_bind_eq_Err: "try_bind r f = Err e \<longleftrightarrow> r = Err e \<or> (\<exists>x. r = Ok x \<and> f x = Err e)"
  by (auto simp: try_bind_def split: option.splits sum.splits)

lemma try_bind_eq_None: "try_bind r f = None \<longleftrightarrow> r = None \<or> (\<exists>x. r = Ok x \<and> f x = None)"
  by (auto simp: try_bind_def split: option.splits sum.splits)

lemma try_bind_assoc: "try_bind (try_bind r f) g = try_bind r (\<lambda>x. try_bind (f x) g)"
  by (auto simp: try_bind_def split: option.splits sum.splits)

lemma outcome_cases:
  obtains (Panic) "r = None" | (Err) e where "r = Err e" | (Ok) x where "r = Ok x"
  by (metis option.exhaust sum.exhaust)

lemma replicate_num: "replicate (numeral n) x = x # replicate (pred_numeral n) x"
  by (simp add: numeral_eq_Suc)

text \<open>\<open>for x in xs { s = f(s, x)?; }\<close> with a body that may panic.\<close>

fun foldM :: "('s \<Rightarrow> 'x \<Rightarrow> 's option) \<Rightarrow> 's \<Rightarrow> 'x list \<Rightarrow> 's option" where
  "foldM f s [] = Some s"
| "foldM f s (x # xs) = f s x \<bind> (\<lambda>s'. foldM f s' xs)"

lemma foldM_append: "foldM f s (xs @ ys) = foldM f s xs \<bind> (\<lambda>s'. foldM f s' ys)"
proof (induction xs arbitrary: s)
  case Nil
  then show ?case by simp
next
  case (Cons x xs)
  then show ?case by (cases "f s x") auto
qed

lemma foldM_invariant:
  assumes "foldM f s xs = Some s'" and "P s"
    and "\<And>s x t. x \<in> set xs \<Longrightarrow> P s \<Longrightarrow> f s x = Some t \<Longrightarrow> P t"
  shows "P s'"
  using assms
proof (induction xs arbitrary: s)
  case Nil
  then show ?case by simp
next
  case (Cons x xs)
  from Cons.prems(1) obtain t where t: "f s x = Some t" "foldM f t xs = Some s'"
    by (auto split: bind_splits)
  have "P t" using Cons.prems(2,3) t(1) by auto
  with t(2) show ?case using Cons.IH Cons.prems(3) by auto
qed

lemma foldM_total:
  assumes "P s"
    and "\<And>s x. x \<in> set xs \<Longrightarrow> P s \<Longrightarrow> \<exists>t. f s x = Some t \<and> P t"
  shows "\<exists>s'. foldM f s xs = Some s' \<and> P s'"
  using assms
proof (induction xs arbitrary: s)
  case Nil
  then show ?case by simp
next
  case (Cons x xs)
  from Cons.prems obtain t where "f s x = Some t" "P t" by (meson list.set_intros(1))
  moreover from this have "\<exists>s'. foldM f t xs = Some s' \<and> P s'"
    using Cons.IH Cons.prems(2) by auto
  ultimately show ?case by auto
qed

end
