(* ===== verification/Rust_Maps.thy ===== *)
theory Rust_Maps
  imports Rust_Prelude "HOL-Library.AList"
begin

text \<open>
  The two maps of the Rust standard library that the sources use.  A \<^verbatim>\<open>HashMap\<close> is the
  association list of its entries in its iteration order, which the standard library leaves
  unspecified: any order of distinct keys is a value of the model.  A \<^verbatim>\<open>BTreeMap\<close> is the association
  list of its entries in ascending key order, which is the order it iterates in.  The locale
  \<open>assoc_map\<close> is what client code may rely on whichever of the two it holds.
\<close>

section \<open>The contract of a map\<close>

locale assoc_map =
  fixes empty :: "'m"
    and get :: "'m \<Rightarrow> 'k \<Rightarrow> 'v option"
    and insert :: "'k \<Rightarrow> 'v \<Rightarrow> 'm \<Rightarrow> 'm"
    and remove :: "'k \<Rightarrow> 'm \<Rightarrow> 'm"
    and entries :: "'m \<Rightarrow> ('k \<times> 'v) list"
    and wf :: "'m \<Rightarrow> bool"
  assumes get_empty: "get empty = Map.empty"
    and get_insert: "wf m \<Longrightarrow> get (insert k v m) = (get m)(k \<mapsto> v)"
    and get_remove: "wf m \<Longrightarrow> get (remove k m) = (get m)(k := None)"
    and get_entries: "wf m \<Longrightarrow> get m = map_of (entries m)"
    and distinct_entries: "wf m \<Longrightarrow> distinct (map fst (entries m))"
    and wf_empty: "wf empty"
    and wf_insert: "wf m \<Longrightarrow> wf (insert k v m)"
    and wf_remove: "wf m \<Longrightarrow> wf (remove k m)"
begin

lemma wf_insert_all: "wf m \<Longrightarrow> wf (fold (\<lambda>(k, v). insert k v) kvs m)"
  by (induction kvs arbitrary: m) (auto intro: wf_insert)

lemma get_insert_all:
  "wf m \<Longrightarrow> get (fold (\<lambda>(k, v). insert k v) kvs m) = get m ++ map_of (rev kvs)"
proof (induction kvs arbitrary: m)
  case Nil
  then show ?case by simp
next
  case (Cons kv kvs)
  obtain k v where kv: "kv = (k, v)" by (cases kv)
  have "get (fold (\<lambda>(k, v). insert k v) kvs (insert k v m))
      = (get m)(k \<mapsto> v) ++ map_of (rev kvs)"
    unfolding Cons.IH [OF wf_insert [OF Cons.prems]] get_insert [OF Cons.prems] ..
  then show ?case by (simp add: kv map_add_assoc map_add_upd_left)
qed

lemma wf_remove_all: "wf m \<Longrightarrow> wf (fold remove ks m)"
  by (induction ks arbitrary: m) (auto intro: wf_remove)

lemma get_remove_all:
  "wf m \<Longrightarrow> get (fold remove ks m) = (get m) |` (- set ks)"
proof (induction ks arbitrary: m)
  case Nil
  then show ?case by (simp add: restrict_map_def)
next
  case (Cons k ks)
  have "get (fold remove ks (remove k m)) = ((get m)(k := None)) |` (- set ks)"
    unfolding Cons.IH [OF wf_remove [OF Cons.prems]] get_remove [OF Cons.prems] ..
  then show ?case by (auto simp: restrict_map_def fun_eq_iff)
qed

text \<open>Distributing the entries of one map over two others, as the set operations on collections do.\<close>

lemma distribute:
  assumes "distinct (map fst kvs)" and "wf a" and "wf b"
    and "fold (\<lambda>(k, v) (x, y). if P k v then (insert k v x, y) else (x, insert k v y)) kvs (a, b) = (a', b')"
  shows "wf a' \<and> wf b'
    \<and> get a' = (\<lambda>k. case map_of kvs k of Some v \<Rightarrow> if P k v then Some v else get a k | None \<Rightarrow> get a k)
    \<and> get b' = (\<lambda>k. case map_of kvs k of Some v \<Rightarrow> if P k v then get b k else Some v | None \<Rightarrow> get b k)"
  using assms
proof (induction kvs arbitrary: a b)
  case Nil
  then show ?case by simp
next
  case (Cons p kvs)
  obtain k v where p: "p = (k, v)" by (cases p)
  have fresh: "map_of kvs k = None" and dist: "distinct (map fst kvs)"
    using Cons.prems(1) by (auto simp: p map_of_eq_None_iff)
  show ?case
  proof (cases "P k v")
    case True
    have "wf (insert k v a)" using Cons.prems(2) by (rule wf_insert)
    from Cons.IH [OF dist this Cons.prems(3)] Cons.prems(4) True show ?thesis
      by (auto simp: p fresh get_insert [OF Cons.prems(2)] fun_eq_iff split: option.splits)
  next
    case False
    have "wf (insert k v b)" using Cons.prems(3) by (rule wf_insert)
    from Cons.IH [OF dist Cons.prems(2) this] Cons.prems(4) False show ?thesis
      by (auto simp: p fresh get_insert [OF Cons.prems(3)] fun_eq_iff split: option.splits)
  qed
qed

lemma mem_entries_iff: "wf m \<Longrightarrow> (k, v) \<in> set (entries m) \<longleftrightarrow> get m k = Some v"
  by (simp add: get_entries distinct_entries)

lemma dom_get: "wf m \<Longrightarrow> dom (get m) = fst ` set (entries m)"
  by (simp add: get_entries dom_map_of_conv_image_fst)

lemma finite_dom_get: "wf m \<Longrightarrow> finite (dom (get m))"
  by (simp add: dom_get)

end

lemma map_of_rev_distinct: "distinct (map fst m) \<Longrightarrow> map_of (rev m) = map_of m"
  by (subst map_of_inject_set) (auto simp: rev_map [symmetric])

section \<open>\<open>HashMap\<close>\<close>

type_synonym ('k, 'v) hmap = "('k \<times> 'v) list"

definition hm_wf :: "('k, 'v) hmap \<Rightarrow> bool" where
  "hm_wf m = distinct (map fst m)"

abbreviation hm_get :: "('k, 'v) hmap \<Rightarrow> 'k \<Rightarrow> 'v option" where
  "hm_get \<equiv> map_of"

abbreviation hm_insert :: "'k \<Rightarrow> 'v \<Rightarrow> ('k, 'v) hmap \<Rightarrow> ('k, 'v) hmap" where
  "hm_insert \<equiv> AList.update"

abbreviation hm_remove :: "'k \<Rightarrow> ('k, 'v) hmap \<Rightarrow> ('k, 'v) hmap" where
  "hm_remove \<equiv> AList.delete"

definition hm_contains_key :: "('k, 'v) hmap \<Rightarrow> 'k \<Rightarrow> bool" where
  "hm_contains_key m k = (map_of m k \<noteq> None)"

interpretation hm: assoc_map "[]" hm_get hm_insert hm_remove "\<lambda>m. m" hm_wf
  by unfold_locales
    (auto simp: hm_wf_def update_conv' delete_conv' distinct_update distinct_delete)

section \<open>\<open>BTreeMap\<close>\<close>

type_synonym ('k, 'v) btree = "('k \<times> 'v) list"

definition bt_wf :: "('k::linorder, 'v) btree \<Rightarrow> bool" where
  "bt_wf m = sorted_wrt (<) (map fst m)"

abbreviation bt_get :: "('k, 'v) btree \<Rightarrow> 'k \<Rightarrow> 'v option" where
  "bt_get \<equiv> map_of"

definition bt_contains_key :: "('k, 'v) btree \<Rightarrow> 'k \<Rightarrow> bool" where
  "bt_contains_key m k = (map_of m k \<noteq> None)"

fun bt_insert :: "'k::linorder \<Rightarrow> 'v \<Rightarrow> ('k, 'v) btree \<Rightarrow> ('k, 'v) btree" where
  "bt_insert k v [] = [(k, v)]"
| "bt_insert k v ((k', v') # m) =
     (if k < k' then (k, v) # (k', v') # m
      else if k = k' then (k, v) # m
      else (k', v') # bt_insert k v m)"

definition bt_remove :: "'k \<Rightarrow> ('k, 'v) btree \<Rightarrow> ('k, 'v) btree" where
  "bt_remove k m = filter (\<lambda>p. fst p \<noteq> k) m"

definition bt_retain :: "('k \<Rightarrow> 'v \<Rightarrow> bool) \<Rightarrow> ('k, 'v) btree \<Rightarrow> ('k, 'v) btree" where
  "bt_retain P m = filter (\<lambda>(k, v). P k v) m"

lemma bt_wf_Nil [simp]: "bt_wf []"
  by (simp add: bt_wf_def)

lemma bt_wf_Cons [simp]: "bt_wf ((k, v) # m) \<longleftrightarrow> (\<forall>p\<in>set m. k < fst p) \<and> bt_wf m"
  by (auto simp: bt_wf_def)

lemma bt_wf_distinct: "bt_wf m \<Longrightarrow> distinct (map fst m)"
  by (simp add: bt_wf_def strict_sorted_iff)

lemma bt_get_insert [simp]: "bt_get (bt_insert k v m) = (bt_get m)(k \<mapsto> v)"
  by (induction m) auto

lemma fst_set_bt_insert: "fst ` set (bt_insert k v m) = Set.insert k (fst ` set m)"
  by (induction k v m rule: bt_insert.induct) (simp_all add: insert_commute)

lemma length_bt_insert_new: "k \<notin> fst ` set m \<Longrightarrow> length (bt_insert k v m) = Suc (length m)"
  by (induction k v m rule: bt_insert.induct) auto

lemma bt_insert_twice [simp]: "bt_insert k v' (bt_insert k v m) = bt_insert k v' m"
  by (induction k v m rule: bt_insert.induct) auto

lemma bt_wf_insert [simp]: "bt_wf m \<Longrightarrow> bt_wf (bt_insert k v m)"
proof (induction m)
  case Nil
  then show ?case by simp
next
  case (Cons p m)
  obtain k' v' where p: "p = (k', v')" by (cases p)
  have keys: "\<forall>q\<in>set m. k' < fst q" using Cons.prems p by simp
  have "\<forall>q\<in>set (bt_insert k v m). k' < fst q" if "k' < k"
  proof
    fix q assume "q \<in> set (bt_insert k v m)"
    then have "fst q \<in> fst ` set (bt_insert k v m)" by simp
    then have "fst q = k \<or> fst q \<in> fst ` set m" by (simp add: fst_set_bt_insert)
    then show "k' < fst q" using that keys by auto
  qed
  moreover have "bt_wf (bt_insert k v m)" using Cons p by simp
  ultimately show ?case using Cons.prems p by fastforce
qed

lemma bt_get_remove [simp]: "bt_get (bt_remove k m) = (bt_get m)(k := None)"
  by (induction m) (auto simp: bt_remove_def fun_eq_iff)

lemma sorted_wrt_filter_fst:
  "sorted_wrt (<) (map fst m) \<Longrightarrow> sorted_wrt (<) (map fst (filter P m))"
  by (induction m) auto

lemma bt_wf_remove [simp]: "bt_wf m \<Longrightarrow> bt_wf (bt_remove k m)"
  by (simp add: bt_wf_def bt_remove_def sorted_wrt_filter_fst)

lemma bt_wf_retain [simp]: "bt_wf m \<Longrightarrow> bt_wf (bt_retain P m)"
  by (simp add: bt_wf_def bt_retain_def sorted_wrt_filter_fst)

lemma bt_get_retain:
  "bt_wf m \<Longrightarrow> bt_get (bt_retain P m) k =
     (case bt_get m k of None \<Rightarrow> None | Some v \<Rightarrow> if P k v then Some v else None)"
proof (induction m)
  case Nil
  then show ?case by (simp add: bt_retain_def)
next
  case (Cons p m)
  obtain k' v' where p: "p = (k', v')" by (cases p)
  have "bt_get m k' = None" if "k = k'"
    using Cons.prems p by (auto simp: map_of_eq_None_iff)
  then have "bt_get (bt_retain P m) k' = None" if "k = k'"
    using Cons that p by simp
  then show ?case using Cons p by (auto simp: bt_retain_def)
qed

lemma bt_wf_map_snd [simp]: "bt_wf (map (\<lambda>(k, v). (k, f k v)) m) \<longleftrightarrow> bt_wf m"
proof -
  have "map fst (map (\<lambda>(k, v). (k, f k v)) m) = map fst m" by (induction m) auto
  then show ?thesis by (simp only: bt_wf_def)
qed

lemma bt_get_map_snd: "bt_get (map (\<lambda>(k, v). (k, f k v)) m) k = map_option (f k) (bt_get m k)"
  by (induction m) auto

interpretation bt: assoc_map "[]" bt_get bt_insert bt_remove "\<lambda>m. m" bt_wf
  by unfold_locales (auto simp: bt_wf_distinct)

text \<open>A \<open>BTreeMap\<close> is determined by what its lookups return.\<close>

lemma alist_by_keys:
  "distinct (map fst m) \<Longrightarrow> map (\<lambda>k. (k, the (map_of m k))) (map fst m) = m"
proof (induction m)
  case Nil
  then show ?case by simp
next
  case (Cons p m)
  obtain k v where p: "p = (k, v)" by (cases p)
  have "map (\<lambda>k'. (k', the (map_of (p # m) k'))) (map fst m)
      = map (\<lambda>k'. (k', the (map_of m k'))) (map fst m)"
    using Cons.prems p by (auto intro!: map_cong)
  with Cons p show ?case by simp
qed

lemma bt_ext:
  assumes "bt_wf a" and "bt_wf b" and eq: "bt_get a = bt_get b"
  shows "a = b"
proof -
  have "fst ` set a = fst ` set b"
    using eq by (metis dom_map_of_conv_image_fst)
  then have keys: "map fst a = map fst b"
    using assms(1,2) strict_sorted_equal [of "map fst a" "map fst b"]
    by (simp add: bt_wf_def)
  have "a = map (\<lambda>k. (k, the (map_of a k))) (map fst a)"
    using alist_by_keys [of a] bt_wf_distinct [OF assms(1)] by simp
  also have "\<dots> = map (\<lambda>k. (k, the (map_of b k))) (map fst b)"
    by (simp only: keys eq)
  also have "\<dots> = b"
    using alist_by_keys [of b] bt_wf_distinct [OF assms(2)] by simp
  finally show ?thesis .
qed

lemma bt_insert_all_wf_get:
  assumes "bt_wf m"
  shows "bt_wf (fold (\<lambda>(k, v). bt_insert k v) kvs m)"
    and "bt_get (fold (\<lambda>(k, v). bt_insert k v) kvs m) = bt_get m ++ map_of (rev kvs)"
  using bt.wf_insert_all [OF assms] bt.get_insert_all [OF assms] by auto

text \<open>Appending a larger key: how a decoder that reads keys in order rebuilds the map.\<close>

lemma bt_insert_last:
  "\<forall>p\<in>set m. fst p < k \<Longrightarrow> bt_insert k v m = m @ [(k, v)]"
proof (induction m)
  case Nil
  then show ?case by simp
next
  case (Cons p m)
  obtain k' v' where p: "p = (k', v')" by (cases p)
  with Cons have "k' < k" and "bt_insert k v m = m @ [(k, v)]" by auto
  with p show ?case by auto
qed

section \<open>\<open>sort_unstable\<close> and \<open>dedup\<close>\<close>

text \<open>On a total order whose equality is identity, an unstable sort is \<open>sort\<close>.\<close>

fun dedup :: "'a list \<Rightarrow> 'a list" where
  "dedup [] = []"
| "dedup [x] = [x]"
| "dedup (x # y # xs) = (if x = y then dedup (y # xs) else x # dedup (y # xs))"

lemma set_dedup [simp]: "set (dedup xs) = set xs"
  by (induction xs rule: dedup.induct) auto

lemma dedup_eq_Nil [simp]: "dedup xs = [] \<longleftrightarrow> xs = []"
  by (induction xs rule: dedup.induct) auto

lemma sorted_dedup_strict: "sorted xs \<Longrightarrow> sorted_wrt (<) (dedup (xs :: 'a::linorder list))"
  by (induction xs rule: dedup.induct) (auto simp: less_le)

lemma dedup_sort_unique:
  "set xs = set ys \<Longrightarrow> dedup (sort xs) = dedup (sort (ys :: 'a::linorder list))"
  by (intro strict_sorted_equal sorted_dedup_strict) auto

lemma distinct_dedup_sort: "distinct (dedup (sort (xs :: 'a::linorder list)))"
  using sorted_dedup_strict [of "sort xs"] by (simp add: strict_sorted_iff)

text \<open>\<open>slice::binary_search\<close> on a sorted slice finds exactly the members.\<close>

function bsearch :: "'a::linorder list \<Rightarrow> 'a \<Rightarrow> nat \<Rightarrow> nat \<Rightarrow> bool" where
  "bsearch xs x lo hi =
     (if hi \<le> lo then False
      else let mid = lo + (hi - lo) div 2 in
        if xs ! mid = x then True
        else if xs ! mid < x then bsearch xs x (Suc mid) hi
        else bsearch xs x lo mid)"
  by pat_completeness auto
termination
  by (relation "measure (\<lambda>(xs, x, lo, hi). hi - lo)") (auto simp: Let_def)

declare bsearch.simps [simp del]

definition binary_search_ok :: "'a::linorder list \<Rightarrow> 'a \<Rightarrow> bool" where
  "binary_search_ok xs x = bsearch xs x 0 (length xs)"

lemma bsearch_iff:
  "sorted_wrt (<) xs \<Longrightarrow> hi \<le> length xs \<Longrightarrow> bsearch xs x lo hi \<longleftrightarrow> (\<exists>i. lo \<le> i \<and> i < hi \<and> xs ! i = x)"
proof (induction xs x lo hi rule: bsearch.induct)
  case (1 xs x lo hi)
  define mid where "mid = lo + (hi - lo) div 2"
  show ?case
  proof (cases "hi \<le> lo")
    case True
    then show ?thesis by (subst bsearch.simps) auto
  next
    case False
    then have mid: "lo \<le> mid" "mid < hi" by (auto simp: mid_def)
    consider (eq) "xs ! mid = x" | (lt) "xs ! mid < x" | (gt) "x < xs ! mid" by fastforce
    then show ?thesis
    proof cases
      case eq
      then have "bsearch xs x lo hi"
        using False by (subst bsearch.simps) (simp add: Let_def mid_def)
      with eq mid show ?thesis by blast
    next
      case lt
      then have neq: "xs ! mid \<noteq> x" by simp
      have low: "xs ! i \<noteq> x" if "i \<le> mid" for i
        using that lt sorted_wrt_nth_less [OF "1.prems"(1), of i mid] mid "1.prems"(2)
        by (cases "i = mid") force+
      have "bsearch xs x lo hi = bsearch xs x (Suc mid) hi"
        by (subst bsearch.simps) (simp only: Let_def mid_def [symmetric] False lt neq if_False if_True)
      also have "\<dots> \<longleftrightarrow> (\<exists>i. Suc mid \<le> i \<and> i < hi \<and> xs ! i = x)"
        using "1.IH"(1) False lt "1.prems" by (simp add: mid_def)
      also have "\<dots> \<longleftrightarrow> (\<exists>i. lo \<le> i \<and> i < hi \<and> xs ! i = x)"
        using low mid by (metis Suc_leD le_trans not_less_eq_eq)
      finally show ?thesis .
    next
      case gt
      then have neq: "xs ! mid \<noteq> x" "\<not> xs ! mid < x" by auto
      have high: "xs ! i \<noteq> x" if "mid \<le> i" "i < hi" for i
        using that gt sorted_wrt_nth_less [OF "1.prems"(1), of mid i] "1.prems"(2)
        by (cases "i = mid") force+
      have "bsearch xs x lo hi = bsearch xs x lo mid"
        by (subst bsearch.simps) (simp only: Let_def mid_def [symmetric] False neq if_False)
      also have "\<dots> \<longleftrightarrow> (\<exists>i. lo \<le> i \<and> i < mid \<and> xs ! i = x)"
        using "1.IH"(2) False gt "1.prems" mid by (simp add: mid_def)
      also have "\<dots> \<longleftrightarrow> (\<exists>i. lo \<le> i \<and> i < hi \<and> xs ! i = x)"
      proof -
        have "lo \<le> i \<and> i < mid \<and> xs ! i = x \<longleftrightarrow> lo \<le> i \<and> i < hi \<and> xs ! i = x" for i
          using high [of i] mid by (cases "i < mid") auto
        then show ?thesis by simp
      qed
      finally show ?thesis .
    qed
  qed
qed

lemma binary_search_ok_iff [simp]:
  "sorted_wrt (<) xs \<Longrightarrow> binary_search_ok xs x \<longleftrightarrow> x \<in> set xs"
  by (auto simp: binary_search_ok_def bsearch_iff in_set_conv_nth)

end
