(* ===== verification/Tx_Model.thy ===== *)
theory Tx_Model
  imports Rust_Maps
begin

text \<open>
  The transaction types of \<^verbatim>\<open>src/consensus/core/src/tx.rs\<close>, \<^verbatim>\<open>tx/script_public_key.rs\<close> and
  \<^verbatim>\<open>subnets.rs\<close>.  The field names carry a short prefix where two structs of the source use the
  same one.  Serialisation glue (serde, borsh, wasm) is not modelled.
\<close>

section \<open>Script public keys, outpoints, UTXO entries\<close>

record ScriptPublicKey =
  spk_version :: u16
  spk_script :: "u8 list"

definition ScriptPublicKey_from_vec :: "u16 \<Rightarrow> u8 list \<Rightarrow> ScriptPublicKey" where
  "ScriptPublicKey_from_vec v s = \<lparr>spk_version = v, spk_script = s\<rparr>"

record TransactionOutpoint =
  transaction_id :: hash
  outpoint_index :: u32

definition TransactionOutpoint_new :: "hash \<Rightarrow> u32 \<Rightarrow> TransactionOutpoint" where
  "TransactionOutpoint_new t i = \<lparr>transaction_id = t, outpoint_index = i\<rparr>"

record UtxoEntry =
  amount :: u64
  entry_spk :: ScriptPublicKey
  block_daa_score :: u64
  entry_is_coinbase :: bool
  effective_daa :: u64

definition UtxoEntry_new :: "u64 \<Rightarrow> ScriptPublicKey \<Rightarrow> u64 \<Rightarrow> bool \<Rightarrow> UtxoEntry" where
  "UtxoEntry_new amt spk daa cb =
     \<lparr>amount = amt, entry_spk = spk, block_daa_score = daa, entry_is_coinbase = cb,
      effective_daa = daa\<rparr>"

definition UtxoEntry_new_aged ::
    "u64 \<Rightarrow> ScriptPublicKey \<Rightarrow> u64 \<Rightarrow> bool \<Rightarrow> u64 \<Rightarrow> UtxoEntry" where
  "UtxoEntry_new_aged amt spk daa cb eff =
     \<lparr>amount = amt, entry_spk = spk, block_daa_score = daa, entry_is_coinbase = cb,
      effective_daa = eff\<rparr>"

section \<open>Subnetworks\<close>

type_synonym SubnetworkId = "u8 list"

definition SUBNETWORK_ID_SIZE :: nat where
  "SUBNETWORK_ID_SIZE = 20"

definition SubnetworkId_from_byte :: "u8 \<Rightarrow> SubnetworkId" where
  "SubnetworkId_from_byte b = (replicate SUBNETWORK_ID_SIZE 0)[0 := b]"

definition SUBNETWORK_ID_NATIVE :: SubnetworkId where
  "SUBNETWORK_ID_NATIVE = SubnetworkId_from_byte 0"
definition SUBNETWORK_ID_COINBASE :: SubnetworkId where
  "SUBNETWORK_ID_COINBASE = SubnetworkId_from_byte 1"
definition SUBNETWORK_ID_REGISTRY :: SubnetworkId where
  "SUBNETWORK_ID_REGISTRY = SubnetworkId_from_byte 2"
definition SUBNETWORK_ID_AI_REQUEST :: SubnetworkId where
  "SUBNETWORK_ID_AI_REQUEST = SubnetworkId_from_byte 3"
definition SUBNETWORK_ID_AI_RESPONSE :: SubnetworkId where
  "SUBNETWORK_ID_AI_RESPONSE = SubnetworkId_from_byte 4"
definition SUBNETWORK_ID_AI_CHALLENGE :: SubnetworkId where
  "SUBNETWORK_ID_AI_CHALLENGE = SubnetworkId_from_byte 5"

definition is_builtin :: "SubnetworkId \<Rightarrow> bool" where
  "is_builtin s = (s = SUBNETWORK_ID_COINBASE \<or> s = SUBNETWORK_ID_REGISTRY
     \<or> s = SUBNETWORK_ID_AI_REQUEST \<or> s = SUBNETWORK_ID_AI_RESPONSE
     \<or> s = SUBNETWORK_ID_AI_CHALLENGE)"

definition is_ai :: "SubnetworkId \<Rightarrow> bool" where
  "is_ai s = (s = SUBNETWORK_ID_AI_REQUEST \<or> s = SUBNETWORK_ID_AI_RESPONSE
     \<or> s = SUBNETWORK_ID_AI_CHALLENGE)"

definition is_native :: "SubnetworkId \<Rightarrow> bool" where
  "is_native s = (s = SUBNETWORK_ID_NATIVE)"

definition is_builtin_or_native :: "SubnetworkId \<Rightarrow> bool" where
  "is_builtin_or_native s = (is_native s \<or> is_builtin s)"

lemmas subnetwork_ids =
  SUBNETWORK_ID_NATIVE_def SUBNETWORK_ID_COINBASE_def SUBNETWORK_ID_REGISTRY_def
  SUBNETWORK_ID_AI_REQUEST_def SUBNETWORK_ID_AI_RESPONSE_def SUBNETWORK_ID_AI_CHALLENGE_def

lemma SubnetworkId_from_byte_inject [simp]:
  "SubnetworkId_from_byte a = SubnetworkId_from_byte b \<longleftrightarrow> a = b"
  by (simp add: SubnetworkId_from_byte_def SUBNETWORK_ID_SIZE_def numeral_eq_Suc)

section \<open>Transactions\<close>

record TransactionInput =
  previous_outpoint :: TransactionOutpoint
  signature_script :: "u8 list"
  input_sequence :: u64
  sig_op_count :: u8

record TransactionOutput =
  out_value :: u64
  out_spk :: ScriptPublicKey

definition TransactionOutput_new :: "u64 \<Rightarrow> ScriptPublicKey \<Rightarrow> TransactionOutput" where
  "TransactionOutput_new v spk = \<lparr>out_value = v, out_spk = spk\<rparr>"

record Transaction =
  tx_version :: u16
  tx_inputs :: "TransactionInput list"
  tx_outputs :: "TransactionOutput list"
  lock_time :: u64
  subnetwork_id :: SubnetworkId
  tx_gas :: u64
  tx_payload :: "u8 list"
  tx_mass :: u64
  tx_id :: hash

definition is_coinbase :: "Transaction \<Rightarrow> bool" where
  "is_coinbase tx = (subnetwork_id tx = SUBNETWORK_ID_COINBASE)"

definition is_ai_request :: "Transaction \<Rightarrow> bool" where
  "is_ai_request tx = (subnetwork_id tx = SUBNETWORK_ID_AI_REQUEST)"

definition is_ai_response :: "Transaction \<Rightarrow> bool" where
  "is_ai_response tx = (subnetwork_id tx = SUBNETWORK_ID_AI_RESPONSE)"

definition is_ai_challenge :: "Transaction \<Rightarrow> bool" where
  "is_ai_challenge tx = (subnetwork_id tx = SUBNETWORK_ID_AI_CHALLENGE)"

text \<open>
  A populated transaction and its input iterator: reading the entry of an input that has none is
  an out-of-range index, which panics.
\<close>

record PopulatedTransaction =
  ptx :: Transaction
  entries :: "UtxoEntry list"

definition PopulatedTransaction_new ::
    "Transaction \<Rightarrow> UtxoEntry list \<Rightarrow> PopulatedTransaction option" where
  "PopulatedTransaction_new tx es =
     (if length (tx_inputs tx) = length es then Some \<lparr>ptx = tx, entries = es\<rparr> else None)"

definition populated_inputs ::
    "PopulatedTransaction \<Rightarrow> (TransactionInput \<times> UtxoEntry) list option" where
  "populated_inputs p =
     (if length (tx_inputs (ptx p)) \<le> length (entries p)
      then Some (zip (tx_inputs (ptx p)) (entries p)) else None)"

end
