(* ===== verification/Coin_Age.thy ===== *)
theory Coin_Age
  imports Tx_Model
begin

text \<open>
  The coin-age arithmetic of \<^verbatim>\<open>src/consensus/core/src/coin_age.rs\<close>: the FIFO rule that decides the
  age anchor (\<open>effective_daa\<close>) of a transaction's outputs, and the effective balance of a script
  from its three bucket aggregates.  The FIFO loop is compared with a specification that treats an
  amount as that many single units, oldest first.
\<close>

section \<open>The FIFO rule\<close>

text \<open>The loop of \<open>fifo_survivor_anchor\<close>: the value still to consume and the surviving mass.\<close>

fun fifo_consume :: "(u64 \<times> u64) list \<Rightarrow> u64 \<Rightarrow> u128 \<Rightarrow> u128 option" where
  "fifo_consume [] spent_v mass = Some mass"
| "fifo_consume ((v, anchor) # rest) spent_v mass =
     (let consumed = min spent_v v;
          surviving = v - consumed
      in do {
        product \<leftarrow> checked_mul (ucast surviving) (ucast anchor :: u128);
        mass' \<leftarrow> checked_add mass product;
        fifo_consume rest (spent_v - consumed) mass'
      })"

definition fifo_survivor_anchor :: "(u64 \<times> u64) list \<Rightarrow> u64 \<Rightarrow> u64 \<Rightarrow> u64 option" where
  "fifo_survivor_anchor grp out_v current_daa = do {
     in_v \<leftarrow> checked_sum (map fst grp);
     if in_v = 0 then Some current_daa
     else do {
       survivor_mass \<leftarrow> fifo_consume (sort_key snd grp) (saturating_sub in_v out_v) 0;
       let preserved = min in_v out_v;
       new_mass \<leftarrow> checked_mul (ucast (out_v - preserved)) (ucast current_daa :: u128);
       total_mass \<leftarrow> checked_add survivor_mass new_mass;
       anchor \<leftarrow> checked_div total_mass (ucast out_v);
       Some (ucast anchor)
     }
   }"

text \<open>Grouping of the inputs, and of the output values, by script.\<close>

definition group_input ::
    "ScriptPublicKey \<times> u64 \<times> u64 \<Rightarrow> (ScriptPublicKey, (u64 \<times> u64) list) hmap
       \<Rightarrow> (ScriptPublicKey, (u64 \<times> u64) list) hmap" where
  "group_input = (\<lambda>(spk, p) m.
     hm_insert spk ((case hm_get m spk of None \<Rightarrow> [] | Some g \<Rightarrow> g) @ [p]) m)"

definition group_inputs ::
    "(ScriptPublicKey \<times> u64 \<times> u64) list \<Rightarrow> (ScriptPublicKey, (u64 \<times> u64) list) hmap" where
  "group_inputs inputs = fold group_input inputs []"

definition total_output ::
    "(ScriptPublicKey, u64) hmap \<Rightarrow> ScriptPublicKey \<times> u64 \<Rightarrow> (ScriptPublicKey, u64) hmap option" where
  "total_output = (\<lambda>m (spk, amt). do {
     s \<leftarrow> checked_add (case hm_get m spk of None \<Rightarrow> 0 | Some s \<Rightarrow> s) amt;
     Some (hm_insert spk s m)
   })"

definition total_outputs ::
    "(ScriptPublicKey \<times> u64) list \<Rightarrow> (ScriptPublicKey, u64) hmap option" where
  "total_outputs outs = foldM total_output [] outs"

definition resolve_anchor ::
    "(ScriptPublicKey, (u64 \<times> u64) list) hmap \<Rightarrow> u64 \<Rightarrow> (ScriptPublicKey, u64) hmap
       \<Rightarrow> ScriptPublicKey \<times> u64 \<Rightarrow> (ScriptPublicKey, u64) hmap option" where
  "resolve_anchor by_spk current_daa = (\<lambda>m (spk, total_out). do {
     anchor \<leftarrow> (case hm_get by_spk spk of
                  None \<Rightarrow> Some current_daa
                | Some g \<Rightarrow> fifo_survivor_anchor g total_out current_daa);
     Some (hm_insert spk anchor m)
   })"

definition resolve_anchors ::
    "(ScriptPublicKey, (u64 \<times> u64) list) hmap \<Rightarrow> u64 \<Rightarrow> (ScriptPublicKey, u64) hmap
       \<Rightarrow> (ScriptPublicKey, u64) hmap option" where
  "resolve_anchors by_spk current_daa out_v = foldM (resolve_anchor by_spk current_daa) [] out_v"

text \<open>Indexing a \<open>HashMap\<close> with a key it does not hold panics.\<close>

fun lookup_all :: "('k, 'v) hmap \<Rightarrow> 'k list \<Rightarrow> 'v list option" where
  "lookup_all m [] = Some []"
| "lookup_all m (k # ks) = do { v \<leftarrow> hm_get m k; vs \<leftarrow> lookup_all m ks; Some (v # vs) }"

definition assign_output_effective_daa ::
    "(ScriptPublicKey \<times> u64 \<times> u64) list \<Rightarrow> (ScriptPublicKey \<times> u64) list \<Rightarrow> u64
       \<Rightarrow> u64 list option" where
  "assign_output_effective_daa inputs outs current_daa = do {
     out_v \<leftarrow> total_outputs outs;
     anchors \<leftarrow> resolve_anchors (group_inputs inputs) current_daa out_v;
     lookup_all anchors (map fst outs)
   }"

definition eff_balance_from_buckets ::
    "u64 \<Rightarrow> u64 \<Rightarrow> u128 \<Rightarrow> u64 \<Rightarrow> u64 \<Rightarrow> u64 option" where
  "eff_balance_from_buckets b_mat b_imm a_imm current_daa w = do {
     face \<leftarrow> checked_mul (ucast current_daa) (ucast b_imm :: u128);
     let ramp_mass = saturating_sub face a_imm;
     q \<leftarrow> checked_div ramp_mass (ucast (max w 1));
     let immature = (ucast (min q (ucast b_imm)) :: u64);
     Some (saturating_add b_mat immature)
   }"

section \<open>The rule against its specification\<close>

lemma unat_ucast_128 [simp]: "unat (ucast (x :: u64) :: u128) = unat x"
proof -
  have "unat x < 2 ^ 64" using unat_lt [of x] by simp
  then show ?thesis by (simp add: unsigned_ucast_eq take_bit_nat_eq_self_iff take_bit_eq_mod)
qed

definition fifo_units :: "(u64 \<times> u64) list \<Rightarrow> nat list" where
  "fifo_units grp = concat (map (\<lambda>(v, a). replicate (unat v) (unat a)) grp)"

lemma fifo_units_simps [simp]:
  "fifo_units [] = []"
  "fifo_units ((v, a) # grp) = replicate (unat v) (unat a) @ fifo_units grp"
  by (simp_all add: fifo_units_def)

lemma length_fifo_units: "length (fifo_units grp) = sum_list (map (unat \<circ> fst) grp)"
  by (induction grp) auto

lemma fifo_consume_eq:
  assumes "unat mass + sum_list (drop (unat spent_v) (fifo_units grp)) < 2 ^ 128"
  shows "\<exists>r. fifo_consume grp spent_v mass = Some r
           \<and> unat r = unat mass + sum_list (drop (unat spent_v) (fifo_units grp))"
  using assms
proof (induction grp arbitrary: spent_v mass)
  case Nil
  then show ?case by simp
next
  case (Cons p grp)
  obtain v a where p: "p = (v, a)" by (cases p)
  define c where "c = min spent_v v"
  have c: "unat c = min (unat spent_v) (unat v)"
    by (simp add: c_def min_def word_le_nat_alt)
  have surv: "unat (v - c) = unat v - unat spent_v"
    using c by (simp add: unat_sub word_le_nat_alt min_def)
  have rest: "unat (spent_v - c) = unat spent_v - unat v"
    using c by (simp add: unat_sub word_le_nat_alt min_def)
  let ?tail = "sum_list (drop (unat spent_v - unat v) (fifo_units grp))"
  have split: "sum_list (drop (unat spent_v) (fifo_units (p # grp)))
      = (unat v - unat spent_v) * unat a + ?tail"
    by (simp add: p sum_list_replicate)
  have bound: "unat mass + (unat v - unat spent_v) * unat a + ?tail < 2 ^ 128"
    using Cons.prems split by simp
  obtain prod where prod: "checked_mul (ucast (v - c)) (ucast a :: u128) = Some prod"
      "unat prod = (unat v - unat spent_v) * unat a"
    using bound surv by (cases "checked_mul (ucast (v - c)) (ucast a :: u128)")
      (auto simp: rust_arith)
  obtain mass' where mass': "checked_add mass prod = Some mass'"
      "unat mass' = unat mass + (unat v - unat spent_v) * unat a"
    using bound prod(2) by (cases "checked_add mass prod") (auto simp: rust_arith)
  have "unat mass' + sum_list (drop (unat (spent_v - c)) (fifo_units grp)) < 2 ^ 128"
    using bound mass'(2) rest by simp
  from Cons.IH [OF this] obtain r where "fifo_consume grp (spent_v - c) mass' = Some r"
      "unat r = unat mass' + sum_list (drop (unat (spent_v - c)) (fifo_units grp))"
    by blast
  then show ?case
    using prod(1) mass' rest split by (simp add: p Let_def c_def [symmetric])
qed

lemma sum_list_drop_units_le:
  "sum_list (drop k (fifo_units grp)) \<le> (length (fifo_units grp) - k) * (2 ^ 64 - 1)"
proof -
  have "\<forall>x\<in>set (fifo_units grp). x \<le> 2 ^ 64 - 1"
  proof
    fix x assume "x \<in> set (fifo_units grp)"
    then obtain v a where "x = unat (a :: u64)" by (auto simp: fifo_units_def)
    then show "x \<le> 2 ^ 64 - 1" using unat_lt [of a] by simp
  qed
  then have "\<forall>x\<in>set (drop k (fifo_units grp)). x \<le> 2 ^ 64 - 1"
    by (meson in_set_dropD)
  then have "sum_list (drop k (fifo_units grp))
      \<le> length (drop k (fifo_units grp)) * (2 ^ 64 - 1)"
    using sum_list_mono [of "drop k (fifo_units grp)" "\<lambda>x. x" "\<lambda>_. 2 ^ 64 - 1"]
    by (simp add: sum_list_triv)
  then show ?thesis by simp
qed

text \<open>The specification of the rule on natural numbers.\<close>

definition fifo_spec :: "(u64 \<times> u64) list \<Rightarrow> nat \<Rightarrow> nat \<Rightarrow> nat" where
  "fifo_spec grp out_v current_daa =
     (let units = fifo_units (sort_key snd grp); in_v = length units
      in if in_v = 0 then current_daa
         else (sum_list (drop (in_v - out_v) units) + (out_v - in_v) * current_daa) div out_v)"

lemma length_units_sort: "length (fifo_units (sort_key snd grp)) = sum_list (map (unat \<circ> fst) grp)"
proof -
  have "mset (map (unat \<circ> fst) (sort_key snd grp)) = mset (map (unat \<circ> fst) grp)" by simp
  then show ?thesis
    unfolding length_fifo_units by (metis sum_mset_sum_list)
qed

lemma fifo_survivor_anchor_eq:
  assumes sum: "sum_list (map (unat \<circ> fst) grp) < 2 ^ 64" and out: "0 < unat out_v"
  shows "\<exists>r. fifo_survivor_anchor grp out_v d = Some r \<and> unat r = fifo_spec grp (unat out_v) (unat d)"
proof -
  define units where "units = fifo_units (sort_key snd grp)"
  have len: "length units = sum_list (map (unat \<circ> fst) grp)"
    by (simp add: units_def length_units_sort)
  obtain in_v where in_v: "checked_sum (map fst grp) = Some in_v" "unat in_v = length units"
    using checked_sum_Some_ex [of "map fst grp"] sum len
    by (auto simp: unat_of_nat)
  show ?thesis
  proof (cases "in_v = 0")
    case True
    then show ?thesis using in_v by (simp add: fifo_survivor_anchor_def fifo_spec_def Let_def units_def)
  next
    case False
    then have pos: "0 < length units" using in_v(2) by (simp add: unat_gt_0 flip: in_v(2))
    let ?k = "length units - unat out_v"
    let ?new = "unat out_v - length units"
    have k: "unat (saturating_sub in_v out_v) = ?k" by (simp add: rust_arith in_v(2))
    have mass_le: "sum_list (drop ?k units) \<le> (length units - ?k) * (2 ^ 64 - 1)"
      unfolding units_def by (rule sum_list_drop_units_le)
    have new: "unat (out_v - min in_v out_v) = ?new"
      using in_v(2) by (auto simp: min_def unat_sub word_le_nat_alt)
    have d: "unat d \<le> 2 ^ 64 - 1" and o: "unat out_v \<le> 2 ^ 64 - 1"
      using unat_lt [of d] unat_lt [of out_v] by simp_all
    have "sum_list (drop ?k units) + ?new * unat d
        \<le> (length units - ?k) * (2 ^ 64 - 1) + ?new * (2 ^ 64 - 1)"
      using mass_le d by (intro add_mono mult_le_mono) auto
    also have "\<dots> = unat out_v * (2 ^ 64 - 1)"
      by (simp add: add_mult_distrib [symmetric] del: One_nat_def)
    finally have total: "sum_list (drop ?k units) + ?new * unat d \<le> unat out_v * (2 ^ 64 - 1)" .
    also have "\<dots> \<le> (2 ^ 64 - 1) * (2 ^ 64 - 1)" using o by (intro mult_le_mono) auto
    finally have lim: "sum_list (drop ?k units) + ?new * unat d < 2 ^ 128" by simp
    obtain m where m: "fifo_consume (sort_key snd grp) (saturating_sub in_v out_v) 0 = Some m"
        "unat m = sum_list (drop ?k units)"
      using fifo_consume_eq [of 0 "saturating_sub in_v out_v" "sort_key snd grp"] lim
      by (auto simp: k units_def)
    obtain n where n: "checked_mul (ucast (out_v - min in_v out_v)) (ucast d :: u128) = Some n"
        "unat n = ?new * unat d"
      using lim new
      by (cases "checked_mul (ucast (out_v - min in_v out_v)) (ucast d :: u128)")
        (auto simp: rust_arith)
    obtain t where t: "checked_add m n = Some t" "unat t = sum_list (drop ?k units) + ?new * unat d"
      using lim m(2) n(2) by (cases "checked_add m n") (auto simp: rust_arith)
    have nz: "(ucast out_v :: u128) \<noteq> 0" using out by (metis unat_0 unat_ucast_128 less_irrefl)
    have q: "unat (t div ucast out_v) = unat t div unat out_v" by (simp add: unat_div)
    have "unat t div unat out_v \<le> 2 ^ 64 - 1"
      using total t(2) out by (metis div_le_mono nonzero_mult_div_cancel_left less_not_refl2)
    then have "unat (ucast (t div ucast out_v) :: u64) = unat t div unat out_v"
      using q by (simp add: unsigned_ucast_eq take_bit_eq_mod)
    then show ?thesis
      using False in_v m n t nz pos
      by (simp add: fifo_survivor_anchor_def checked_div_def fifo_spec_def Let_def flip: units_def)
  qed
qed
section \<open>What the rule promises\<close>

lemma sum_list_le_const: "(\<And>x. x \<in> set xs \<Longrightarrow> x \<le> (c :: nat)) \<Longrightarrow> sum_list xs \<le> length xs * c"
  by (induction xs) (auto intro: add_mono)

lemma set_fifo_units: "x \<in> set (fifo_units grp) \<Longrightarrow> \<exists>v a. (v, a) \<in> set grp \<and> x = unat a"
  by (auto simp: fifo_units_def)

text \<open>If no anchor of the group lies in the future, neither does the surviving one.\<close>

lemma fifo_spec_le:
  assumes "0 < out_v" and "\<And>v a. (v, a) \<in> set grp \<Longrightarrow> unat a \<le> d"
  shows "fifo_spec grp out_v d \<le> d"
proof -
  define units where "units = fifo_units (sort_key snd grp)"
  let ?n = "length units"
  have "x \<le> d" if "x \<in> set (drop (?n - out_v) units)" for x
  proof -
    have "x \<in> set (fifo_units (sort_key snd grp))"
      using that in_set_dropD unfolding units_def by fast
    from set_fifo_units [OF this] show ?thesis using assms(2) by auto
  qed
  then have "sum_list (drop (?n - out_v) units) \<le> length (drop (?n - out_v) units) * d"
    by (rule sum_list_le_const)
  then have "sum_list (drop (?n - out_v) units) + (out_v - ?n) * d
      \<le> (?n - (?n - out_v)) * d + (out_v - ?n) * d" by simp
  also have "\<dots> = (?n - (?n - out_v) + (out_v - ?n)) * d" by (simp only: add_mult_distrib)
  also have "?n - (?n - out_v) + (out_v - ?n) = out_v" by arith
  finally have "(sum_list (drop (?n - out_v) units) + (out_v - ?n) * d) div out_v \<le> out_v * d div out_v"
    by (rule div_le_mono)
  then show ?thesis using assms(1) by (simp add: fifo_spec_def Let_def flip: units_def)
qed

text \<open>
  Among all ways of choosing which units survive, consuming the oldest first gives the largest
  sum of anchors, hence the youngest result.
\<close>

lemma sorted_drop_sum_max:
  assumes "sorted (xs :: nat list)" and "M \<subseteq># mset xs"
  shows "sum_mset M \<le> sum_list (drop (length xs - size M) xs)"
  using assms
proof (induction xs arbitrary: M)
  case Nil
  then show ?case by simp
next
  case (Cons x xs)
  show ?case
  proof (cases "M \<subseteq># mset xs")
    case True
    then have "size M \<le> length xs" using size_mset_mono by fastforce
    then have "drop (length (x # xs) - size M) (x # xs) = drop (length xs - size M) xs"
      by (simp add: Suc_diff_le)
    with Cons True show ?thesis by simp
  next
    case False
    have x: "x \<in># M"
    proof (rule ccontr)
      assume nx: "x \<notin># M"
      have "count M y \<le> count (mset xs) y" for y
        using mset_subset_eq_count [OF Cons.prems(2), of y] nx
        by (cases "y = x") (auto simp: not_in_iff)
      then show False using False by (simp add: subseteq_mset_def)
    qed
    define N where "N = M - {#x#}"
    have M: "M = add_mset x N" using x by (simp add: N_def)
    have N: "N \<subseteq># mset xs" using Cons.prems(2) M by simp
    have le: "size N \<le> length xs" using N size_mset_mono by fastforce
    have IH: "sum_mset N \<le> sum_list (drop (length xs - size N) xs)"
      using Cons N by simp
    show ?thesis
    proof (cases "size N = length xs")
      case True
      with IH M show ?thesis by simp
    next
      case False
      let ?j = "length xs - size M"
      have j: "length xs - size N = Suc ?j" "?j < length xs" using False le M by auto
      have "drop ?j xs = xs ! ?j # drop (Suc ?j) xs" using j(2) by (simp add: Cons_nth_drop_Suc)
      moreover have "x \<le> xs ! ?j" using Cons.prems(1) j(2) by simp
      moreover have "drop (length (x # xs) - size M) (x # xs) = drop ?j xs"
      proof -
        have "length (x # xs) - size M = Suc ?j" using False le M by simp
        then show ?thesis by simp
      qed
      ultimately show ?thesis using IH j(1) M by simp
    qed
  qed
qed

lemma sorted_fifo_units: "sorted (fifo_units (sort_key snd grp))"
proof -
  have "sorted (map snd xs) \<Longrightarrow> sorted (fifo_units xs)" for xs :: "(u64 \<times> u64) list"
  proof (induction xs)
    case Nil
    then show ?case by simp
  next
    case (Cons p xs)
    obtain v a where p: "p = (v, a)" by (cases p)
    have "unat a \<le> y" if y: "y \<in> set (fifo_units xs)" for y
    proof -
      obtain w b where "(w, b) \<in> set xs" "y = unat b" using set_fifo_units [OF y] by blast
      then show ?thesis using Cons.prems p by (force simp: word_le_nat_alt)
    qed
    moreover have "sorted (replicate n x)" for n and x :: nat by (induction n) auto
    ultimately show ?case using Cons p by (auto simp: sorted_append)
  qed
  then show ?thesis by simp
qed

lemma mset_fifo_units_sort: "mset (fifo_units (sort_key snd grp)) = mset (fifo_units grp)"
proof -
  have "mset (fifo_units xs) = \<Sum>\<^sub># (image_mset (\<lambda>(v, a). replicate_mset (unat v) (unat a)) (mset xs))"
    for xs :: "(u64 \<times> u64) list"
    by (induction xs) auto
  then show ?thesis by simp
qed

lemma fifo_spec_max:
  assumes "M \<subseteq># mset (fifo_units grp)" and "size M = min (length (fifo_units grp)) out_v"
    and "fifo_units grp \<noteq> []"
  shows "(sum_mset M + (out_v - length (fifo_units grp)) * d) div out_v \<le> fifo_spec grp out_v d"
proof -
  define units where "units = fifo_units (sort_key snd grp)"
  have ms: "mset units = mset (fifo_units grp)" by (simp add: units_def mset_fifo_units_sort)
  then have len: "length units = length (fifo_units grp)" by (metis size_mset)
  have "sum_mset M \<le> sum_list (drop (length units - size M) units)"
    using sorted_drop_sum_max [of units M] assms(1) ms by (simp add: units_def sorted_fifo_units)
  moreover have "length units - size M = length units - out_v"
    using assms(2) len by simp
  ultimately have "(sum_mset M + (out_v - length units) * d) div out_v
      \<le> (sum_list (drop (length units - out_v) units) + (out_v - length units) * d) div out_v"
    by (intro div_le_mono) simp
  moreover have "units \<noteq> []" using assms(3) len by auto
  ultimately show ?thesis by (simp add: fifo_spec_def Let_def len flip: units_def)
qed

section \<open>Assignment to the outputs of a transaction\<close>

definition inputs_of :: "(ScriptPublicKey \<times> u64 \<times> u64) list \<Rightarrow> ScriptPublicKey \<Rightarrow> (u64 \<times> u64) list" where
  "inputs_of inputs spk = map snd (filter (\<lambda>p. fst p = spk) inputs)"

definition outputs_to :: "(ScriptPublicKey \<times> u64) list \<Rightarrow> ScriptPublicKey \<Rightarrow> nat" where
  "outputs_to outs spk = sum_list (map (unat \<circ> snd) (filter (\<lambda>p. fst p = spk) outs))"

definition anchor_spec ::
    "(ScriptPublicKey \<times> u64 \<times> u64) list \<Rightarrow> (ScriptPublicKey \<times> u64) list \<Rightarrow> nat
       \<Rightarrow> ScriptPublicKey \<Rightarrow> nat" where
  "anchor_spec inputs outs current_daa spk =
     (if inputs_of inputs spk = [] then current_daa
      else fifo_spec (inputs_of inputs spk) (outputs_to outs spk) current_daa)"

lemma inputs_of_Cons: "inputs_of ((s, p) # inputs) spk = (if s = spk then [p] else []) @ inputs_of inputs spk"
  by (simp add: inputs_of_def)

lemma group_inputs_get:
  "hm_get (group_inputs inputs) spk
     = (if inputs_of inputs spk = [] then None else Some (inputs_of inputs spk))"
proof -
  have "hm_get (fold group_input inputs m) spk =
      (if inputs_of inputs spk = [] then hm_get m spk
       else Some ((case hm_get m spk of None \<Rightarrow> [] | Some g \<Rightarrow> g) @ inputs_of inputs spk))" for m
  proof (induction inputs arbitrary: m)
    case Nil
    then show ?case by (simp add: inputs_of_def)
  next
    case (Cons x inputs)
    obtain s p where x: "x = (s, p)" by (cases x)
    have "hm_get (group_input x m) = (hm_get m)(s \<mapsto> (case hm_get m s of None \<Rightarrow> [] | Some g \<Rightarrow> g) @ [p])"
      by (simp add: group_input_def x update_conv')
    then show ?case using Cons [of "group_input x m"] by (auto simp: x inputs_of_Cons)
  qed
  from this [of "[]"] show ?thesis by (simp add: group_inputs_def)
qed

lemma total_outputs_get:
  assumes "sum_list (map (unat \<circ> snd) outs) < 2 ^ 64"
  shows "\<exists>m. total_outputs outs = Some m \<and> hm_wf m
     \<and> (\<forall>spk. spk \<in> fst ` set outs \<longrightarrow> (\<exists>s. hm_get m spk = Some s \<and> unat s = outputs_to outs spk))
     \<and> dom (hm_get m) = fst ` set outs"
proof -
  define val where "val = (\<lambda>m (spk :: ScriptPublicKey). case hm_get m spk of None \<Rightarrow> 0 | Some (s :: u64) \<Rightarrow> unat s)"
  have run: "\<exists>m'. foldM total_output m outs = Some m' \<and> hm_wf m' \<and> dom (hm_get m') = dom (hm_get m) \<union> fst ` set outs
      \<and> (\<forall>spk. val m' spk = val m spk + outputs_to outs spk)"
    if "hm_wf m" "\<forall>spk. val m spk + outputs_to outs spk < 2 ^ 64" for m
    using that
  proof (induction outs arbitrary: m)
    case Nil
    then show ?case by (simp add: outputs_to_def)
  next
    case (Cons x outs)
    obtain k a where x: "x = (k, a)" by (cases x)
    have out: "outputs_to ((k, a) # outs) spk = (if spk = k then unat a else 0) + outputs_to outs spk" for spk
      by (simp add: outputs_to_def)
    have "val m k + unat a < 2 ^ 64"
      using spec [OF Cons.prems(2), of k] by (simp add: x out)
    then obtain s where s: "checked_add (case hm_get m k of None \<Rightarrow> 0 | Some s \<Rightarrow> s) a = Some s"
        "unat s = val m k + unat a"
      by (cases "hm_get m k"; cases "checked_add (case hm_get m k of None \<Rightarrow> 0 | Some s \<Rightarrow> s) a")
        (auto simp: rust_arith val_def)
    let ?m = "hm_insert k s m"
    have st: "total_output m (k, a) = Some ?m" using s by (simp add: total_output_def x)
    have val: "val ?m spk = val m spk + (if spk = k then unat a else 0)" for spk
      using s(2) by (simp add: val_def update_conv')
    have "hm_wf ?m" using Cons.prems(1) by (rule hm.wf_insert)
    moreover have "\<forall>spk. val ?m spk + outputs_to outs spk < 2 ^ 64"
      using Cons.prems(2) by (simp add: x val out add.assoc)
    ultimately obtain m' where "foldM total_output ?m outs = Some m'" "hm_wf m'"
        "dom (hm_get m') = dom (hm_get ?m) \<union> fst ` set outs"
        "\<forall>spk. val m' spk = val ?m spk + outputs_to outs spk"
      using Cons.IH by blast
    then show ?case by (auto simp: st val out x update_conv')
  qed
  have lim: "outputs_to outs spk < 2 ^ 64" for spk
  proof -
    have "outputs_to outs spk \<le> sum_list (map (unat \<circ> snd) outs)"
      unfolding outputs_to_def by (induction outs) auto
    then show ?thesis using assms by simp
  qed
  have "val [] = (\<lambda>_. 0)" by (simp add: val_def)
  then obtain m where m: "foldM total_output [] outs = Some m" "hm_wf m" "dom (hm_get m) = fst ` set outs"
      "\<forall>spk. val m spk = outputs_to outs spk"
    using run [OF hm.wf_empty] lim by auto
  have "\<exists>s. hm_get m spk = Some s \<and> unat s = outputs_to outs spk" if mem: "spk \<in> fst ` set outs" for spk
  proof -
    obtain s where "hm_get m spk = Some s" using mem unfolding m(3) [symmetric] by blast
    then show ?thesis using spec [OF m(4), of spk] by (simp add: val_def)
  qed
  then show ?thesis using m by (auto simp: total_outputs_def)
qed

lemma lookup_all_eq:
  "\<forall>k\<in>set ks. hm_get m k = Some (f k) \<Longrightarrow> lookup_all m ks = Some (map f ks)"
  by (induction ks) auto

lemma resolve_anchors_get:
  assumes "hm_wf out_v"
    and "\<forall>(spk, t)\<in>set out_v. (case hm_get by_spk spk of None \<Rightarrow> Some d
            | Some g \<Rightarrow> fifo_survivor_anchor g t d) = Some (f spk)"
  shows "\<exists>m. resolve_anchors by_spk d out_v = Some m
     \<and> (\<forall>spk\<in>fst ` set out_v. hm_get m spk = Some (f spk))"
proof -
  have "\<exists>m. foldM (resolve_anchor by_spk d) m0 out_v = Some m
      \<and> (\<forall>spk. hm_get m spk = (if spk \<in> fst ` set out_v then Some (f spk) else hm_get m0 spk))" for m0
    using assms
  proof (induction out_v arbitrary: m0)
    case Nil
    then show ?case by simp
  next
    case (Cons x out_v)
    obtain k t where x: "x = (k, t)" by (cases x)
    have st: "resolve_anchor by_spk d m0 (k, t) = Some (hm_insert k (f k) m0)"
      using Cons.prems(2) by (auto simp: resolve_anchor_def x split: option.splits)
    have "hm_wf out_v" and k: "k \<notin> fst ` set out_v"
      using Cons.prems(1) by (auto simp: hm_wf_def x)
    moreover have "\<forall>(spk, t)\<in>set out_v. (case hm_get by_spk spk of None \<Rightarrow> Some d
            | Some g \<Rightarrow> fifo_survivor_anchor g t d) = Some (f spk)"
      using Cons.prems(2) by simp
    ultimately obtain m where "foldM (resolve_anchor by_spk d) (hm_insert k (f k) m0) out_v = Some m"
        "\<forall>spk. hm_get m spk = (if spk \<in> fst ` set out_v then Some (f spk)
                 else hm_get (hm_insert k (f k) m0) spk)"
      using Cons.IH by blast
    then show ?case using k by (auto simp: st x update_conv')
  qed
  from this [of "[]"] show ?thesis by (auto simp: resolve_anchors_def)
qed

lemma assign_output_effective_daa_spec:
  assumes ins: "sum_list (map (unat \<circ> fst \<circ> snd) inputs) < 2 ^ 64"
    and outs: "sum_list (map (unat \<circ> snd) outs) < 2 ^ 64"
    and pos: "\<forall>p\<in>set outs. 0 < unat (snd p)"
  shows "\<exists>as. assign_output_effective_daa inputs outs d = Some as
           \<and> map unat as = map (anchor_spec inputs outs (unat d) \<circ> fst) outs"
proof -
  obtain m where m: "total_outputs outs = Some m" "hm_wf m" "dom (hm_get m) = fst ` set outs"
      "\<And>spk. spk \<in> fst ` set outs \<Longrightarrow> \<exists>s. hm_get m spk = Some s \<and> unat s = outputs_to outs spk"
    using total_outputs_get [OF outs] by blast
  define f :: "ScriptPublicKey \<Rightarrow> u64" where "f = word_of_nat \<circ> anchor_spec inputs outs (unat d)"
  have key: "(case hm_get (group_inputs inputs) spk of None \<Rightarrow> Some d
        | Some g \<Rightarrow> fifo_survivor_anchor g t d) = Some (f spk)
      \<and> unat (f spk) = anchor_spec inputs outs (unat d) spk" if "(spk, t) \<in> set m" for spk t
  proof (cases "inputs_of inputs spk = []")
    case True
    then show ?thesis by (simp add: group_inputs_get anchor_spec_def f_def)
  next
    case False
    have gt: "hm_get m spk = Some t" using that m(2) by (simp add: hm_wf_def)
    then have "spk \<in> fst ` set outs" using m(3) by auto
    then obtain p where p: "p \<in> set outs" "fst p = spk" and t: "unat t = outputs_to outs spk"
      using m(4) gt by force
    have "unat (snd p) \<le> outputs_to outs spk"
      unfolding outputs_to_def using p by (intro member_le_sum_list) auto
    then have "0 < outputs_to outs spk" using p(1) pos by force
    have "sum_list (map (unat \<circ> fst) (inputs_of inputs spk)) \<le> sum_list (map (unat \<circ> fst \<circ> snd) inputs)"
      unfolding inputs_of_def by (induction inputs) auto
    then have "sum_list (map (unat \<circ> fst) (inputs_of inputs spk)) < 2 ^ 64" using ins by linarith
    from fifo_survivor_anchor_eq [OF this, of t d] t \<open>0 < outputs_to outs spk\<close>
    obtain r where "fifo_survivor_anchor (inputs_of inputs spk) t d = Some r"
        "unat r = anchor_spec inputs outs (unat d) spk"
      using False by (auto simp: anchor_spec_def)
    moreover from this have "f spk = r" by (simp add: f_def flip: \<open>unat r = _\<close>)
    ultimately show ?thesis using False by (simp add: group_inputs_get)
  qed
  then have "\<forall>(spk, t)\<in>set m. (case hm_get (group_inputs inputs) spk of None \<Rightarrow> Some d
        | Some g \<Rightarrow> fifo_survivor_anchor g t d) = Some (f spk)" by blast
  from resolve_anchors_get [OF m(2) this]
  obtain anchors where "resolve_anchors (group_inputs inputs) d m = Some anchors"
      "\<forall>spk\<in>fst ` set m. hm_get anchors spk = Some (f spk)"
    by blast
  moreover have "fst ` set m = fst ` set outs" using m(3) by (simp add: dom_map_of_conv_image_fst)
  ultimately have "assign_output_effective_daa inputs outs d = Some (map f (map fst outs))"
    using lookup_all_eq [of "map fst outs" anchors f] m(1)
    by (simp add: assign_output_effective_daa_def)
  moreover have "unat (f (fst p)) = anchor_spec inputs outs (unat d) (fst p)" if "p \<in> set outs" for p
  proof -
    have "fst p \<in> fst ` set m" using that \<open>fst ` set m = fst ` set outs\<close> by simp
    then obtain t where "(fst p, t) \<in> set m" by auto
    then show ?thesis using key by blast
  qed
  ultimately show ?thesis by simp
qed

text \<open>The bucket aggregates and the linear ramp.\<close>

lemma eff_balance_eq:
  "\<exists>r. eff_balance_from_buckets b_mat b_imm a_imm d w = Some r
     \<and> unat r = min (unat b_mat + min ((unat d * unat b_imm - unat a_imm) div max 1 (unat w)) (unat b_imm))
                  (2 ^ 64 - 1)"
proof -
  have "unat d * unat b_imm \<le> (2 ^ 64 - 1) * (2 ^ 64 - 1)"
    using unat_lt [of d] unat_lt [of b_imm] by (intro mult_le_mono) auto
  then obtain face where face: "checked_mul (ucast d) (ucast b_imm :: u128) = Some face"
      "unat face = unat d * unat b_imm"
    by (cases "checked_mul (ucast d) (ucast b_imm :: u128)") (auto simp: rust_arith)
  have w: "unat (max w 1) = max 1 (unat w)" by (simp add: max_def word_le_nat_alt)
  have nz: "(ucast (max w 1) :: u128) \<noteq> 0"
  proof
    assume "(ucast (max w 1) :: u128) = 0"
    then have "unat (ucast (max w 1) :: u128) = 0" by (simp only: unat_0)
    then show False using w by (simp only: unat_ucast_128)
  qed
  define q where "q = saturating_sub face a_imm div ucast (max w 1)"
  have q: "unat q = (unat d * unat b_imm - unat a_imm) div max 1 (unat w)"
    by (simp add: q_def unat_div rust_arith face(2) w)
  have "unat (min q (ucast b_imm)) = min (unat q) (unat b_imm)"
    by (simp add: min_def word_le_nat_alt)
  moreover have "unat b_imm < 2 ^ 64" using unat_lt [of b_imm] by simp
  ultimately have "unat (ucast (min q (ucast b_imm)) :: u64) = min (unat q) (unat b_imm)"
    by (simp add: unsigned_ucast_eq take_bit_eq_mod)
  then have val: "unat (saturating_add b_mat (ucast (min q (ucast b_imm))))
      = min (unat b_mat + min (unat q) (unat b_imm)) (2 ^ LENGTH(64) - 1)"
    by (simp only: unat_saturating_add)
  have run: "eff_balance_from_buckets b_mat b_imm a_imm d w
      = Some (saturating_add b_mat (ucast (min q (ucast b_imm))))"
    by (simp only: eff_balance_from_buckets_def face(1) checked_div_def nz if_False
        Option.bind.bind_lunit Let_def q_def)
  have "LENGTH(64) = 64" by simp
  then show ?thesis
    using val unfolding run q by (intro exI conjI [OF refl]) (simp only:)
qed

section \<open>Properties\<close>

lemmas coin_age_eval =
  assign_output_effective_daa_def total_outputs_def total_output_def resolve_anchors_def
  resolve_anchor_def group_inputs_def group_input_def fifo_survivor_anchor_def
  checked_add_def checked_mul_def checked_div_def saturating_sub_def Let_def min_def

abbreviation sample_spk :: "u8 \<Rightarrow> ScriptPublicKey" where
  "sample_spk b \<equiv> \<lparr>spk_version = 0, spk_script = [b]\<rparr>"

text \<open>C1: For a transaction whose input and output values each sum below 2^64 and whose outputs are
  positive, the anchor assignment returns (no overflow, no division by zero, no missing key), and it
  gives every output the anchor of the unit-by-unit FIFO specification of its script.\<close>

theorem assign_anchors_fifo:
  assumes "sum_list (map (unat \<circ> fst \<circ> snd) inputs) < 2 ^ 64"
    and "sum_list (map (unat \<circ> snd) outs) < 2 ^ 64"
    and "\<forall>p\<in>set outs. 0 < unat (snd p)"
  shows "\<exists>as. assign_output_effective_daa inputs outs d = Some as
           \<and> map unat as = map (anchor_spec inputs outs (unat d) \<circ> fst) outs"
  using assms by (rule assign_output_effective_daa_spec)

theorem assign_anchors_fifo_witness:
  "assign_output_effective_daa [(sample_spk 1, 2, 10), (sample_spk 1, 2, 90)]
     [(sample_spk 1, 3), (sample_spk 2, 1)] 1000 = Some [63, 1000]"
proof -
  have "\<exists>as. assign_output_effective_daa [(sample_spk 1, 2, 10), (sample_spk 1, 2, 90)]
       [(sample_spk 1, 3), (sample_spk 2, 1)] 1000 = Some as
     \<and> map unat as = map (anchor_spec [(sample_spk 1, 2, 10), (sample_spk 1, 2, 90)]
         [(sample_spk 1, 3), (sample_spk 2, 1)] (unat (1000 :: u64)) \<circ> fst) [(sample_spk 1, 3 :: u64), (sample_spk 2, 1)]"
    by (rule assign_anchors_fifo) simp_all
  moreover have "map (anchor_spec [(sample_spk 1, 2, 10), (sample_spk 1, 2, 90)]
         [(sample_spk 1, 3), (sample_spk 2, 1)] (unat (1000 :: u64)) \<circ> fst) [(sample_spk 1, 3 :: u64), (sample_spk 2, 1)]
       = map unat [63, 1000 :: u64]"
    by (simp add: anchor_spec_def inputs_of_def outputs_to_def fifo_spec_def Let_def
        numeral_2_eq_2 [symmetric] replicate_num)
  ultimately show ?thesis by (auto simp: word_unat_eq_iff)
qed

text \<open>If no spent input is anchored in the future, no output is: the age anchor never exceeds the
  current score, so an age \<open>current_daa - effective_daa\<close> never underflows.\<close>

theorem anchors_never_in_future:
  assumes "sum_list (map (unat \<circ> fst \<circ> snd) inputs) < 2 ^ 64"
    and "sum_list (map (unat \<circ> snd) outs) < 2 ^ 64"
    and "\<forall>p\<in>set outs. 0 < unat (snd p)"
    and anchors: "\<forall>p\<in>set inputs. snd (snd p) \<le> d"
    and run: "assign_output_effective_daa inputs outs d = Some as"
  shows "\<forall>a\<in>set as. a \<le> d"
proof
  fix a assume "a \<in> set as"
  have eq: "map unat as = map (anchor_spec inputs outs (unat d) \<circ> fst) outs"
    using assign_output_effective_daa_spec [OF assms(1-3), of d] run by simp
  have "unat a \<in> set (map unat as)" using \<open>a \<in> set as\<close> by simp
  then obtain p where p: "p \<in> set outs" "unat a = anchor_spec inputs outs (unat d) (fst p)"
    unfolding eq by auto
  have "unat (snd p) \<le> outputs_to outs (fst p)"
    unfolding outputs_to_def using p(1) by (intro member_le_sum_list) auto
  then have pos: "0 < outputs_to outs (fst p)" using assms(3) p(1) by force
  have "unat b \<le> unat d" if "(v, b) \<in> set (inputs_of inputs (fst p))" for v b
    using that anchors by (auto simp: inputs_of_def word_le_nat_alt)
  from fifo_spec_le [OF pos this] show "a \<le> d"
    using p(2) by (simp add: anchor_spec_def word_le_nat_alt split: if_splits)
qed

theorem anchors_never_in_future_witness:
  "assign_output_effective_daa [(sample_spk 1, 2, 10), (sample_spk 1, 2, 90)]
     [(sample_spk 1, 3), (sample_spk 2, 1)] 1000 = Some [63, 1000] \<and> (63 :: u64) \<le> 1000"
proof -
  have run: "assign_output_effective_daa [(sample_spk 1, 2, 10), (sample_spk 1, 2, 90)]
     [(sample_spk 1, 3), (sample_spk 2, 1)] 1000 = Some [63, 1000]" by (simp add: coin_age_eval)
  from anchors_never_in_future [OF _ _ _ _ run] run show ?thesis by simp
qed

text \<open>The surviving anchor is the youngest any choice of surviving units could give: consuming
  the oldest inputs first never leaves a holder with more age than another order would.\<close>

theorem fifo_is_youngest:
  assumes "sum_list (map (unat \<circ> fst) grp) < 2 ^ 64" and "0 < unat out_v"
    and "fifo_units grp \<noteq> []"
    and "M \<subseteq># mset (fifo_units grp)"
    and "size M = min (length (fifo_units grp)) (unat out_v)"
    and "fifo_survivor_anchor grp out_v d = Some r"
  shows "(sum_mset M + (unat out_v - length (fifo_units grp)) * unat d) div unat out_v \<le> unat r"
  using fifo_survivor_anchor_eq [OF assms(1,2), of d] fifo_spec_max [OF assms(4,5,3)] assms(6) by auto

theorem fifo_is_youngest_witness:
  "(sum_mset {#2, 2, 9#} + (3 - 4) * 10) div (3 :: nat) \<le> (6 :: nat)"
proof -
  have "(sum_mset {#2, 2, 9#} + (unat (3 :: u64) - length (fifo_units [(2, 9), (2, 2)])) * unat (10 :: u64))
      div unat (3 :: u64) \<le> unat (6 :: u64)"
  proof (rule fifo_is_youngest)
    have "{#2, 2, 9#} \<subseteq># {#9, 9, 2, 2 :: nat#}" by simp
    show "fifo_survivor_anchor [(2, 9), (2, 2)] 3 10 = Some 6" by (simp add: coin_age_eval)
    then show "{#2, 2, 9#} \<subseteq># mset (fifo_units [(2, 9), (2, 2)])" by (simp add: replicate_num add_mset_commute)
  qed (simp_all add: replicate_num)
  then show ?thesis by (simp add: replicate_num)
qed

text \<open>C8: On the aggregates of a list of immature coins (none older than the maturity window \<open>w\<close>) the
  effective balance is the mature balance plus the linear ramp \<open>v * age / w\<close> of the coins, floored
  once, and never exceeds the face value.\<close>

theorem eff_balance_is_linear_ramp:
  assumes coins: "\<forall>(v, a)\<in>set coins. a \<le> unat d \<and> unat d - a < unat w"
    and b_imm: "unat b_imm = sum_list (map fst coins)"
    and a_imm: "unat a_imm = sum_list (map (\<lambda>(v, a). v * a) coins)"
    and fits: "unat b_mat + unat b_imm < 2 ^ 64"
  shows "\<exists>r. eff_balance_from_buckets b_mat b_imm a_imm d w = Some r
     \<and> unat r = unat b_mat + sum_list (map (\<lambda>(v, a). v * (unat d - a)) coins) div max 1 (unat w)
     \<and> unat r \<le> unat b_mat + unat b_imm"
proof -
  let ?ramp = "sum_list (map (\<lambda>(v, a). v * (unat d - a)) coins)"
  have "unat d * sum_list (map fst coins) = ?ramp + sum_list (map (\<lambda>(v, a). v * a) coins)"
    using coins by (induction coins) (auto simp: algebra_simps diff_mult_distrib2)
  then have ramp: "unat d * unat b_imm - unat a_imm = ?ramp" by (simp add: b_imm a_imm)
  have "?ramp \<le> sum_list (map fst coins) * max 1 (unat w)"
    using coins
  proof (induction coins)
    case (Cons p coins)
    obtain v a where p: "p = (v, a)" by (cases p)
    then have "v * (unat d - a) \<le> v * max 1 (unat w)" using Cons.prems by (intro mult_le_mono) auto
    moreover have "sum_list (map (\<lambda>(v, a). v * (unat d - a)) coins)
        \<le> sum_list (map fst coins) * max 1 (unat w)"
      using Cons by simp
    ultimately show ?case unfolding p by (simp only: list.map sum_list.Cons fst_conv prod.case add_mult_distrib add_mono)
  qed simp
  from div_le_mono [OF this, of "max 1 (unat w)"]
  have le: "?ramp div max 1 (unat w) \<le> unat b_imm" by (simp add: b_imm)
  from eff_balance_eq [of b_mat b_imm a_imm d w]
  obtain r where r: "eff_balance_from_buckets b_mat b_imm a_imm d w = Some r"
      "unat r = min (unat b_mat + min (?ramp div max 1 (unat w)) (unat b_imm)) (2 ^ 64 - 1)"
    unfolding ramp by blast
  have "unat b_mat + ?ramp div max 1 (unat w) \<le> 2 ^ 64 - 1" using le fits by linarith
  then have "unat r = unat b_mat + ?ramp div max 1 (unat w)"
    using r(2) le by (simp only: min_absorb1)
  then show ?thesis using r(1) le by simp
qed

theorem eff_balance_is_linear_ramp_witness:
  "\<exists>r. eff_balance_from_buckets 7 30 2500 100 40 = Some r \<and> unat r = 19"
proof -
  have "\<exists>r. eff_balance_from_buckets 7 30 2500 100 40 = Some r
     \<and> unat r = unat (7 :: u64) + sum_list (map (\<lambda>(v, a). v * (unat (100 :: u64) - a)) [(10, 70), (20, 90)])
          div max 1 (unat (40 :: u64))
     \<and> unat r \<le> unat (7 :: u64) + unat (30 :: u64)"
    by (rule eff_balance_is_linear_ramp) simp_all
  then show ?thesis by auto
qed
end
