(* ===== verification/Utxo_Collection.thy ===== *)
theory Utxo_Collection
  imports Tx_Model
begin

text \<open>
  UTXO collections and their algebra, \<^verbatim>\<open>src/consensus/core/src/utxo/utxo_collection.rs\<close>.  A collection
  is a \<open>HashMap\<close> from outpoints to entries; every operation is characterised by the lookups of its
  result, which do not depend on the iteration order.
\<close>

type_synonym UtxoCollection = "(TransactionOutpoint, UtxoEntry) hmap"

section \<open>Operations\<close>

definition contains_with_daa_score :: "UtxoCollection \<Rightarrow> TransactionOutpoint \<Rightarrow> u64 \<Rightarrow> bool" where
  "contains_with_daa_score m outpoint daa =
     (case hm_get m outpoint of Some e \<Rightarrow> block_daa_score e = daa | None \<Rightarrow> False)"

definition contains_matching_entry :: "UtxoCollection \<Rightarrow> TransactionOutpoint \<Rightarrow> UtxoEntry \<Rightarrow> bool" where
  "contains_matching_entry m outpoint entry =
     (case hm_get m outpoint of
        Some existing \<Rightarrow> block_daa_score existing = block_daa_score entry
                        \<and> effective_daa existing = effective_daa entry
      | None \<Rightarrow> False)"

definition add_collection :: "UtxoCollection \<Rightarrow> UtxoCollection \<Rightarrow> UtxoCollection" where
  "add_collection self other = fold (\<lambda>(k, v). hm_insert k v) other self"

definition remove_collection :: "UtxoCollection \<Rightarrow> UtxoCollection \<Rightarrow> UtxoCollection" where
  "remove_collection self other = fold hm_remove (map fst other) self"

definition intersects :: "UtxoCollection \<Rightarrow> UtxoCollection \<Rightarrow> bool" where
  "intersects self other =
     (let (ks, m) = (if length self \<le> length other then (map fst self, other)
                     else (map fst other, self))
      in list_ex (hm_contains_key m) ks)"

definition intersects_with_rule ::
    "UtxoCollection \<Rightarrow> UtxoCollection \<Rightarrow> (TransactionOutpoint \<Rightarrow> UtxoEntry \<Rightarrow> UtxoEntry \<Rightarrow> bool)
       \<Rightarrow> TransactionOutpoint option" where
  "intersects_with_rule self other rule =
     (if length self \<le> length other
      then map_option fst
             (find (\<lambda>(k, v1). case hm_get other k of Some v2 \<Rightarrow> rule k v1 v2 | None \<Rightarrow> False) self)
      else map_option fst
             (find (\<lambda>(k, v2). case hm_get self k of Some v1 \<Rightarrow> rule k v1 v2 | None \<Rightarrow> False) other))"

text \<open>The four in-place set operations: each returns its two accumulators.\<close>

definition intersection_with_remainder_having_daa_score_in_place ::
    "UtxoCollection \<Rightarrow> UtxoCollection \<Rightarrow> UtxoCollection \<Rightarrow> UtxoCollection
       \<Rightarrow> UtxoCollection \<times> UtxoCollection" where
  "intersection_with_remainder_having_daa_score_in_place this other result remainder =
     fold (\<lambda>(outpoint, entry) (res, rem).
             if contains_with_daa_score other outpoint (block_daa_score entry)
             then (hm_insert outpoint entry res, rem)
             else (res, hm_insert outpoint entry rem))
       this (result, remainder)"

definition intersection_with_remainder_matching_entry_in_place ::
    "UtxoCollection \<Rightarrow> UtxoCollection \<Rightarrow> UtxoCollection \<Rightarrow> UtxoCollection
       \<Rightarrow> UtxoCollection \<times> UtxoCollection" where
  "intersection_with_remainder_matching_entry_in_place this other result remainder =
     fold (\<lambda>(outpoint, entry) (res, rem).
             if contains_matching_entry other outpoint entry
             then (hm_insert outpoint entry res, rem)
             else (res, hm_insert outpoint entry rem))
       this (result, remainder)"

definition subtraction_having_daa_score_in_place ::
    "UtxoCollection \<Rightarrow> UtxoCollection \<Rightarrow> UtxoCollection \<Rightarrow> UtxoCollection" where
  "subtraction_having_daa_score_in_place this other result =
     fold (\<lambda>(outpoint, entry) res.
             if \<not> contains_with_daa_score other outpoint (block_daa_score entry)
             then hm_insert outpoint entry res else res)
       this result"

definition subtraction_with_remainder_having_daa_score_in_place ::
    "UtxoCollection \<Rightarrow> UtxoCollection \<Rightarrow> UtxoCollection \<Rightarrow> UtxoCollection
       \<Rightarrow> UtxoCollection \<times> UtxoCollection" where
  "subtraction_with_remainder_having_daa_score_in_place this other result remainder =
     fold (\<lambda>(outpoint, entry) (res, rem).
             if \<not> contains_with_daa_score other outpoint (block_daa_score entry)
             then (hm_insert outpoint entry res, rem)
             else (res, hm_insert outpoint entry rem))
       this (result, remainder)"

section \<open>What the operations return\<close>

named_theorems utxo_get \<open>lookups in the results of the collection operations\<close>

lemma hm_wf_Nil [simp]: "hm_wf []"
  by (rule hm.wf_empty)

lemma get_add_collection [utxo_get]:
  assumes "hm_wf self" and "hm_wf other"
  shows "hm_get (add_collection self other) = hm_get self ++ hm_get other"
  using assms hm.get_insert_all [OF assms(1), of other]
  by (simp add: add_collection_def hm_wf_def map_of_rev_distinct)

lemma get_remove_collection [utxo_get]:
  "hm_wf self \<Longrightarrow> hm_get (remove_collection self other)
     = (\<lambda>k. if hm_get other k = None then hm_get self k else None)"
  by (auto simp: remove_collection_def hm.get_remove_all restrict_map_def fun_eq_iff
      map_of_eq_None_iff)

lemma wf_add_collection: "hm_wf self \<Longrightarrow> hm_wf (add_collection self other)"
  by (simp add: add_collection_def hm.wf_insert_all)

lemma wf_remove_collection: "hm_wf self \<Longrightarrow> hm_wf (remove_collection self other)"
  by (simp add: remove_collection_def hm.wf_remove_all)

lemma intersects_iff:
  "intersects self other \<longleftrightarrow> (\<exists>k. hm_get self k \<noteq> None \<and> hm_get other k \<noteq> None)"
proof -
  have key: "hm_get m k \<noteq> None \<longleftrightarrow> k \<in> set (map fst m)" for m :: UtxoCollection and k
    by (simp add: map_of_eq_None_iff)
  show ?thesis
    unfolding intersects_def hm_contains_key_def key list_ex_iff Let_def
    by (cases "length self \<le> length other") (simp_all only: if_True if_False prod.case, blast+)
qed

lemma intersects_with_rule_None:
  assumes "hm_wf self" and "hm_wf other"
  shows "intersects_with_rule self other rule = None \<longleftrightarrow>
    (\<forall>k v1 v2. hm_get self k = Some v1 \<longrightarrow> hm_get other k = Some v2 \<longrightarrow> \<not> rule k v1 v2)"
proof -
  have self: "(k, v) \<in> set self \<longleftrightarrow> hm_get self k = Some v" for k v
    using hm.mem_entries_iff [OF assms(1)] .
  have other: "(k, v) \<in> set other \<longleftrightarrow> hm_get other k = Some v" for k v
    using hm.mem_entries_iff [OF assms(2)] .
  show ?thesis
    by (auto simp: intersects_with_rule_def find_None_iff self other split: option.splits prod.splits)
qed

lemma intersects_with_rule_Some:
  assumes "hm_wf self" and "hm_wf other" and "intersects_with_rule self other rule = Some k"
  shows "\<exists>v1 v2. hm_get self k = Some v1 \<and> hm_get other k = Some v2 \<and> rule k v1 v2"
proof -
  have self: "(k, v) \<in> set self \<longleftrightarrow> hm_get self k = Some v" for k v
    using hm.mem_entries_iff [OF assms(1)] .
  have other: "(k, v) \<in> set other \<longleftrightarrow> hm_get other k = Some v" for k v
    using hm.mem_entries_iff [OF assms(2)] .
  show ?thesis
    using assms(3)
    by (fastforce simp: intersects_with_rule_def find_Some_iff
        self [symmetric] other [symmetric] in_set_conv_nth
        split: if_splits option.splits prod.splits)
qed

text \<open>
  The set operations, by lookups.  \<open>coin_in m k e\<close> is the identity of a coin (outpoint and creation
  score); \<open>entry_in m k e\<close> adds the age anchor.
\<close>

lemmas distribute_hm = hm.distribute [unfolded hm_wf_def [symmetric]]

lemma intersection_having_daa_score [utxo_get]:
  assumes "hm_wf this" and "hm_wf result" and "hm_wf remainder"
    and "intersection_with_remainder_having_daa_score_in_place this other result remainder = (res, rem)"
  shows "hm_wf res \<and> hm_wf rem
    \<and> hm_get res = (\<lambda>k. case hm_get this k of
         Some e \<Rightarrow> if contains_with_daa_score other k (block_daa_score e) then Some e else hm_get result k
       | None \<Rightarrow> hm_get result k)
    \<and> hm_get rem = (\<lambda>k. case hm_get this k of
         Some e \<Rightarrow> if contains_with_daa_score other k (block_daa_score e) then hm_get remainder k else Some e
       | None \<Rightarrow> hm_get remainder k)"
  using assms
  by (intro distribute_hm) (simp_all add: intersection_with_remainder_having_daa_score_in_place_def)

lemma intersection_matching_entry [utxo_get]:
  assumes "hm_wf this" and "hm_wf result" and "hm_wf remainder"
    and "intersection_with_remainder_matching_entry_in_place this other result remainder = (res, rem)"
  shows "hm_wf res \<and> hm_wf rem
    \<and> hm_get res = (\<lambda>k. case hm_get this k of
         Some e \<Rightarrow> if contains_matching_entry other k e then Some e else hm_get result k
       | None \<Rightarrow> hm_get result k)
    \<and> hm_get rem = (\<lambda>k. case hm_get this k of
         Some e \<Rightarrow> if contains_matching_entry other k e then hm_get remainder k else Some e
       | None \<Rightarrow> hm_get remainder k)"
  using assms
  by (intro distribute_hm) (simp_all add: intersection_with_remainder_matching_entry_in_place_def)

lemma subtraction_with_remainder_having_daa_score [utxo_get]:
  assumes "hm_wf this" and "hm_wf result" and "hm_wf remainder"
    and "subtraction_with_remainder_having_daa_score_in_place this other result remainder = (res, rem)"
  shows "hm_wf res \<and> hm_wf rem
    \<and> hm_get res = (\<lambda>k. case hm_get this k of
         Some e \<Rightarrow> if \<not> contains_with_daa_score other k (block_daa_score e) then Some e else hm_get result k
       | None \<Rightarrow> hm_get result k)
    \<and> hm_get rem = (\<lambda>k. case hm_get this k of
         Some e \<Rightarrow> if \<not> contains_with_daa_score other k (block_daa_score e) then hm_get remainder k else Some e
       | None \<Rightarrow> hm_get remainder k)"
  using assms
  by (intro distribute_hm) (simp_all add: subtraction_with_remainder_having_daa_score_in_place_def)

lemma subtraction_is_first_of_pair:
  "subtraction_having_daa_score_in_place this other result
     = fst (subtraction_with_remainder_having_daa_score_in_place this other result remainder)"
  unfolding subtraction_having_daa_score_in_place_def
    subtraction_with_remainder_having_daa_score_in_place_def
  by (induction this arbitrary: result remainder) (auto split: prod.splits)

lemma subtraction_having_daa_score [utxo_get]:
  assumes "hm_wf this" and "hm_wf result"
  shows "hm_wf (subtraction_having_daa_score_in_place this other result)
    \<and> hm_get (subtraction_having_daa_score_in_place this other result) = (\<lambda>k. case hm_get this k of
         Some e \<Rightarrow> if \<not> contains_with_daa_score other k (block_daa_score e) then Some e else hm_get result k
       | None \<Rightarrow> hm_get result k)"
proof -
  obtain res rem where p: "subtraction_with_remainder_having_daa_score_in_place this other result [] = (res, rem)"
    by fastforce
  then have "subtraction_having_daa_score_in_place this other result = res"
    by (simp add: subtraction_is_first_of_pair [where remainder = "[]"])
  then show ?thesis
    using subtraction_with_remainder_having_daa_score [OF assms hm_wf_Nil p] by simp
qed

end
