(* ===== verification/Utxo_Diff.thy ===== *)
theory Utxo_Diff
  imports Utxo_Collection Coin_Age
begin

text \<open>
  UTXO diffs and views, \<^verbatim>\<open>src/consensus/core/src/utxo/utxo_diff.rs\<close>, \<^verbatim>\<open>utxo_view.rs\<close> and
  \<^verbatim>\<open>utxo_error.rs\<close>.  The trait \<open>ImmutableUtxoDiff\<close> offers the two collections of a diff, so an
  \<open>impl ImmutableUtxoDiff\<close> is here the pair of them; \<open>as_reversed\<close> swaps the pair.  The virtual
  processor calls \<open>with_diff_in_place\<close> and \<open>add_transaction\<close> with \<open>unwrap()\<close>, so an error is a panic
  there: the lemmas below say when there is none.
\<close>

section \<open>Diffs\<close>

datatype UtxoAlgebraError =
    DuplicateRemovePoint TransactionOutpoint
  | DuplicateAddPoint TransactionOutpoint
  | DoubleRemoveCall TransactionOutpoint
  | DoubleAddCall TransactionOutpoint
  | DiffIntersectionPoint TransactionOutpoint string
  | General string

record UtxoDiff =
  diff_add :: UtxoCollection
  diff_remove :: UtxoCollection

definition UtxoDiff_new :: "UtxoCollection \<Rightarrow> UtxoCollection \<Rightarrow> UtxoDiff" where
  "UtxoDiff_new a r = \<lparr>diff_add = a, diff_remove = r\<rparr>"

definition UtxoDiff_default :: UtxoDiff where
  "UtxoDiff_default = \<lparr>diff_add = [], diff_remove = []\<rparr>"

definition as_reversed :: "UtxoDiff \<Rightarrow> UtxoDiff" where
  "as_reversed d = \<lparr>diff_add = diff_remove d, diff_remove = diff_add d\<rparr>"

definition to_reversed :: "UtxoDiff \<Rightarrow> UtxoDiff" where
  "to_reversed d = UtxoDiff_new (diff_remove d) (diff_add d)"

definition with_diff_in_place :: "UtxoDiff \<Rightarrow> UtxoDiff \<Rightarrow> UtxoAlgebraError + UtxoDiff" where
  "with_diff_in_place self other =
     (case intersects_with_rule (diff_remove other) (diff_remove self)
             (\<lambda>outpoint entry_to_add existing.
                \<not> contains_with_daa_score (diff_add self) outpoint (block_daa_score entry_to_add)) of
        Some offending \<Rightarrow> Inl (DuplicateRemovePoint offending)
      | None \<Rightarrow>
     (case intersects_with_rule (diff_add other) (diff_add self)
             (\<lambda>outpoint entry_to_add existing.
                \<not> contains_with_daa_score (diff_remove other) outpoint (block_daa_score existing)) of
        Some offending \<Rightarrow> Inl (DuplicateAddPoint offending)
      | None \<Rightarrow>
     (let (intersection, remove1) =
            intersection_with_remainder_having_daa_score_in_place
              (diff_remove other) (diff_add self) [] (diff_remove self);
          add1 = remove_collection (diff_add self) intersection;
          (intersection2, add2) =
            intersection_with_remainder_matching_entry_in_place
              (diff_add other) remove1 [] add1;
          remove2 = remove_collection remove1 intersection2
      in Inr \<lparr>diff_add = add2, diff_remove = remove2\<rparr>)))"

definition with_diff :: "UtxoDiff \<Rightarrow> UtxoDiff \<Rightarrow> UtxoAlgebraError + UtxoDiff" where
  "with_diff self other = with_diff_in_place self other"

definition diff_from :: "UtxoDiff \<Rightarrow> UtxoDiff \<Rightarrow> UtxoAlgebraError + UtxoDiff" where
  "diff_from self other =
     (case intersects_with_rule (diff_remove self) (diff_add other)
             (\<lambda>outpoint this_entry other_entry.
                \<not> (block_daa_score other_entry \<noteq> block_daa_score this_entry
                   \<and> (contains_with_daa_score (diff_add self) outpoint (block_daa_score other_entry)
                      \<or> contains_with_daa_score (diff_remove other) outpoint
                           (block_daa_score this_entry)))) of
        Some offending \<Rightarrow> Inl (DiffIntersectionPoint offending ''both in self.add and in other.remove'')
      | None \<Rightarrow>
     (case intersects_with_rule (diff_add self) (diff_remove other)
             (\<lambda>outpoint this_entry other_entry.
                \<not> (block_daa_score other_entry \<noteq> block_daa_score this_entry
                   \<and> (contains_with_daa_score (diff_remove self) outpoint (block_daa_score other_entry)
                      \<or> contains_with_daa_score (diff_add other) outpoint
                           (block_daa_score this_entry)))) of
        Some offending \<Rightarrow> Inl (DiffIntersectionPoint offending ''both in self.remove and in other.add'')
      | None \<Rightarrow>
     (case intersects_with_rule (diff_remove self) (diff_remove other)
             (\<lambda>outpoint this_entry other_entry.
                block_daa_score other_entry \<noteq> block_daa_score this_entry) of
        Some offending \<Rightarrow> Inl (DiffIntersectionPoint offending
          ''both in self.remove and other.remove with different DAA scores, with no corresponding entry in self.add'')
      | None \<Rightarrow>
     (let (result_remove, in_both_to_add) =
            subtraction_with_remainder_having_daa_score_in_place (diff_add self) (diff_add other) [] []
      in if intersects in_both_to_add (diff_remove self) \<noteq> intersects in_both_to_add (diff_remove other)
         then Inl (General
           ''diff_from: outpoint both in self.add, other.add, and only one of self.remove and other.remove'')
         else Inr
           \<lparr>diff_add =
              subtraction_having_daa_score_in_place (diff_add other) (diff_add self)
                (subtraction_having_daa_score_in_place (diff_remove self) (diff_remove other) []),
            diff_remove =
              subtraction_having_daa_score_in_place (diff_remove other) (diff_remove self)
                result_remove\<rparr>))))"

definition remove_entry ::
    "UtxoDiff \<Rightarrow> TransactionOutpoint \<Rightarrow> UtxoEntry \<Rightarrow> UtxoAlgebraError + UtxoDiff" where
  "remove_entry self outpoint entry =
     (if contains_with_daa_score (diff_add self) outpoint (block_daa_score entry)
      then Inr (self\<lparr>diff_add := hm_remove outpoint (diff_add self)\<rparr>)
      else if \<not> hm_contains_key (diff_remove self) outpoint
      then Inr (self\<lparr>diff_remove := hm_insert outpoint entry (diff_remove self)\<rparr>)
      else Inl (DoubleRemoveCall outpoint))"

definition add_entry ::
    "UtxoDiff \<Rightarrow> TransactionOutpoint \<Rightarrow> UtxoEntry \<Rightarrow> UtxoAlgebraError + UtxoDiff" where
  "add_entry self outpoint entry =
     (if contains_with_daa_score (diff_remove self) outpoint (block_daa_score entry)
      then Inr (self\<lparr>diff_remove := hm_remove outpoint (diff_remove self)\<rparr>)
      else if \<not> hm_contains_key (diff_add self) outpoint
      then Inr (self\<lparr>diff_add := hm_insert outpoint entry (diff_add self)\<rparr>)
      else Inl (DoubleAddCall outpoint))"

fun remove_entries ::
    "UtxoDiff \<Rightarrow> (TransactionOutpoint \<times> UtxoEntry) list \<Rightarrow> UtxoAlgebraError + UtxoDiff" where
  "remove_entries self [] = Inr self"
| "remove_entries self ((outpoint, entry) # rest) =
     res_bind (remove_entry self outpoint entry) (\<lambda>d. remove_entries d rest)"

fun add_entries ::
    "UtxoDiff \<Rightarrow> (TransactionOutpoint \<times> UtxoEntry) list \<Rightarrow> UtxoAlgebraError + UtxoDiff" where
  "add_entries self [] = Inr self"
| "add_entries self ((outpoint, entry) # rest) =
     res_bind (add_entry self outpoint entry) (\<lambda>d. add_entries d rest)"

text \<open>
  The entries a transaction creates.  With the coin-age era active each output takes the anchor of
  its position (\<open>anchors[i]\<close>, a panic out of range).
\<close>

fun output_entries ::
    "hash \<Rightarrow> bool \<Rightarrow> u64 \<Rightarrow> u64 list option \<Rightarrow> nat \<Rightarrow> TransactionOutput list
       \<Rightarrow> (TransactionOutpoint \<times> UtxoEntry) list option" where
  "output_entries txid cb daa anchors i [] = Some []"
| "output_entries txid cb daa anchors i (output # outs) = do {
     entry \<leftarrow> (case anchors of
        Some as \<Rightarrow> if i < length as
                   then Some (UtxoEntry_new_aged (out_value output) (out_spk output) daa cb (as ! i))
                   else None
      | None \<Rightarrow> Some (UtxoEntry_new (out_value output) (out_spk output) daa cb));
     rest \<leftarrow> output_entries txid cb daa anchors (Suc i) outs;
     Some ((TransactionOutpoint_new txid (word_of_nat i), entry) # rest)
   }"

definition add_transaction ::
    "UtxoDiff \<Rightarrow> PopulatedTransaction \<Rightarrow> u64 \<Rightarrow> bool \<Rightarrow> (UtxoAlgebraError + UtxoDiff) option" where
  "add_transaction self transaction daa coin_age_active = do {
     populated \<leftarrow> populated_inputs transaction;
     anchors \<leftarrow> (if coin_age_active
        then map_option Some (assign_output_effective_daa
               (map (\<lambda>(_, e). (entry_spk e, amount e, effective_daa e)) populated)
               (map (\<lambda>out. (out_spk out, out_value out)) (tx_outputs (ptx transaction)))
               daa)
        else Some None);
     case remove_entries self (map (\<lambda>(input, e). (previous_outpoint input, e)) populated) of
       Inl e \<Rightarrow> Some (Inl e)
     | Inr d \<Rightarrow> do {
         created \<leftarrow> output_entries (tx_id (ptx transaction)) (is_coinbase (ptx transaction)) daa anchors 0
            (tx_outputs (ptx transaction));
         Some (add_entries d created)
       }
   }"

section \<open>Views\<close>

type_synonym UtxoView = "TransactionOutpoint \<Rightarrow> UtxoEntry option"

definition compose :: "UtxoView \<Rightarrow> UtxoDiff \<Rightarrow> UtxoView" where
  "compose base diff outpoint =
     (case hm_get (diff_add diff) outpoint of
        Some entry \<Rightarrow> Some entry
      | None \<Rightarrow> if hm_contains_key (diff_remove diff) outpoint then None else base outpoint)"

section \<open>Composition of diffs\<close>

definition diff_wf :: "UtxoDiff \<Rightarrow> bool" where
  "diff_wf d \<longleftrightarrow> hm_wf (diff_add d) \<and> hm_wf (diff_remove d)"

text \<open>Two entries that agree on what the commitment and the store compare.\<close>

definition same_entry :: "UtxoEntry \<Rightarrow> UtxoEntry \<Rightarrow> bool" where
  "same_entry a b \<longleftrightarrow> block_daa_score a = block_daa_score b \<and> effective_daa a = effective_daa b"

text \<open>
  A diff applies to a view when it removes only what the view holds, and adds only where the view
  has nothing or where it removes as well.
\<close>

definition applies_to :: "UtxoView \<Rightarrow> UtxoDiff \<Rightarrow> bool" where
  "applies_to V d \<longleftrightarrow>
     (\<forall>k r. hm_get (diff_remove d) k = Some r \<longrightarrow> (\<exists>e. V k = Some e \<and> same_entry e r))
   \<and> (\<forall>k a. hm_get (diff_add d) k = Some a \<longrightarrow> V k = None \<or> hm_get (diff_remove d) k \<noteq> None)"

text \<open>
  An outpoint, a creation score and an anchor name one entry: re-adding the coin that the base view
  holds, with the anchor it has there, re-adds the same entry.
\<close>

definition names_coins :: "UtxoView \<Rightarrow> UtxoDiff \<Rightarrow> bool" where
  "names_coins V d \<longleftrightarrow>
     (\<forall>k a e. hm_get (diff_add d) k = Some a \<longrightarrow> V k = Some e \<longrightarrow> same_entry a e \<longrightarrow> a = e)"

lemma compose_eq:
  "compose V d k = (case hm_get (diff_add d) k of Some e \<Rightarrow> Some e
     | None \<Rightarrow> (case hm_get (diff_remove d) k of Some r \<Rightarrow> None | None \<Rightarrow> V k))"
  by (auto simp: compose_def hm_contains_key_def split: option.splits)

lemma applies_toD_remove:
  "applies_to V d \<Longrightarrow> hm_get (diff_remove d) k = Some r \<Longrightarrow> \<exists>e. V k = Some e \<and> same_entry e r"
  by (simp add: applies_to_def)

lemma applies_toD_add:
  "applies_to V d \<Longrightarrow> hm_get (diff_add d) k = Some a \<Longrightarrow> V k = None \<or> hm_get (diff_remove d) k \<noteq> None"
  unfolding applies_to_def by blast

lemma names_coinsD:
  "names_coins V d \<Longrightarrow> hm_get (diff_add d) k = Some a \<Longrightarrow> V k = Some e
     \<Longrightarrow> block_daa_score e = block_daa_score a \<Longrightarrow> effective_daa e = effective_daa a \<Longrightarrow> e = a"
  unfolding names_coins_def same_entry_def by metis

lemma with_diff_no_error:
  assumes wf: "diff_wf d1" "diff_wf d2" and app: "applies_to (compose V d1) d2"
  shows "intersects_with_rule (diff_remove d2) (diff_remove d1)
           (\<lambda>k e x. \<not> contains_with_daa_score (diff_add d1) k (block_daa_score e)) = None"
    and "intersects_with_rule (diff_add d2) (diff_add d1)
           (\<lambda>k x e. \<not> contains_with_daa_score (diff_remove d2) k (block_daa_score e)) = None"
proof -
  have w: "hm_wf (diff_add d1)" "hm_wf (diff_remove d1)" "hm_wf (diff_add d2)" "hm_wf (diff_remove d2)"
    using wf by (simp_all add: diff_wf_def)
  have "contains_with_daa_score (diff_add d1) k (block_daa_score e)"
    if r2: "hm_get (diff_remove d2) k = Some e" and r1: "hm_get (diff_remove d1) k = Some x" for k e x
  proof -
    obtain e' where "compose V d1 k = Some e'" "same_entry e' e"
      using applies_toD_remove [OF app r2] by blast
    then show ?thesis
      using r1 by (auto simp: compose_eq contains_with_daa_score_def same_entry_def split: option.splits)
  qed
  then show "intersects_with_rule (diff_remove d2) (diff_remove d1)
      (\<lambda>k e x. \<not> contains_with_daa_score (diff_add d1) k (block_daa_score e)) = None"
    unfolding intersects_with_rule_None [OF w(4,2)] by blast
  have "contains_with_daa_score (diff_remove d2) k (block_daa_score e)"
    if add2: "hm_get (diff_add d2) k = Some x" and add1: "hm_get (diff_add d1) k = Some e" for k e x
  proof -
    have c: "compose V d1 k = Some e" using add1 by (simp add: compose_eq)
    then obtain r where r: "hm_get (diff_remove d2) k = Some r"
      using applies_toD_add [OF app add2] by auto
    then show ?thesis
      using applies_toD_remove [OF app r] c by (auto simp: contains_with_daa_score_def same_entry_def)
  qed
  then show "intersects_with_rule (diff_add d2) (diff_add d1)
      (\<lambda>k x e. \<not> contains_with_daa_score (diff_remove d2) k (block_daa_score e)) = None"
    unfolding intersects_with_rule_None [OF w(3,1)] by blast
qed

text \<open>The lookups of a successful composition.\<close>

lemma with_diff_lookups:
  assumes wf: "diff_wf d1" "diff_wf d2" and ok: "with_diff_in_place d1 d2 = Inr d"
  shows "diff_wf d
    \<and> hm_get (diff_remove d) k =
        (let r = (case hm_get (diff_remove d2) k of
                    Some e \<Rightarrow> if contains_with_daa_score (diff_add d1) k (block_daa_score e)
                              then hm_get (diff_remove d1) k else Some e
                  | None \<Rightarrow> hm_get (diff_remove d1) k)
         in case hm_get (diff_add d2) k of
              Some a \<Rightarrow> (case r of Some e \<Rightarrow> if same_entry e a then None else r | None \<Rightarrow> None)
            | None \<Rightarrow> r)
    \<and> hm_get (diff_add d) k =
        (let r = (case hm_get (diff_remove d2) k of
                    Some e \<Rightarrow> if contains_with_daa_score (diff_add d1) k (block_daa_score e)
                              then hm_get (diff_remove d1) k else Some e
                  | None \<Rightarrow> hm_get (diff_remove d1) k);
             kept = (case hm_get (diff_remove d2) k of
                       Some e \<Rightarrow> if contains_with_daa_score (diff_add d1) k (block_daa_score e)
                                 then None else hm_get (diff_add d1) k
                     | None \<Rightarrow> hm_get (diff_add d1) k)
         in case hm_get (diff_add d2) k of
              Some a \<Rightarrow> (case r of Some e \<Rightarrow> if same_entry e a then kept else Some a | None \<Rightarrow> Some a)
            | None \<Rightarrow> kept)"
proof -
  obtain i1 r1 where s1: "intersection_with_remainder_having_daa_score_in_place
      (diff_remove d2) (diff_add d1) [] (diff_remove d1) = (i1, r1)" by fastforce
  define a1 where "a1 = remove_collection (diff_add d1) i1"
  obtain i2 a2 where s2: "intersection_with_remainder_matching_entry_in_place
      (diff_add d2) r1 [] a1 = (i2, a2)" by fastforce
  have d: "d = \<lparr>diff_add = a2, diff_remove = remove_collection r1 i2\<rparr>"
    using ok by (auto simp: with_diff_in_place_def s1 s2 a1_def [symmetric] split: option.splits)
  have w: "hm_wf (diff_add d1)" "hm_wf (diff_remove d1)" "hm_wf (diff_add d2)" "hm_wf (diff_remove d2)"
    using wf by (simp_all add: diff_wf_def)
  note g1 = intersection_having_daa_score [OF w(4) hm_wf_Nil w(2) s1]
  have wa1: "hm_wf a1" unfolding a1_def using w(1) by (rule wf_remove_collection)
  have ga1: "hm_get a1 = (\<lambda>k. if hm_get i1 k = None then hm_get (diff_add d1) k else None)"
    unfolding a1_def using w(1) by (rule get_remove_collection)
  note g2 = intersection_matching_entry [OF w(3) hm_wf_Nil wa1 s2]
  have gr2: "hm_get (remove_collection r1 i2) = (\<lambda>k. if hm_get i2 k = None then hm_get r1 k else None)"
    using g1 by (intro get_remove_collection) simp
  have wr2: "hm_wf (remove_collection r1 i2)" using g1 by (intro wf_remove_collection) simp
  have wfd: "diff_wf d" using g2 wr2 by (simp add: d diff_wf_def)
  have m: "contains_matching_entry r1 k a \<longleftrightarrow> (\<exists>e. hm_get r1 k = Some e \<and> same_entry e a)" for a
    by (auto simp: contains_matching_entry_def same_entry_def split: option.splits)
  show ?thesis
    using wfd g1 g2
    by (auto simp: d gr2 ga1 m Let_def split: option.splits)
qed

lemma with_diff_compose:
  assumes wf: "diff_wf d1" "diff_wf d2"
    and a1: "applies_to V d1" and a2: "applies_to (compose V d1) d2"
    and coins: "names_coins V d2"
  shows "\<exists>d. with_diff_in_place d1 d2 = Inr d \<and> diff_wf d \<and> applies_to V d
           \<and> compose V d = compose (compose V d1) d2"
proof -
  have "\<exists>d. with_diff_in_place d1 d2 = Inr d"
    by (simp add: with_diff_in_place_def with_diff_no_error [OF wf a2] Let_def split: prod.split)
  then obtain d where ok: "with_diff_in_place d1 d2 = Inr d" by blast
  note look = with_diff_lookups [OF wf ok]
  have "compose V d k = compose (compose V d1) d2 k" for k
    using look [of k] applies_toD_remove [OF a1, of k] applies_toD_add [OF a1, of k]
      applies_toD_remove [OF a2, of k] applies_toD_add [OF a2, of k]
      names_coinsD [OF coins, of k]
    unfolding compose_eq [of _ _ k] Let_def
    by (cases "hm_get (diff_add d2) k"; cases "hm_get (diff_remove d2) k";
        cases "hm_get (diff_add d1) k"; cases "hm_get (diff_remove d1) k")
      (auto simp: contains_with_daa_score_def same_entry_def split: if_splits)
  moreover have "(\<exists>e. V k = Some e \<and> same_entry e r)" if "hm_get (diff_remove d) k = Some r" for k r
    using that look [of k] applies_toD_remove [OF a1, of k] applies_toD_add [OF a1, of k]
      applies_toD_remove [OF a2, of k] applies_toD_add [OF a2, of k]
    unfolding compose_eq [of _ _ k] Let_def
    by (cases "hm_get (diff_add d2) k"; cases "hm_get (diff_remove d2) k";
        cases "hm_get (diff_add d1) k"; cases "hm_get (diff_remove d1) k")
      (auto simp: contains_with_daa_score_def same_entry_def split: if_splits)
  moreover have "V k = None \<or> hm_get (diff_remove d) k \<noteq> None" if "hm_get (diff_add d) k = Some a" for k a
    using that look [of k] applies_toD_remove [OF a1, of k] applies_toD_add [OF a1, of k]
      applies_toD_remove [OF a2, of k] applies_toD_add [OF a2, of k]
    unfolding compose_eq [of _ _ k] Let_def
    by (cases "hm_get (diff_add d2) k"; cases "hm_get (diff_remove d2) k";
        cases "hm_get (diff_add d1) k"; cases "hm_get (diff_remove d1) k")
      (auto simp: contains_with_daa_score_def same_entry_def split: if_splits)
  ultimately have "applies_to V d" and "compose V d = compose (compose V d1) d2"
    unfolding applies_to_def by blast+
  then show ?thesis using ok look by blast
qed
text \<open>A diff and its reverse annihilate, whatever they hold.\<close>

lemma hm_get_empty_iff: "hm_get m = Map.empty \<longleftrightarrow> m = []"
  by (cases m) (auto simp: fun_eq_iff)

lemma with_diff_reversed:
  assumes "diff_wf d"
  shows "with_diff_in_place d (as_reversed d) = Inr UtxoDiff_default"
proof -
  have wf: "diff_wf (as_reversed d)" using assms by (simp add: diff_wf_def as_reversed_def)
  have w: "hm_wf (diff_add d)" "hm_wf (diff_remove d)" using assms by (simp_all add: diff_wf_def)
  have e1: "intersects_with_rule (diff_add d) (diff_remove d)
      (\<lambda>k e x. \<not> contains_with_daa_score (diff_add d) k (block_daa_score e)) = None"
    by (auto simp: intersects_with_rule_None [OF w] contains_with_daa_score_def)
  have e2: "intersects_with_rule (diff_remove d) (diff_add d)
      (\<lambda>k x e. \<not> contains_with_daa_score (diff_add d) k (block_daa_score e)) = None"
    by (auto simp: intersects_with_rule_None [OF w(2,1)] contains_with_daa_score_def)
  have "\<exists>d'. with_diff_in_place d (as_reversed d) = Inr d'"
    by (simp add: with_diff_in_place_def as_reversed_def e1 e2 Let_def split: prod.split)
  then obtain d' where ok: "with_diff_in_place d (as_reversed d) = Inr d'" by blast
  have "hm_get (diff_remove d') k = None \<and> hm_get (diff_add d') k = None" for k
    using with_diff_lookups [OF assms wf ok, of k]
    by (auto simp: as_reversed_def Let_def contains_with_daa_score_def same_entry_def
        split: option.splits if_splits)
  then have "diff_remove d' = [] \<and> diff_add d' = []"
    using hm_get_empty_iff [of "diff_remove d'"] hm_get_empty_iff [of "diff_add d'"]
    by (simp add: fun_eq_iff)
  then have "d' = UtxoDiff_default" by (cases d') (simp add: UtxoDiff_default_def)
  with ok show ?thesis by simp
qed

section \<open>Transactions\<close>

lemma remove_entry_view:
  assumes wf: "diff_wf d" and app: "applies_to V d"
    and held: "compose V d k = Some e'" "same_entry e' e"
  shows "\<exists>d'. remove_entry d k e = Inr d' \<and> diff_wf d' \<and> applies_to V d'
           \<and> compose V d' = (compose V d)(k := None)"
proof (cases "hm_get (diff_add d) k")
  case (Some x)
  then have x: "x = e'" using held(1) by (simp add: compose_eq)
  define d' where "d' = d\<lparr>diff_add := hm_remove k (diff_add d)\<rparr>"
  have "remove_entry d k e = Inr d'"
    using Some x held(2) by (simp add: remove_entry_def contains_with_daa_score_def same_entry_def d'_def)
  moreover have "diff_wf d'" using wf by (simp add: diff_wf_def d'_def hm.wf_remove)
  moreover have "applies_to V d'"
    using app by (auto simp: applies_to_def d'_def delete_conv' split: if_splits)
  moreover have "compose V d' k' = ((compose V d)(k := None)) k'" for k'
    using applies_toD_add [OF app Some]
    by (auto simp: compose_eq d'_def delete_conv' split: option.splits)
  ultimately show ?thesis by blast
next
  case None
  then have r: "hm_get (diff_remove d) k = None" and V: "V k = Some e'"
    using held(1) by (auto simp: compose_eq split: option.splits)
  define d' where "d' = d\<lparr>diff_remove := hm_insert k e (diff_remove d)\<rparr>"
  have "remove_entry d k e = Inr d'"
    using None r by (simp add: remove_entry_def contains_with_daa_score_def hm_contains_key_def d'_def)
  moreover have "diff_wf d'" using wf by (simp add: diff_wf_def d'_def hm.wf_insert)
  moreover have "applies_to V d'"
    using app V held(2) by (auto simp: applies_to_def d'_def update_conv')
  moreover have "compose V d' k' = ((compose V d)(k := None)) k'" for k'
    using None by (auto simp: compose_eq d'_def update_conv' split: option.splits)
  ultimately show ?thesis by blast
qed

lemma remove_entries_view:
  assumes "diff_wf d" and "applies_to V d" and "distinct (map fst spent)"
    and "\<forall>(k, e)\<in>set spent. \<exists>e'. compose V d k = Some e' \<and> same_entry e' e"
  shows "\<exists>d'. remove_entries d spent = Inr d' \<and> diff_wf d' \<and> applies_to V d'
           \<and> compose V d' = (compose V d) |` (- fst ` set spent)"
  using assms
proof (induction spent arbitrary: d)
  case Nil
  then show ?case by (simp add: restrict_map_def)
next
  case (Cons p spent)
  obtain k e where p: "p = (k, e)" by (cases p)
  obtain e' where "compose V d k = Some e'" "same_entry e' e" using Cons.prems(4) by (auto simp: p)
  from remove_entry_view [OF Cons.prems(1,2) this] obtain d1 where d1: "remove_entry d k e = Inr d1"
      "diff_wf d1" "applies_to V d1" "compose V d1 = (compose V d)(k := None)" by blast
  have k: "k \<notin> fst ` set spent" using Cons.prems(3) by (simp add: p)
  have "\<forall>(k, e)\<in>set spent. \<exists>e'. compose V d1 k = Some e' \<and> same_entry e' e"
  proof clarify
    fix k2 e2 assume mem: "(k2, e2) \<in> set spent"
    then have "k2 \<noteq> k" using k by force
    moreover have "\<exists>e'. compose V d k2 = Some e' \<and> same_entry e' e2" using Cons.prems(4) mem by auto
    ultimately show "\<exists>e'. compose V d1 k2 = Some e' \<and> same_entry e' e2" by (simp add: d1(4))
  qed
  then obtain d' where "remove_entries d1 spent = Inr d'" "diff_wf d'" "applies_to V d'"
      "compose V d' = (compose V d1) |` (- fst ` set spent)"
    using Cons.IH [OF d1(2,3)] Cons.prems(3) by (auto simp: p)
  then show ?case by (auto simp: p d1(1,4) restrict_map_def fun_eq_iff)
qed

lemma add_entry_view:
  assumes wf: "diff_wf d" and app: "applies_to V d"
    and fresh: "V k = None" "compose V d k = None"
  shows "\<exists>d'. add_entry d k e = Inr d' \<and> diff_wf d' \<and> applies_to V d'
           \<and> compose V d' = (compose V d)(k \<mapsto> e)"
proof -
  have r: "hm_get (diff_remove d) k = None"
    using applies_toD_remove [OF app, of k] fresh(1) by (cases "hm_get (diff_remove d) k") auto
  have a: "hm_get (diff_add d) k = None"
    using fresh(2) by (auto simp: compose_eq split: option.splits)
  define d' where "d' = d\<lparr>diff_add := hm_insert k e (diff_add d)\<rparr>"
  have "add_entry d k e = Inr d'"
    using r a by (simp add: add_entry_def contains_with_daa_score_def hm_contains_key_def d'_def)
  moreover have "diff_wf d'" using wf by (simp add: diff_wf_def d'_def hm.wf_insert)
  moreover have "applies_to V d'"
    using app fresh(1) by (auto simp: applies_to_def d'_def update_conv')
  moreover have "compose V d' k' = ((compose V d)(k \<mapsto> e)) k'" for k'
    by (auto simp: compose_eq d'_def update_conv' split: option.splits)
  ultimately show ?thesis by blast
qed

lemma add_entries_view:
  assumes "diff_wf d" and "applies_to V d" and "distinct (map fst created)"
    and "\<forall>k\<in>fst ` set created. V k = None \<and> compose V d k = None"
  shows "\<exists>d'. add_entries d created = Inr d' \<and> diff_wf d' \<and> applies_to V d'
           \<and> compose V d' = compose V d ++ map_of created"
  using assms
proof (induction created arbitrary: d)
  case Nil
  then show ?case by simp
next
  case (Cons p created)
  obtain k e where p: "p = (k, e)" by (cases p)
  have "V k = None" "compose V d k = None" using Cons.prems(4) by (auto simp: p)
  from add_entry_view [OF Cons.prems(1,2) this] obtain d1 where d1: "add_entry d k e = Inr d1"
      "diff_wf d1" "applies_to V d1" "compose V d1 = (compose V d)(k \<mapsto> e)" by blast
  have k: "k \<notin> fst ` set created" using Cons.prems(3) by (simp add: p)
  have "\<forall>k'\<in>fst ` set created. V k' = None \<and> compose V d1 k' = None"
    using Cons.prems(4) k by (auto simp: d1(4) p)
  then obtain d' where "add_entries d1 created = Inr d'" "diff_wf d'" "applies_to V d'"
      "compose V d' = compose V d1 ++ map_of created"
    using Cons.IH [OF d1(2,3)] Cons.prems(3) by (auto simp: p)
  moreover have "map_of created k = None" using k by (simp add: map_of_eq_None_iff)
  ultimately show ?case
    by (auto simp: p d1(1,4) fun_eq_iff map_add_def split: option.splits)
qed

lemma output_entries_eq:
  assumes "case anchors of Some as \<Rightarrow> i + length outs \<le> length as | None \<Rightarrow> True"
  shows "output_entries txid cb daa anchors i outs = Some (map (\<lambda>j.
     (TransactionOutpoint_new txid (word_of_nat (i + j)),
      UtxoEntry_new_aged (out_value (outs ! j)) (out_spk (outs ! j)) daa cb
        (case anchors of Some as \<Rightarrow> as ! (i + j) | None \<Rightarrow> daa))) [0..<length outs])"
  using assms
proof (induction outs arbitrary: i)
  case Nil
  then show ?case by simp
next
  case (Cons x outs)
  have "[0..<length (x # outs)] = 0 # map Suc [0..<length outs]"
    by (simp add: upt_conv_Cons map_Suc_upt del: upt_Suc)
  then show ?case
    using Cons.IH [of "Suc i"] Cons.prems
    by (cases anchors) (auto simp: UtxoEntry_new_aged_def UtxoEntry_new_def o_def ac_simps)
qed

section \<open>Properties\<close>

abbreviation sample_outpoint :: "hash \<Rightarrow> TransactionOutpoint" where
  "sample_outpoint h \<equiv> \<lparr>transaction_id = h, outpoint_index = 0\<rparr>"

abbreviation sample_entry :: UtxoEntry where
  "sample_entry \<equiv> \<lparr>amount = 5, entry_spk = sample_spk 1, block_daa_score = 3, entry_is_coinbase = False,
     effective_daa = 3\<rparr>"

abbreviation sample_tx :: Transaction where
  "sample_tx \<equiv> \<lparr>tx_version = 0,
     tx_inputs = [\<lparr>previous_outpoint = sample_outpoint 1, signature_script = [], input_sequence = 0,
                   sig_op_count = 0\<rparr>],
     tx_outputs = [\<lparr>out_value = 5, out_spk = sample_spk 2\<rparr>], lock_time = 0,
     subnetwork_id = SUBNETWORK_ID_NATIVE, tx_gas = 0, tx_payload = [], tx_mass = 0, tx_id = 2\<rparr>"

text \<open>C6: A transaction applied to a diff succeeds, and the view behind the diff changes exactly by the
  transaction: its inputs are gone, its outputs are there with the amount, script, score and anchor
  they should have, and every other outpoint reads as before.  The diff stays applicable to its base.\<close>

theorem add_transaction_updates_view:
  assumes wf: "diff_wf d" and app: "applies_to V d"
    and len: "length (tx_inputs tx) = length es"
    and dist: "distinct (map previous_outpoint (tx_inputs tx))"
    and held: "\<forall>(i, e)\<in>set (zip (tx_inputs tx) es).
                 \<exists>e'. compose V d (previous_outpoint i) = Some e' \<and> same_entry e' e"
    and few: "length (tx_outputs tx) < 2 ^ 32"
    and fresh: "\<forall>i<length (tx_outputs tx).
                  V (TransactionOutpoint_new (tx_id tx) (word_of_nat i)) = None
                \<and> compose V d (TransactionOutpoint_new (tx_id tx) (word_of_nat i)) = None"
    and anchors: "if coin_age_active
       then assign_output_effective_daa
              (map (\<lambda>(_, e). (entry_spk e, amount e, effective_daa e)) (zip (tx_inputs tx) es))
              (map (\<lambda>out. (out_spk out, out_value out)) (tx_outputs tx)) daa = Some as
            \<and> length as = length (tx_outputs tx)
       else as = replicate (length (tx_outputs tx)) daa"
  shows "\<exists>d'. add_transaction d \<lparr>ptx = tx, entries = es\<rparr> daa coin_age_active = Some (Inr d')
     \<and> diff_wf d' \<and> applies_to V d'
     \<and> (\<forall>i<length (tx_outputs tx).
          compose V d' (TransactionOutpoint_new (tx_id tx) (word_of_nat i))
            = Some (UtxoEntry_new_aged (out_value (tx_outputs tx ! i)) (out_spk (tx_outputs tx ! i))
                      daa (is_coinbase tx) (as ! i)))
     \<and> (\<forall>k. k \<notin> (\<lambda>i. TransactionOutpoint_new (tx_id tx) (word_of_nat i)) ` {..<length (tx_outputs tx)}
          \<longrightarrow> compose V d' k = (if k \<in> previous_outpoint ` set (tx_inputs tx) then None else compose V d k))"
proof -
  let ?n = "length (tx_outputs tx)"
  let ?op = "\<lambda>i. TransactionOutpoint_new (tx_id tx) (word_of_nat i)"
  let ?spent = "map (\<lambda>(i, e). (previous_outpoint i, e)) (zip (tx_inputs tx) es)"
  let ?entry = "\<lambda>i. UtxoEntry_new_aged (out_value (tx_outputs tx ! i)) (out_spk (tx_outputs tx ! i))
                      daa (is_coinbase tx) (as ! i)"
  define created where "created = map (\<lambda>i. (?op i, ?entry i)) [0..<?n]"
  have spent_keys: "map fst ?spent = map previous_outpoint (tx_inputs tx)"
  proof -
    have "map fst ?spent = map previous_outpoint (map fst (zip (tx_inputs tx) es))"
      by (simp add: o_def case_prod_beta)
    then show ?thesis using len by simp
  qed
  have inj: "inj_on ?op {..<?n}"
  proof
    fix i j assume "i \<in> {..<?n}" "j \<in> {..<?n}" "?op i = ?op j"
    then have "(word_of_nat i :: u32) = word_of_nat j" and "i < 2 ^ 32" "j < 2 ^ 32"
      using few by (auto simp: TransactionOutpoint_new_def)
    then have "unat (word_of_nat i :: u32) = unat (word_of_nat j :: u32)" by simp
    then show "i = j" using \<open>i < 2 ^ 32\<close> \<open>j < 2 ^ 32\<close> by (simp add: unat_of_nat)
  qed
  then have keys: "fst ` set created = ?op ` {..<?n}" and dist_c: "distinct (map fst created)"
    by (simp_all add: created_def distinct_map o_def atLeast0LessThan image_image)
  have run: "add_transaction d \<lparr>ptx = tx, entries = es\<rparr> daa coin_age_active
      = Some (res_bind (remove_entries d ?spent) (\<lambda>d. add_entries d created))"
  proof (cases coin_age_active)
    case True
    then show ?thesis
      using anchors len output_entries_eq [where anchors = "Some as" and i = 0 and outs = "tx_outputs tx"]
      by (cases "remove_entries d ?spent") (simp_all add: add_transaction_def populated_inputs_def created_def)
  next
    case False
    then have "created = map (\<lambda>i. (?op i, UtxoEntry_new_aged (out_value (tx_outputs tx ! i))
        (out_spk (tx_outputs tx ! i)) daa (is_coinbase tx) daa)) [0..<?n]"
      using anchors by (simp add: created_def)
    then show ?thesis
      using False len output_entries_eq [where anchors = None and i = 0 and outs = "tx_outputs tx"]
      by (cases "remove_entries d ?spent") (simp_all add: add_transaction_def populated_inputs_def)
  qed
  have "\<forall>(k, e)\<in>set ?spent. \<exists>e'. compose V d k = Some e' \<and> same_entry e' e"
    using held by auto
  from remove_entries_view [OF wf app _ this] obtain d1 where d1: "remove_entries d ?spent = Inr d1"
      "diff_wf d1" "applies_to V d1" "compose V d1 = (compose V d) |` (- previous_outpoint ` set (tx_inputs tx))"
    using dist spent_keys by (metis list.set_map)
  have "\<forall>k\<in>fst ` set created. V k = None \<and> compose V d1 k = None"
    unfolding keys d1(4) using fresh by (auto simp: restrict_map_def)
  from add_entries_view [OF d1(2,3) dist_c this] obtain d' where d': "add_entries d1 created = Inr d'"
      "diff_wf d'" "applies_to V d'" "compose V d' = compose V d1 ++ map_of created" by blast
  have "compose V d' (?op i) = Some (?entry i)" if "i < ?n" for i
  proof -
    have "(?op i, ?entry i) \<in> set created" using that by (auto simp: created_def)
    then have "map_of created (?op i) = Some (?entry i)" using dist_c by simp
    then show ?thesis by (simp add: d'(4))
  qed
  moreover have "compose V d' k = (if k \<in> previous_outpoint ` set (tx_inputs tx) then None else compose V d k)"
    if "k \<notin> ?op ` {..<?n}" for k
  proof -
    have "map_of created k = None" using that keys by (simp add: map_of_eq_None_iff)
    then show ?thesis by (simp add: d'(4) d1(4) map_add_def restrict_map_def)
  qed
  ultimately show ?thesis using run d1(1) d'(1-3) by auto
qed

theorem add_transaction_updates_view_witness:
  "\<exists>d'. add_transaction UtxoDiff_default \<lparr>ptx = sample_tx, entries = [sample_entry]\<rparr> 9 False
         = Some (Inr d')
     \<and> compose [sample_outpoint 1 \<mapsto> sample_entry] d' (sample_outpoint 1) = None
     \<and> compose [sample_outpoint 1 \<mapsto> sample_entry] d' (sample_outpoint 2) \<noteq> None"
proof -
  have ops: "TransactionOutpoint_new 2 0 = sample_outpoint 2"
    by (simp add: TransactionOutpoint_new_def)
  have "\<exists>d'. add_transaction UtxoDiff_default \<lparr>ptx = sample_tx, entries = [sample_entry]\<rparr> 9 False
         = Some (Inr d')
     \<and> diff_wf d' \<and> applies_to [sample_outpoint 1 \<mapsto> sample_entry] d'
     \<and> (\<forall>i<length (tx_outputs sample_tx).
          compose [sample_outpoint 1 \<mapsto> sample_entry] d'
              (TransactionOutpoint_new (tx_id sample_tx) (word_of_nat i))
            = Some (UtxoEntry_new_aged (out_value (tx_outputs sample_tx ! i))
                 (out_spk (tx_outputs sample_tx ! i)) 9 (is_coinbase sample_tx) ([9] ! i)))
     \<and> (\<forall>k. k \<notin> (\<lambda>i. TransactionOutpoint_new (tx_id sample_tx) (word_of_nat i))
                   ` {..<length (tx_outputs sample_tx)}
          \<longrightarrow> compose [sample_outpoint 1 \<mapsto> sample_entry] d' k
            = (if k \<in> previous_outpoint ` set (tx_inputs sample_tx) then None
               else compose [sample_outpoint 1 \<mapsto> sample_entry] UtxoDiff_default k))"
    by (rule add_transaction_updates_view)
      (simp_all add: UtxoDiff_default_def diff_wf_def applies_to_def compose_eq same_entry_def
        TransactionOutpoint_new_def)
  then obtain d' where run: "add_transaction UtxoDiff_default \<lparr>ptx = sample_tx, entries = [sample_entry]\<rparr> 9 False
         = Some (Inr d')"
    and out: "\<forall>i<length (tx_outputs sample_tx).
          compose [sample_outpoint 1 \<mapsto> sample_entry] d'
              (TransactionOutpoint_new (tx_id sample_tx) (word_of_nat i)) \<noteq> None"
    and rest: "\<forall>k. k \<notin> (\<lambda>i. TransactionOutpoint_new (tx_id sample_tx) (word_of_nat i))
                   ` {..<length (tx_outputs sample_tx)}
          \<longrightarrow> compose [sample_outpoint 1 \<mapsto> sample_entry] d' k
            = (if k \<in> previous_outpoint ` set (tx_inputs sample_tx) then None
               else compose [sample_outpoint 1 \<mapsto> sample_entry] UtxoDiff_default k)"
    by auto
  have "compose [sample_outpoint 1 \<mapsto> sample_entry] d' (sample_outpoint 2) \<noteq> None"
    using spec [OF out, of 0] by (simp add: ops)
  moreover have "compose [sample_outpoint 1 \<mapsto> sample_entry] d' (sample_outpoint 1) = None"
    using spec [OF rest, of "sample_outpoint 1"] by (simp add: lessThan_Suc ops)
  ultimately show ?thesis using run by blast
qed

text \<open>C3: Diffs compose: a diff that applies to a base and a second one that applies to the view behind it
  merge without an error, and the merged diff applies to the base and gives the view of applying both in turn.
  The hypothesis that a coin with its score and anchor names one entry is the coin identity the code's comments state.\<close>

theorem diff_composition:
  assumes "diff_wf d1" and "diff_wf d2"
    and "applies_to V d1" and "applies_to (compose V d1) d2" and "names_coins V d2"
  shows "\<exists>d. with_diff d1 d2 = Inr d \<and> diff_wf d \<and> applies_to V d
           \<and> compose V d = compose (compose V d1) d2"
  unfolding with_diff_def using assms by (rule with_diff_compose)

theorem diff_composition_witness:
  "\<exists>d. with_diff \<lparr>diff_add = [(sample_outpoint 2, sample_entry)], diff_remove = []\<rparr>
            \<lparr>diff_add = [(sample_outpoint 3, sample_entry)],
             diff_remove = [(sample_outpoint 2, sample_entry), (sample_outpoint 1, sample_entry)]\<rparr> = Inr d
     \<and> compose [sample_outpoint 1 \<mapsto> sample_entry] d (sample_outpoint 1) = None
     \<and> compose [sample_outpoint 1 \<mapsto> sample_entry] d (sample_outpoint 3) = Some sample_entry"
proof -
  let ?d1 = "\<lparr>diff_add = [(sample_outpoint 2, sample_entry)], diff_remove = []\<rparr>"
  let ?d2 = "\<lparr>diff_add = [(sample_outpoint 3, sample_entry)],
     diff_remove = [(sample_outpoint 2, sample_entry), (sample_outpoint 1, sample_entry)]\<rparr>"
  let ?V = "[sample_outpoint 1 \<mapsto> sample_entry]"
  have "\<exists>d. with_diff ?d1 ?d2 = Inr d \<and> diff_wf d \<and> applies_to ?V d
      \<and> compose ?V d = compose (compose ?V ?d1) ?d2"
    by (rule diff_composition)
      (simp_all add: diff_wf_def hm_wf_def applies_to_def names_coins_def compose_eq same_entry_def)
  then obtain d where ok: "with_diff ?d1 ?d2 = Inr d"
    and eq: "compose ?V d = compose (compose ?V ?d1) ?d2" by blast
  have "compose ?V d (sample_outpoint 1) = None" "compose ?V d (sample_outpoint 3) = Some sample_entry"
    unfolding eq by (simp_all add: compose_eq)
  with ok show ?thesis by blast
qed

text \<open>A diff followed by its own reverse is the empty diff, whatever the diff holds: rolling a chain
  block back leaves nothing behind.\<close>

theorem reverse_cancels:
  assumes "diff_wf d"
  shows "with_diff d (as_reversed d) = Inr UtxoDiff_default"
  unfolding with_diff_def using assms by (rule with_diff_reversed)

theorem reverse_cancels_witness:
  "with_diff \<lparr>diff_add = [(sample_outpoint 2, sample_entry)], diff_remove = [(sample_outpoint 1, sample_entry)]\<rparr>
     \<lparr>diff_add = [(sample_outpoint 1, sample_entry)], diff_remove = [(sample_outpoint 2, sample_entry)]\<rparr>
   = Inr UtxoDiff_default"
  using reverse_cancels [of "\<lparr>diff_add = [(sample_outpoint 2, sample_entry)],
      diff_remove = [(sample_outpoint 1, sample_entry)]\<rparr>"]
  by (simp add: diff_wf_def hm_wf_def as_reversed_def)

end
