(* ===== verification/Service_Types.thy ===== *)
theory Service_Types
  imports Tx_Model "HOL-Library.Product_Lexorder"
begin

text \<open>
  The data and the pure rules of the service bond, \<^verbatim>\<open>src/consensus/core/src/collateral.rs\<close> up to the
  ledger itself: constants, escrow announcements in coinbase extra data, delegation certificates,
  assignment draws, service windows, strike penalties, and the records the ledger keeps.

  Hash functions and signature verification (\<^verbatim>\<open>TransactionHash\<close>, \<^verbatim>\<open>blake2b_simd\<close>,
  \<^verbatim>\<open>secp256k1\<close>) are parameters of the definitions that call them.
\<close>

section \<open>Constants\<close>

definition CHALLENGE_WINDOW_BLOCKS :: u64 where "CHALLENGE_WINDOW_BLOCKS = 36000"
definition SERVICE_BURNABLE_WINDOW_DAA :: u64 where "SERVICE_BURNABLE_WINDOW_DAA = 360000"
definition SERVICE_BOND_CSV_WINDOW_BLOCKS :: u64 where "SERVICE_BOND_CSV_WINDOW_BLOCKS = 792000"
definition STRIKE_1_BURN_CLAIMS :: u32 where "STRIKE_1_BURN_CLAIMS = 5"
definition SERVICE_STRIKE_INTERVAL_DAA :: u64 where "SERVICE_STRIKE_INTERVAL_DAA = 36000"
definition SERVICE_SUSPENSION_DAA :: u64 where "SERVICE_SUSPENSION_DAA = 864000"
definition SERVICE_ELIGIBILITY_WINDOW_DAA :: u64 where "SERVICE_ELIGIBILITY_WINDOW_DAA = 6000"
definition SERVICE_WINDOW_BASE_DAA :: u64 where "SERVICE_WINDOW_BASE_DAA = 300"
definition SERVICE_WINDOW_BASE_DAA_V2 :: u64 where "SERVICE_WINDOW_BASE_DAA_V2 = 3000"
definition AI_REQUEST_MAX_TOKENS_CAP :: u32 where "AI_REQUEST_MAX_TOKENS_CAP = 4096"
definition SERVICE_LEDGER_HORIZON_DAA :: u64 where "SERVICE_LEDGER_HORIZON_DAA = 72000"
definition SERVICE_AUDITED_MEMORY_DAA :: u64 where "SERVICE_AUDITED_MEMORY_DAA = 864000"
definition MAX_REWARD_MINTS_PER_BLOCK :: nat where "MAX_REWARD_MINTS_PER_BLOCK = 64"
definition SERVICE_EARLY_RESPONSE_HORIZON_DAA :: u64 where
  "SERVICE_EARLY_RESPONSE_HORIZON_DAA = 36000"
definition MAX_EARLY_RESPONSE_HASHES :: nat where "MAX_EARLY_RESPONSE_HASHES = 4096"

lemmas service_constants =
  SERVICE_BURNABLE_WINDOW_DAA_def SERVICE_STRIKE_INTERVAL_DAA_def SERVICE_SUSPENSION_DAA_def
  SERVICE_WINDOW_BASE_DAA_def SERVICE_WINDOW_BASE_DAA_V2_def AI_REQUEST_MAX_TOKENS_CAP_def
  SERVICE_LEDGER_HORIZON_DAA_def SERVICE_AUDITED_MEMORY_DAA_def
  SERVICE_EARLY_RESPONSE_HORIZON_DAA_def

section \<open>Identities and announcements\<close>

definition miner_key :: "(u8 list \<Rightarrow> hash) \<Rightarrow> ScriptPublicKey \<Rightarrow> hash" where
  "miner_key transaction_hash spk = transaction_hash (to_le 2 (spk_version spk) @ spk_script spk)"

definition escrow_miner_key :: "u8 list \<Rightarrow> hash" where
  "escrow_miner_key pubkey = hash_of_bytes pubkey"

definition bytes_of_string :: "string \<Rightarrow> u8 list" where
  "bytes_of_string s = map of_char s"

definition ESCROW_MARKER :: "u8 list" where "ESCROW_MARKER = bytes_of_string ''/escrow:''"
definition ESIG_MARKER :: "u8 list" where "ESIG_MARKER = bytes_of_string ''/esig:''"
definition ESCROW_DELEGATION_DOMAIN :: "u8 list" where
  "ESCROW_DELEGATION_DOMAIN = bytes_of_string ''KeryxEscrowDelegationV1''"
definition RESPONDER_SIG_DOMAIN :: "u8 list" where
  "RESPONDER_SIG_DOMAIN = bytes_of_string ''KeryxServiceResponderV1''"

text \<open>\<open>windows(n).position(|w| w == marker)\<close>: the first place the marker occurs.\<close>

fun find_marker :: "u8 list \<Rightarrow> u8 list \<Rightarrow> nat option" where
  "find_marker [] marker = (if marker = [] then Some 0 else None)"
| "find_marker (b # bs) marker =
     (if take (length marker) (b # bs) = marker then Some 0
      else map_option Suc (find_marker bs marker))"

definition hex_digit :: "u8 \<Rightarrow> u8 option" where
  "hex_digit c =
     (if 0x30 \<le> c \<and> c \<le> 0x39 then Some (c - 0x30)
      else if 0x61 \<le> c \<and> c \<le> 0x66 then Some (c - 0x57)
      else if 0x41 \<le> c \<and> c \<le> 0x46 then Some (c - 0x37)
      else None)"

text \<open>
  Two bytes read by \<open>str::from_utf8\<close> and \<open>u8::from_str_radix(_, 16)\<close>.  The standard library's
  radix parser takes an optional leading plus sign, so besides two hex digits it accepts
  \<open>+\<close> followed by one.  Two bytes that are not UTF-8, or one two-byte character, hold no hex digit
  and are rejected either way.
\<close>

definition hex_byte :: "u8 \<Rightarrow> u8 \<Rightarrow> u8 option" where
  "hex_byte a b =
     (if a = 0x2B then hex_digit b
      else do { hi \<leftarrow> hex_digit a; lo \<leftarrow> hex_digit b; Some (16 * hi + lo) })"

fun hex_bytes :: "nat \<Rightarrow> u8 list \<Rightarrow> u8 list option" where
  "hex_bytes 0 bs = Some []"
| "hex_bytes (Suc n) (a # b # bs) =
     do { x \<leftarrow> hex_byte a b; xs \<leftarrow> hex_bytes n bs; Some (x # xs) }"
| "hex_bytes (Suc n) bs = None"

definition parse_hex_after_marker :: "nat \<Rightarrow> u8 list \<Rightarrow> u8 list \<Rightarrow> u8 list option" where
  "parse_hex_after_marker n extra_data marker = do {
     pos \<leftarrow> find_marker extra_data marker;
     let hex_start = pos + length marker;
     if hex_start + n * 2 > length extra_data then None
     else hex_bytes n (drop hex_start extra_data)
   }"

definition parse_escrow_pubkey :: "u8 list \<Rightarrow> u8 list option" where
  "parse_escrow_pubkey extra_data = parse_hex_after_marker 32 extra_data ESCROW_MARKER"

definition parse_escrow_esig :: "u8 list \<Rightarrow> u8 list option" where
  "parse_escrow_esig extra_data = parse_hex_after_marker 64 extra_data ESIG_MARKER"

definition escrow_delegation_message :: "(u8 list \<Rightarrow> u8 list) \<Rightarrow> u8 list \<Rightarrow> u8 list" where
  "escrow_delegation_message blake2b_256 escrow_pubkey =
     blake2b_256 (ESCROW_DELEGATION_DOMAIN @ escrow_pubkey)"

definition verify_escrow_delegation ::
    "(u8 list \<Rightarrow> u8 list) \<Rightarrow> (u8 list \<Rightarrow> 'pk option) \<Rightarrow> (u8 list \<Rightarrow> 'sig option)
       \<Rightarrow> ('sig \<Rightarrow> u8 list \<Rightarrow> 'pk \<Rightarrow> bool)
       \<Rightarrow> u16 \<Rightarrow> u8 list \<Rightarrow> u8 list \<Rightarrow> u8 list \<Rightarrow> bool" where
  "verify_escrow_delegation blake2b_256 xonly_from_slice signature_from_slice verify_schnorr
     payout_version payout_script escrow_pubkey sig =
     (if payout_version \<noteq> 0 \<or> length payout_script \<noteq> 34 \<or> payout_script ! 0 \<noteq> 0x20
         \<or> payout_script ! 33 \<noteq> 0xac
      then False
      else case xonly_from_slice (take 32 (drop 1 payout_script)) of
             None \<Rightarrow> False
           | Some payout_key \<Rightarrow>
               (case signature_from_slice sig of
                  None \<Rightarrow> False
                | Some signature \<Rightarrow>
                    verify_schnorr signature (escrow_delegation_message blake2b_256 escrow_pubkey)
                      payout_key))"

definition verify_responder_signature ::
    "(u8 list \<Rightarrow> u8 list) \<Rightarrow> (u8 list \<Rightarrow> 'pk option) \<Rightarrow> (u8 list \<Rightarrow> 'sig option)
       \<Rightarrow> ('sig \<Rightarrow> u8 list \<Rightarrow> 'pk \<Rightarrow> bool)
       \<Rightarrow> u8 list \<Rightarrow> u8 list \<Rightarrow> u8 list \<Rightarrow> bool" where
  "verify_responder_signature blake2b_256 xonly_from_slice signature_from_slice verify_schnorr
     escrow_pubkey signature signed_bytes =
     (case xonly_from_slice escrow_pubkey of
        None \<Rightarrow> False
      | Some pk \<Rightarrow>
          (case signature_from_slice signature of
             None \<Rightarrow> False
           | Some sig \<Rightarrow> verify_schnorr sig (blake2b_256 (RESPONDER_SIG_DOMAIN @ signed_bytes)) pk))"

section \<open>Assignment\<close>

definition assign_index :: "hash \<Rightarrow> nat \<Rightarrow> nat option" where
  "assign_index seed n =
     (if n = 0 then None
      else Some (unat ((from_le (take 8 (hash_bytes seed)) :: u64)) mod n))"

definition eligible_pairs :: "(hash \<times> u8 \<times> hash) list \<Rightarrow> u8 \<Rightarrow> (hash \<times> hash) list" where
  "eligible_pairs recent target_tier =
     dedup (sort (map (\<lambda>(m, _, e). (m, e)) (filter (\<lambda>(_, t, _). t = target_tier) recent)))"

definition draw_assignment :: "hash list \<Rightarrow> hash list \<Rightarrow> hash \<Rightarrow> hash option" where
  "draw_assignment eligible excluded seed =
     (let filtered = filter (\<lambda>m. m \<notin> set excluded) eligible;
          pool = (if filtered = [] then eligible else filtered)
      in map_option (\<lambda>i. pool ! i) (assign_index seed (length pool)))"

section \<open>Service windows and penalties\<close>

definition service_window_daa_at :: "u8 \<Rightarrow> u32 \<Rightarrow> bool \<Rightarrow> u64" where
  "service_window_daa_at tier max_tokens v2 =
     (let per_token_daa = (if tier \<le> 2 then 2 else if tier = 3 then 3 else 4 :: u64);
          base = (if v2 then SERVICE_WINDOW_BASE_DAA_V2 else SERVICE_WINDOW_BASE_DAA)
      in base + ucast (min max_tokens AI_REQUEST_MAX_TOKENS_CAP) * per_token_daa)"

definition service_window_daa :: "u8 \<Rightarrow> u32 \<Rightarrow> u64" where
  "service_window_daa tier max_tokens = service_window_daa_at tier max_tokens False"

datatype ServicePenalty = NoPenalty | BurnClaims u32 | SlashAllPending | Suspend

definition strike_penalty_at :: "u32 \<Rightarrow> bool \<Rightarrow> bool \<Rightarrow> ServicePenalty" where
  "strike_penalty_at consecutive_misses established v2 =
     (if consecutive_misses = 0 then NoPenalty
      else if consecutive_misses = 1
      then (if established \<or> v2 then BurnClaims STRIKE_1_BURN_CLAIMS else SlashAllPending)
      else if consecutive_misses = 2 then SlashAllPending
      else Suspend)"

definition strike_penalty :: "u32 \<Rightarrow> bool \<Rightarrow> ServicePenalty" where
  "strike_penalty consecutive_misses established =
     strike_penalty_at consecutive_misses established False"

definition update_strikes :: "u32 \<Rightarrow> bool \<Rightarrow> u32 option" where
  "update_strikes current missed = (if missed then checked_add current 1 else Some 0)"

section \<open>Records of the ledger\<close>

record EscrowClaim =
  claim_outpoint :: TransactionOutpoint
  claim_value :: u64
  claim_daa :: u64

record ServiceMiss =
  miss_request :: hash
  miss_miner :: hash
  miss_count :: u32
  miss_penalty :: ServicePenalty
  miss_burned :: "EscrowClaim list"

record Audit =
  cohort :: "hash list"
  delegations :: "(hash \<times> hash) list"
  responded :: "hash list"
  window_end_daa :: u64

record PendingRequest =
  req_tier :: u8
  req_max_tokens :: u32
  accepted_daa :: u64
  req_reward :: u64
  winner :: "hash option"
  audit :: "Audit option"
  early_responders :: "hash list"

record StrikeEntry =
  strike_count :: u32
  last_daa :: u64

record ServiceReward =
  reward_request :: hash
  reward_winner :: hash
  reward_amount :: u64
  reward_spk :: "ScriptPublicKey option"

record FoldOutcome =
  misses :: "ServiceMiss list"
  rewards :: "ServiceReward list"
  resets :: "(hash \<times> u64) list"
  sightings :: "hash list"
  expired :: "(hash \<times> EscrowClaim) list"

record ServiceLedger =
  pending :: "(hash, PendingRequest) btree"
  early_responses :: "(hash, u64 \<times> hash list) btree"
  strikes :: "(hash, StrikeEntry) btree"
  vault :: "(hash, EscrowClaim list) btree"
  base :: "(hash, StrikeEntry) btree"
  first_seen :: "(hash, u64) btree"
  first_seen_base :: "(hash, u64) btree"
  window_v2_activation_daa :: "u64 option"
  burnable_window_daa :: "u64 option"
  reward_routing_daa :: "u64 option"
  audited :: "(hash, u64) btree"
  producer_spk :: "(hash, ScriptPublicKey) btree"

definition FoldOutcome_default :: FoldOutcome where
  "FoldOutcome_default = \<lparr>misses = [], rewards = [], resets = [], sightings = [], expired = []\<rparr>"

definition ServiceLedger_default :: ServiceLedger where
  "ServiceLedger_default = \<lparr>pending = [], early_responses = [], strikes = [], vault = [], base = [],
     first_seen = [], first_seen_base = [], window_v2_activation_daa = None,
     burnable_window_daa = None, reward_routing_daa = None, audited = [], producer_spk = []\<rparr>"

end
