(* ===== verification/Service_Fold.thy ===== *)
theory Service_Fold
  imports Service_Types
begin

text \<open>
  \<^verbatim>\<open>ServiceLedger::fold_inner\<close> of \<^verbatim>\<open>src/consensus/core/src/collateral.rs\<close>: the fold of one selected
  chain block into the service ledger, one definition per phase and per loop body.  \<open>None\<close> is a
  panic: an overflowing addition, or an \<open>unwrap\<close> of an absent entry.
\<close>

section \<open>Ledger lookups\<close>

definition strike_state :: "ServiceLedger \<Rightarrow> hash \<Rightarrow> StrikeEntry option" where
  "strike_state L miner =
     (case bt_get (strikes L) miner of Some e \<Rightarrow> Some e | None \<Rightarrow> bt_get (base L) miner)"

definition consecutive_misses :: "ServiceLedger \<Rightarrow> hash \<Rightarrow> u32" where
  "consecutive_misses L miner =
     (case strike_state L miner of None \<Rightarrow> 0 | Some e \<Rightarrow> strike_count e)"

definition v2_at :: "ServiceLedger \<Rightarrow> u64 \<Rightarrow> bool" where
  "v2_at L daa = (case window_v2_activation_daa L of None \<Rightarrow> False | Some a \<Rightarrow> a \<le> daa)"

definition reset_preserved_last_daa :: "ServiceLedger \<Rightarrow> hash \<Rightarrow> u64 \<Rightarrow> u64" where
  "reset_preserved_last_daa L identity daa =
     (if v2_at L daa
      then (case strike_state L identity of None \<Rightarrow> 0 | Some e \<Rightarrow> last_daa e)
      else 0)"

definition vault_claims :: "ServiceLedger \<Rightarrow> hash \<Rightarrow> EscrowClaim list" where
  "vault_claims L miner = (case bt_get (vault L) miner of None \<Rightarrow> [] | Some claims \<Rightarrow> claims)"

definition pending_len :: "ServiceLedger \<Rightarrow> nat" where
  "pending_len L = length (pending L)"

definition strike_entries :: "ServiceLedger \<Rightarrow> (hash \<times> u32 \<times> u64) list" where
  "strike_entries L =
     (let merged = fold (\<lambda>(m, e). bt_insert m e) (strikes L) (base L)
      in map (\<lambda>(m, e). (m, strike_count e, last_daa e))
           (filter (\<lambda>(m, e). strike_count e > 0) merged))"

definition set_base :: "(hash, StrikeEntry) btree \<Rightarrow> ServiceLedger \<Rightarrow> ServiceLedger" where
  "set_base b L = L\<lparr>base := b\<rparr>"

definition set_first_seen_base :: "(hash, u64) btree \<Rightarrow> ServiceLedger \<Rightarrow> ServiceLedger" where
  "set_first_seen_base b L = L\<lparr>first_seen_base := b\<rparr>"

definition set_window_v2_activation :: "u64 \<Rightarrow> ServiceLedger \<Rightarrow> ServiceLedger" where
  "set_window_v2_activation daa L = L\<lparr>window_v2_activation_daa := Some daa\<rparr>"

definition set_burnable_window :: "u64 \<Rightarrow> ServiceLedger \<Rightarrow> ServiceLedger" where
  "set_burnable_window daa L = L\<lparr>burnable_window_daa := Some daa\<rparr>"

definition set_reward_routing_activation :: "u64 \<Rightarrow> ServiceLedger \<Rightarrow> ServiceLedger" where
  "set_reward_routing_activation daa L = L\<lparr>reward_routing_daa := Some daa\<rparr>"

section \<open>Vault\<close>

type_synonym vault_map = "(hash, EscrowClaim list) btree"

definition claims_of :: "vault_map \<Rightarrow> hash \<Rightarrow> EscrowClaim list" where
  "claims_of V m = (case bt_get V m of None \<Rightarrow> [] | Some cs \<Rightarrow> cs)"

text \<open>\<open>vault.entry(miner).or_default().push_back(claim)\<close> and \<open>push_front\<close>.\<close>

definition vault_push_back :: "hash \<Rightarrow> EscrowClaim \<Rightarrow> vault_map \<Rightarrow> vault_map" where
  "vault_push_back m c V = bt_insert m (claims_of V m @ [c]) V"

definition vault_push_front :: "hash \<Rightarrow> EscrowClaim \<Rightarrow> vault_map \<Rightarrow> vault_map" where
  "vault_push_front m c V = bt_insert m (c # claims_of V m) V"

definition burn_vault :: "vault_map \<Rightarrow> hash \<Rightarrow> ServicePenalty \<Rightarrow> EscrowClaim list \<times> vault_map" where
  "burn_vault V miner penalty =
     (case bt_get V miner of
        None \<Rightarrow> ([], V)
      | Some claims \<Rightarrow>
          let n = (case penalty of
                     NoPenalty \<Rightarrow> 0
                   | BurnClaims k \<Rightarrow> min (unat k) (length claims)
                   | SlashAllPending \<Rightarrow> length claims
                   | Suspend \<Rightarrow> length claims);
              burned = take n (rev claims);
              rest = take (length claims - n) claims
          in (burned, if rest = [] then bt_remove miner V else bt_insert miner rest V))"

definition burn :: "ServiceLedger \<Rightarrow> hash \<Rightarrow> ServicePenalty \<Rightarrow> EscrowClaim list \<times> ServiceLedger" where
  "burn L miner penalty =
     (case burn_vault (vault L) miner penalty of (burned, V) \<Rightarrow> (burned, L\<lparr>vault := V\<rparr>))"

text \<open>The purge at the front of one miner's queue, then over the whole vault in key order.\<close>

fun pop_expired :: "u64 \<Rightarrow> u64 \<Rightarrow> EscrowClaim list \<Rightarrow> (EscrowClaim list \<times> EscrowClaim list) option" where
  "pop_expired burnable daa [] = Some ([], [])"
| "pop_expired burnable daa (c # cs) = do {
     limit \<leftarrow> checked_add (claim_daa c) burnable;
     if limit \<le> daa
     then do { (gone, rest) \<leftarrow> pop_expired burnable daa cs; Some (c # gone, rest) }
     else Some ([], c # cs)
   }"

fun expire_claims :: "u64 \<Rightarrow> u64 \<Rightarrow> vault_map \<Rightarrow> ((hash \<times> EscrowClaim) list \<times> vault_map) option" where
  "expire_claims burnable daa [] = Some ([], [])"
| "expire_claims burnable daa ((m, cs) # V) = do {
     (gone, rest) \<leftarrow> pop_expired burnable daa cs;
     (gone', V') \<leftarrow> expire_claims burnable daa V;
     Some (map (Pair m) gone @ gone', (m, rest) # V')
   }"

definition expire_vault :: "u64 \<Rightarrow> u64 \<Rightarrow> vault_map \<Rightarrow> ((hash \<times> EscrowClaim) list \<times> vault_map) option" where
  "expire_vault burnable daa V = do {
     (gone, V') \<leftarrow> expire_claims burnable daa V;
     Some (gone, bt_retain (\<lambda>_ claims. claims \<noteq> []) V')
   }"

section \<open>Phases of a fold\<close>

definition fold_producers :: "(hash \<times> ScriptPublicKey) list \<Rightarrow> ServiceLedger \<Rightarrow> ServiceLedger" where
  "fold_producers producers L =
     L\<lparr>producer_spk := fold (\<lambda>(identity, spk). bt_insert identity spk) producers (producer_spk L)\<rparr>"

definition fold_escrow ::
    "(TransactionOutpoint \<Rightarrow> bool) option \<Rightarrow> hash \<times> EscrowClaim
       \<Rightarrow> ServiceLedger \<times> hash list \<Rightarrow> ServiceLedger \<times> hash list" where
  "fold_escrow warmup_burned = (\<lambda>(miner, claim) (L, sighted).
     let (L, sighted) =
           (if warmup_burned = None \<and> \<not> bt_contains_key (first_seen L) miner
                 \<and> \<not> bt_contains_key (first_seen_base L) miner
            then (L\<lparr>first_seen := bt_insert miner (claim_daa claim) (first_seen L)\<rparr>, sighted @ [miner])
            else (L, sighted))
     in if (case warmup_burned of None \<Rightarrow> False | Some is_burned \<Rightarrow> is_burned (claim_outpoint claim))
        then (L, sighted)
        else (L\<lparr>vault := vault_push_back miner claim (vault L)\<rparr>, sighted))"

text \<open>\<open>retain(|_, v| stamp(v) + horizon > daa)\<close>.\<close>

fun retain_recent :: "('v \<Rightarrow> u64) \<Rightarrow> u64 \<Rightarrow> u64 \<Rightarrow> ('k, 'v) btree \<Rightarrow> ('k, 'v) btree option" where
  "retain_recent stamp horizon daa [] = Some []"
| "retain_recent stamp horizon daa ((k, v) # m) = do {
     limit \<leftarrow> checked_add (stamp v) horizon;
     m' \<leftarrow> retain_recent stamp horizon daa m;
     Some (if limit > daa then (k, v) # m' else m')
   }"

definition push_new :: "'a \<Rightarrow> 'a list \<Rightarrow> 'a list" where
  "push_new x xs = (if x \<in> set xs then xs else xs @ [x])"

definition admit_request ::
    "u64 \<Rightarrow> bool \<Rightarrow> (hash \<times> u64) list \<Rightarrow> hash \<times> u8 \<times> u32 \<Rightarrow> ServiceLedger \<Rightarrow> ServiceLedger" where
  "admit_request daa gated request_rewards = (\<lambda>(rh, tier, max_tokens) L.
     if gated \<and> bt_contains_key (audited L) rh then L
     else
       let L = (if gated then L\<lparr>audited := bt_insert rh daa (audited L)\<rparr> else L);
           early = (case bt_get (early_responses L) rh of None \<Rightarrow> [] | Some (_, keys) \<Rightarrow> keys);
           L = L\<lparr>early_responses := bt_remove rh (early_responses L)\<rparr>;
           entry = (case bt_get (pending L) rh of
                      Some r \<Rightarrow> r
                    | None \<Rightarrow> \<lparr>req_tier = tier, req_max_tokens = max_tokens, accepted_daa = daa,
                        req_reward = (case find (\<lambda>(h, _). h = rh) request_rewards of
                                        Some (_, v) \<Rightarrow> v | None \<Rightarrow> 0),
                        winner = None, audit = None, early_responders = []\<rparr>);
           entry = (if audit entry = None
                    then entry\<lparr>early_responders := fold push_new early (early_responders entry)\<rparr>
                    else entry)
       in L\<lparr>pending := bt_insert rh entry (pending L)\<rparr>)"

definition maybe_award ::
    "hash \<Rightarrow> hash \<Rightarrow> bool \<Rightarrow> ServiceLedger \<times> FoldOutcome \<Rightarrow> ServiceLedger \<times> FoldOutcome" where
  "maybe_award rh identity warmup = (\<lambda>(L, out).
     case reward_routing_daa L of
       None \<Rightarrow> (L, out)
     | Some routed_from \<Rightarrow>
         (case bt_get (pending L) rh of
            None \<Rightarrow> (L, out)
          | Some req \<Rightarrow>
              if accepted_daa req < routed_from \<or> winner req \<noteq> None \<or> req_reward req = 0
              then (L, out)
              else (L\<lparr>pending := bt_insert rh (req\<lparr>winner := Some identity\<rparr>) (pending L)\<rparr>,
                    if warmup then out
                    else out\<lparr>rewards := rewards out @
                      [\<lparr>reward_request = rh, reward_winner = identity, reward_amount = req_reward req,
                        reward_spk = bt_get (producer_spk L) identity\<rparr>]\<rparr>)))"

definition reset_served ::
    "u64 \<Rightarrow> bool \<Rightarrow> hash \<Rightarrow> ServiceLedger \<times> FoldOutcome \<Rightarrow> ServiceLedger \<times> FoldOutcome" where
  "reset_served daa warmup identity = (\<lambda>(L, out).
     if \<not> warmup \<and> (case strike_state L identity of None \<Rightarrow> False | Some e \<Rightarrow> strike_count e > 0)
     then let preserved = reset_preserved_last_daa L identity daa
          in (L\<lparr>strikes := bt_insert identity \<lparr>strike_count = 0, last_daa = preserved\<rparr> (strikes L)\<rparr>,
              out\<lparr>resets := resets out @ [(identity, preserved)]\<rparr>)
     else (L, out))"

text \<open>
  The identities behind an escrow key that a response newly credits: the accumulator is the pair of
  \<open>responded\<close> and the list of identities served now.
\<close>

definition credit_identity ::
    "hash list \<Rightarrow> hash \<Rightarrow> hash list \<times> hash list \<Rightarrow> hash list \<times> hash list" where
  "credit_identity ids identity = (\<lambda>(resp, served).
     if binary_search_ok ids identity \<and> identity \<notin> set resp
     then (resp @ [identity], served @ [identity])
     else (resp, served))"

definition credit_key ::
    "hash list \<Rightarrow> (hash \<times> hash) list \<Rightarrow> hash \<Rightarrow> hash list \<times> hash list \<Rightarrow> hash list \<times> hash list" where
  "credit_key ids dels key acc =
     fold (credit_identity ids) (map snd (filter (\<lambda>(e, _). e = key) dels)) acc"

definition fold_response ::
    "u64 \<Rightarrow> bool \<Rightarrow> hash \<times> hash option \<Rightarrow> ServiceLedger \<times> FoldOutcome \<Rightarrow> ServiceLedger \<times> FoldOutcome" where
  "fold_response daa warmup = (\<lambda>(rh, responder) (L, out).
     case responder of
       None \<Rightarrow> (L, out)
     | Some r \<Rightarrow>
         (case bt_get (pending L) rh of
            None \<Rightarrow>
              let (seen, keys) = (case bt_get (early_responses L) rh of
                                    Some entry \<Rightarrow> entry | None \<Rightarrow> (daa, []))
              in (L\<lparr>early_responses := bt_insert rh (seen, push_new r keys) (early_responses L)\<rparr>, out)
          | Some req \<Rightarrow>
              (case audit req of
                 None \<Rightarrow>
                   (L\<lparr>pending := bt_insert rh
                       (req\<lparr>early_responders := push_new r (early_responders req)\<rparr>) (pending L)\<rparr>, out)
               | Some a \<Rightarrow>
                   let (resp, served) = credit_key (cohort a) (delegations a) r (responded a, []);
                       L = L\<lparr>pending := bt_insert rh (req\<lparr>audit := Some (a\<lparr>responded := resp\<rparr>)\<rparr>) (pending L)\<rparr>;
                       (L, out) = (case served of [] \<Rightarrow> (L, out)
                                   | first # _ \<Rightarrow> maybe_award rh first warmup (L, out))
                   in fold (reset_served daa warmup) served (L, out))))"

text \<open>\<open>Iterator::min_by_key\<close>: the first of the least elements; then the eviction loop over it.\<close>

fun min_by_key :: "('a \<Rightarrow> 'k::linorder) \<Rightarrow> 'a list \<Rightarrow> 'a option" where
  "min_by_key f [] = None"
| "min_by_key f (x # xs) =
     (case min_by_key f xs of None \<Rightarrow> Some x | Some y \<Rightarrow> if f y < f x then Some y else Some x)"

lemma min_by_key_mem: "min_by_key f xs = Some x \<Longrightarrow> x \<in> set xs"
  by (induction xs arbitrary: x) (auto split: option.splits if_splits)

lemma min_by_key_None [simp]: "min_by_key f xs = None \<longleftrightarrow> xs = []"
  by (induction xs) (auto split: option.splits)

lemma min_by_key_least: "min_by_key f xs = Some x \<Longrightarrow> y \<in> set xs \<Longrightarrow> f x \<le> f y"
  by (induction xs arbitrary: x) (fastforce split: option.splits if_splits)+

function evict_early :: "(hash, u64 \<times> hash list) btree \<Rightarrow> (hash, u64 \<times> hash list) btree" where
  "evict_early m =
     (if length m > MAX_EARLY_RESPONSE_HASHES
      then (case min_by_key (\<lambda>(hash, seen, keys). (seen, hash)) m of
              None \<Rightarrow> m
            | Some (victim, _) \<Rightarrow> evict_early (bt_remove victim m))
      else m)"
  by auto

lemma length_bt_remove_mem: "k \<in> fst ` set m \<Longrightarrow> length (bt_remove k m) < length m"
  unfolding bt_remove_def by (auto intro: length_filter_less)

termination evict_early
  by (relation "measure length") (auto dest!: min_by_key_mem intro!: length_bt_remove_mem image_eqI)

declare evict_early.simps [simp del]

section \<open>Closing and arming audits\<close>

text \<open>Whether the miner's last strike is less than an interval old.\<close>

definition strike_guard :: "u64 \<Rightarrow> ServiceLedger \<Rightarrow> hash \<Rightarrow> bool option" where
  "strike_guard daa L miner =
     (case strike_state L miner of
        None \<Rightarrow> Some False
      | Some e \<Rightarrow>
          if last_daa e > 0
          then map_option (\<lambda>limit. daa < limit) (checked_add (last_daa e) SERVICE_STRIKE_INTERVAL_DAA)
          else Some False)"

definition strike_miner ::
    "u64 \<Rightarrow> (hash \<Rightarrow> bool) \<Rightarrow> hash \<Rightarrow> ServiceLedger \<times> FoldOutcome \<Rightarrow> hash
       \<Rightarrow> (ServiceLedger \<times> FoldOutcome) option" where
  "strike_miner daa is_established rh = (\<lambda>(L, out) miner. do {
     limited \<leftarrow> strike_guard daa L miner;
     if limited then Some (L, out)
     else do {
       count \<leftarrow> checked_add (consecutive_misses L miner) 1;
       let L = L\<lparr>strikes := bt_insert miner \<lparr>strike_count = count, last_daa = daa\<rparr> (strikes L)\<rparr>;
       let penalty = strike_penalty_at count (is_established miner) (v2_at L daa);
       let (burned, L) = burn L miner penalty;
       let L = (if penalty = Suspend
                then L\<lparr>strikes := bt_insert miner \<lparr>strike_count = 0, last_daa = daa\<rparr> (strikes L)\<rparr>
                else L);
       Some (L, out\<lparr>misses := misses out @
         [\<lparr>miss_request = rh, miss_miner = miner, miss_count = count, miss_penalty = penalty,
           miss_burned = burned\<rparr>]\<rparr>)
     }
   })"

definition close_audit ::
    "u64 \<Rightarrow> bool \<Rightarrow> (hash \<Rightarrow> bool) \<Rightarrow> hash \<Rightarrow> Audit \<Rightarrow> ServiceLedger \<times> FoldOutcome
       \<Rightarrow> (ServiceLedger \<times> FoldOutcome) option" where
  "close_audit daa warmup is_established rh a st = do {
     (L, out) \<leftarrow> (if warmup then Some st
                   else foldM (strike_miner daa is_established rh) st
                          (filter (\<lambda>m. m \<notin> set (responded a)) (cohort a)));
     Some (L\<lparr>pending := bt_remove rh (pending L)\<rparr>, out)
   }"

definition credit_early ::
    "hash list \<Rightarrow> (hash \<times> hash) list \<Rightarrow> hash list \<Rightarrow> hash list \<times> hash list \<Rightarrow> hash list \<times> hash list" where
  "credit_early ids dels early acc = fold (credit_key ids dels) early acc"

definition arm_audit ::
    "u64 \<Rightarrow> bool \<Rightarrow> (u8 \<Rightarrow> (hash \<times> hash) list) \<Rightarrow> hash \<Rightarrow> PendingRequest
       \<Rightarrow> (ServiceLedger \<times> FoldOutcome) \<times> hash list
       \<Rightarrow> ((ServiceLedger \<times> FoldOutcome) \<times> hash list) option" where
  "arm_audit daa warmup cohort_of rh req = (\<lambda>((L, out), served_at_arm).
     let pairs = cohort_of (req_tier req) in
     if pairs = [] then Some ((L\<lparr>pending := bt_remove rh (pending L)\<rparr>, out), served_at_arm)
     else
       let ids = dedup (sort (map fst pairs));
           dels = dedup (sort (map (\<lambda>(id, esc). (esc, id)) pairs));
           window = service_window_daa_at (req_tier req) (req_max_tokens req) (v2_at L daa);
           (resp, served_at_arm) = credit_early ids dels (early_responders req) ([], served_at_arm)
       in do {
         window_end \<leftarrow> checked_add daa window;
         let req' = req\<lparr>early_responders := [],
                        audit := Some \<lparr>cohort = ids, delegations = dels, responded = resp,
                                       window_end_daa = window_end\<rparr>\<rparr>;
         let L = L\<lparr>pending := bt_insert rh req' (pending L)\<rparr>;
         Some ((case resp of [] \<Rightarrow> (L, out) | first # _ \<Rightarrow> maybe_award rh first warmup (L, out)),
               served_at_arm)
       })"

definition fold_request ::
    "u64 \<Rightarrow> bool \<Rightarrow> (hash \<Rightarrow> bool) \<Rightarrow> (u8 \<Rightarrow> (hash \<times> hash) list)
       \<Rightarrow> (ServiceLedger \<times> FoldOutcome) \<times> hash list \<Rightarrow> hash
       \<Rightarrow> ((ServiceLedger \<times> FoldOutcome) \<times> hash list) option" where
  "fold_request daa warmup is_established cohort_of = (\<lambda>((L, out), served_at_arm) rh. do {
     req \<leftarrow> bt_get (pending L) rh;
     case audit req of
       Some a \<Rightarrow>
         if daa > window_end_daa a
         then map_option (\<lambda>st. (st, served_at_arm)) (close_audit daa warmup is_established rh a (L, out))
         else Some ((L, out), served_at_arm)
     | None \<Rightarrow>
         if daa > accepted_daa req
         then arm_audit daa warmup cohort_of rh req ((L, out), served_at_arm)
         else Some ((L, out), served_at_arm)
   })"

section \<open>The fold\<close>

definition fold_claims ::
    "u64 \<Rightarrow> (hash \<times> EscrowClaim) list \<Rightarrow> (TransactionOutpoint \<Rightarrow> bool) option \<Rightarrow> ServiceLedger
       \<Rightarrow> (ServiceLedger \<times> FoldOutcome) option" where
  "fold_claims daa escrows warmup_burned L = do {
     let (L, sighted) = fold (fold_escrow warmup_burned) escrows (L, []);
     let burnable = (case burnable_window_daa L of
                       None \<Rightarrow> SERVICE_BURNABLE_WINDOW_DAA | Some w \<Rightarrow> w);
     (gone, V) \<leftarrow> expire_vault burnable daa (vault L);
     Some (L\<lparr>vault := V\<rparr>, FoldOutcome_default\<lparr>sightings := sighted, expired := gone\<rparr>)
   }"

definition fold_requests ::
    "u64 \<Rightarrow> (hash \<times> u8 \<times> u32) list \<Rightarrow> (hash \<times> u64) list \<Rightarrow> ServiceLedger \<Rightarrow> ServiceLedger option" where
  "fold_requests daa requests request_rewards L = do {
     kept \<leftarrow> retain_recent accepted_daa SERVICE_LEDGER_HORIZON_DAA daa (pending L);
     early \<leftarrow> retain_recent fst SERVICE_EARLY_RESPONSE_HORIZON_DAA daa (early_responses L);
     let L = L\<lparr>pending := kept, early_responses := early\<rparr>;
     let gated = (case reward_routing_daa L of None \<Rightarrow> False | Some a \<Rightarrow> a \<le> daa);
     L \<leftarrow> (if gated
            then map_option (\<lambda>m. L\<lparr>audited := m\<rparr>)
                   (retain_recent id SERVICE_AUDITED_MEMORY_DAA daa (audited L))
            else Some L);
     Some (fold (admit_request daa gated request_rewards) requests L)
   }"

definition fold_responses ::
    "u64 \<Rightarrow> bool \<Rightarrow> (hash \<times> hash option) list \<Rightarrow> ServiceLedger \<times> FoldOutcome
       \<Rightarrow> ServiceLedger \<times> FoldOutcome" where
  "fold_responses daa warmup responses st =
     (let (L, out) = fold (fold_response daa warmup) responses st
      in (L\<lparr>early_responses := evict_early (early_responses L)\<rparr>, out))"

definition fold_audits ::
    "u64 \<Rightarrow> bool \<Rightarrow> (hash \<Rightarrow> bool) \<Rightarrow> (u8 \<Rightarrow> (hash \<times> hash) list)
       \<Rightarrow> ServiceLedger \<times> FoldOutcome \<Rightarrow> (ServiceLedger \<times> FoldOutcome) option" where
  "fold_audits daa warmup is_established cohort_of st = do {
     (st, served_at_arm) \<leftarrow>
       foldM (fold_request daa warmup is_established cohort_of) (st, []) (map fst (pending (fst st)));
     Some (fold (reset_served daa warmup) served_at_arm st)
   }"

definition fold_inner ::
    "u64 \<Rightarrow> (hash \<times> u8 \<times> u32) list \<Rightarrow> (hash \<times> u64) list \<Rightarrow> (hash \<times> hash option) list
       \<Rightarrow> (hash \<times> EscrowClaim) list \<Rightarrow> (hash \<times> ScriptPublicKey) list
       \<Rightarrow> (TransactionOutpoint \<Rightarrow> bool) option \<Rightarrow> (hash \<Rightarrow> bool) \<Rightarrow> (u8 \<Rightarrow> (hash \<times> hash) list)
       \<Rightarrow> ServiceLedger \<Rightarrow> (ServiceLedger \<times> FoldOutcome) option" where
  "fold_inner daa requests request_rewards responses escrows producers warmup_burned
     is_established cohort_of L = do {
     let warmup = (warmup_burned \<noteq> None);
     (L, out) \<leftarrow> fold_claims daa escrows warmup_burned (fold_producers producers L);
     L \<leftarrow> fold_requests daa requests request_rewards L;
     fold_audits daa warmup is_established cohort_of (fold_responses daa warmup responses (L, out))
   }"

definition on_chain_block_with_rewards ::
    "u64 \<Rightarrow> (hash \<times> u8 \<times> u32) list \<Rightarrow> (hash \<times> u64) list \<Rightarrow> (hash \<times> hash option) list
       \<Rightarrow> (hash \<times> EscrowClaim) list \<Rightarrow> (hash \<times> ScriptPublicKey) list
       \<Rightarrow> (hash \<Rightarrow> bool) \<Rightarrow> (u8 \<Rightarrow> (hash \<times> hash) list)
       \<Rightarrow> ServiceLedger \<Rightarrow> (ServiceLedger \<times> FoldOutcome) option" where
  "on_chain_block_with_rewards daa requests request_rewards responses escrows producers
     is_established cohort_of L =
     fold_inner daa requests request_rewards responses escrows producers None is_established cohort_of L"

definition on_chain_block ::
    "u64 \<Rightarrow> (hash \<times> u8 \<times> u32) list \<Rightarrow> (hash \<times> hash option) list \<Rightarrow> (hash \<times> EscrowClaim) list
       \<Rightarrow> (hash \<Rightarrow> bool) \<Rightarrow> (u8 \<Rightarrow> (hash \<times> hash) list)
       \<Rightarrow> ServiceLedger \<Rightarrow> (ServiceLedger \<times> FoldOutcome) option" where
  "on_chain_block daa requests responses escrows is_established cohort_of L =
     fold_inner daa requests [] responses escrows [] None is_established cohort_of L"

definition on_chain_block_warmup_with_rewards ::
    "u64 \<Rightarrow> (hash \<times> u8 \<times> u32) list \<Rightarrow> (hash \<times> u64) list \<Rightarrow> (hash \<times> hash option) list
       \<Rightarrow> (hash \<times> EscrowClaim) list \<Rightarrow> (hash \<times> ScriptPublicKey) list
       \<Rightarrow> (TransactionOutpoint \<Rightarrow> bool) \<Rightarrow> (u8 \<Rightarrow> (hash \<times> hash) list)
       \<Rightarrow> ServiceLedger \<Rightarrow> ServiceLedger option" where
  "on_chain_block_warmup_with_rewards daa requests request_rewards responses escrows producers
     is_burned cohort_of L =
     map_option fst (fold_inner daa requests request_rewards responses escrows producers
       (Some is_burned) (\<lambda>_. True) cohort_of L)"

definition on_chain_block_warmup ::
    "u64 \<Rightarrow> (hash \<times> u8 \<times> u32) list \<Rightarrow> (hash \<times> hash option) list \<Rightarrow> (hash \<times> EscrowClaim) list
       \<Rightarrow> (TransactionOutpoint \<Rightarrow> bool) \<Rightarrow> (u8 \<Rightarrow> (hash \<times> hash) list)
       \<Rightarrow> ServiceLedger \<Rightarrow> ServiceLedger option" where
  "on_chain_block_warmup daa requests responses escrows is_burned cohort_of L =
     map_option fst (fold_inner daa requests [] responses escrows [] (Some is_burned) (\<lambda>_. True)
       cohort_of L)"

end
