(* ===== verification/Service_Vault.thy ===== *)
theory Service_Vault
  imports Service_Fold
begin

text \<open>
  The escrow vault of the service ledger: what each vault operation does to one miner's queue, and
  \<^verbatim>\<open>ServiceLedger::undo_vault\<close>, \<^verbatim>\<open>light_snapshot\<close> and \<^verbatim>\<open>restore_light\<close> of
  \<^verbatim>\<open>src/consensus/core/src/collateral.rs\<close>.
\<close>

section \<open>Undo and light snapshots\<close>

record LightSnapshot =
  snap_pending :: "(hash, PendingRequest) btree"
  snap_early_responses :: "(hash, u64 \<times> hash list) btree"
  snap_strikes :: "(hash, StrikeEntry) btree"
  snap_first_seen :: "(hash, u64) btree"
  snap_base :: "(hash, StrikeEntry) btree"
  snap_first_seen_base :: "(hash, u64) btree"
  snap_producer_spk :: "(hash, ScriptPublicKey) btree"
  snap_audited :: "(hash, u64) btree"

definition light_snapshot :: "ServiceLedger \<Rightarrow> LightSnapshot" where
  "light_snapshot L = \<lparr>snap_pending = pending L, snap_early_responses = early_responses L,
     snap_strikes = strikes L, snap_first_seen = first_seen L, snap_base = base L,
     snap_first_seen_base = first_seen_base L, snap_producer_spk = producer_spk L,
     snap_audited = audited L\<rparr>"

definition restore_light :: "LightSnapshot \<Rightarrow> ServiceLedger \<Rightarrow> ServiceLedger" where
  "restore_light S L = L\<lparr>pending := snap_pending S, early_responses := snap_early_responses S,
     strikes := snap_strikes S, first_seen := snap_first_seen S, base := snap_base S,
     first_seen_base := snap_first_seen_base S, producer_spk := snap_producer_spk S,
     audited := snap_audited S\<rparr>"

definition undo_miss :: "ServiceMiss \<Rightarrow> vault_map \<Rightarrow> vault_map" where
  "undo_miss miss V = fold (vault_push_back (miss_miner miss)) (rev (miss_burned miss)) V"

text \<open>The debug assertion that the popped claim is the added one counts as a panic.\<close>

definition undo_add :: "vault_map \<Rightarrow> hash \<times> EscrowClaim \<Rightarrow> vault_map option" where
  "undo_add V = (\<lambda>(miner, claim). do {
     claims \<leftarrow> bt_get V miner;
     if claims = [] \<or> last claims \<noteq> claim then None
     else Some (if butlast claims = [] then bt_remove miner V else bt_insert miner (butlast claims) V)
   })"

definition undo_vault ::
    "(hash \<times> EscrowClaim) list \<Rightarrow> ServiceMiss list \<Rightarrow> (hash \<times> EscrowClaim) list
       \<Rightarrow> ServiceLedger \<Rightarrow> ServiceLedger option" where
  "undo_vault added missed gone L = do {
     let V = fold undo_miss (rev missed) (vault L);
     let V = fold (\<lambda>(miner, claim). vault_push_front miner claim) (rev gone) V;
     V \<leftarrow> foldM undo_add V (rev added);
     Some (L\<lparr>vault := V\<rparr>)
   }"

section \<open>Queues of the vault\<close>

text \<open>A vault never holds an empty queue, so it is determined by the queues.\<close>

definition vault_wf :: "vault_map \<Rightarrow> bool" where
  "vault_wf V \<longleftrightarrow> bt_wf V \<and> (\<forall>p\<in>set V. snd p \<noteq> [])"

lemma vault_wf_bt [simp]: "vault_wf V \<Longrightarrow> bt_wf V"
  by (simp add: vault_wf_def)

lemma vault_wf_get: "vault_wf V \<Longrightarrow> bt_get V m \<noteq> Some []"
  by (fastforce simp: vault_wf_def dest: map_of_SomeD)

lemma vault_wfI:
  assumes "bt_wf V" and "\<And>m. bt_get V m \<noteq> Some []"
  shows "vault_wf V"
  unfolding vault_wf_def
proof (intro conjI ballI)
  fix p assume "p \<in> set V"
  then have "bt_get V (fst p) = Some (snd p)" using assms(1) by (simp add: bt_wf_distinct)
  then show "snd p \<noteq> []" using assms(2) by force
qed (rule assms(1))

lemma bt_get_claims_of:
  "vault_wf V \<Longrightarrow> bt_get V m = (if claims_of V m = [] then None else Some (claims_of V m))"
  using vault_wf_get [of V m] by (auto simp: claims_of_def split: option.splits)

lemma vault_ext: "vault_wf V \<Longrightarrow> vault_wf W \<Longrightarrow> claims_of V = claims_of W \<Longrightarrow> V = W"
  by (intro bt_ext ext) (simp_all add: bt_get_claims_of)

lemma vault_put:
  assumes "vault_wf V" and "cs \<noteq> []"
  shows "vault_wf (bt_insert m cs V)" and "claims_of (bt_insert m cs V) = (claims_of V)(m := cs)"
  using assms by (auto intro!: vault_wfI simp: vault_wf_get claims_of_def split: if_splits)

lemma vault_drop:
  assumes "vault_wf V"
  shows "vault_wf (bt_remove m V)" and "claims_of (bt_remove m V) = (claims_of V)(m := [])"
  using assms by (auto intro!: vault_wfI simp: vault_wf_get claims_of_def split: if_splits)

lemma vault_set:
  assumes "vault_wf V"
  shows "vault_wf (if cs = [] then bt_remove m V else bt_insert m cs V)"
    and "claims_of (if cs = [] then bt_remove m V else bt_insert m cs V) = (claims_of V)(m := cs)"
  using assms by (simp_all add: vault_put vault_drop)

lemma vault_push_back [simp]:
  assumes "vault_wf V"
  shows "vault_wf (vault_push_back m c V)"
    and "claims_of (vault_push_back m c V) = (claims_of V)(m := claims_of V m @ [c])"
  using assms by (simp_all add: vault_push_back_def vault_put)

lemma vault_push_front [simp]:
  assumes "vault_wf V"
  shows "vault_wf (vault_push_front m c V)"
    and "claims_of (vault_push_front m c V) = (claims_of V)(m := c # claims_of V m)"
  using assms by (simp_all add: vault_push_front_def vault_put)

text \<open>The claims a log of \<open>(miner, claim)\<close> pairs holds for one miner, in log order.\<close>

definition log_of :: "(hash \<times> EscrowClaim) list \<Rightarrow> hash \<Rightarrow> EscrowClaim list" where
  "log_of log m = map snd (filter (\<lambda>p. fst p = m) log)"

lemma log_of_simps [simp]:
  "log_of [] m = []"
  "log_of ((m', c) # log) m = (if m' = m then c # log_of log m else log_of log m)"
  "log_of (xs @ ys) m = log_of xs m @ log_of ys m"
  by (auto simp: log_of_def)

lemma vault_push_back_all:
  "vault_wf V \<Longrightarrow> vault_wf (fold (\<lambda>(m, c). vault_push_back m c) log V)
     \<and> claims_of (fold (\<lambda>(m, c). vault_push_back m c) log V) = (\<lambda>m. claims_of V m @ log_of log m)"
  by (induction log arbitrary: V) (auto simp: fun_eq_iff)

lemma vault_push_front_all:
  "vault_wf V \<Longrightarrow> vault_wf (fold (\<lambda>(m, c). vault_push_front m c) (rev log) V)
     \<and> claims_of (fold (\<lambda>(m, c). vault_push_front m c) (rev log) V) = (\<lambda>m. log_of log m @ claims_of V m)"
  by (induction log arbitrary: V) (auto simp: fun_eq_iff)

section \<open>Burning\<close>

definition burn_count :: "ServicePenalty \<Rightarrow> nat \<Rightarrow> nat" where
  "burn_count penalty n =
     (case penalty of NoPenalty \<Rightarrow> 0 | BurnClaims k \<Rightarrow> min (unat k) n
      | SlashAllPending \<Rightarrow> n | Suspend \<Rightarrow> n)"

lemma burn_count_le: "burn_count penalty n \<le> n"
  by (simp add: burn_count_def split: ServicePenalty.splits)

lemma burn_vault_queues:
  assumes wf: "vault_wf V" and burn: "burn_vault V m penalty = (burned, V')"
  shows "vault_wf V'" and "claims_of V m = claims_of V' m @ rev burned"
    and "length burned = burn_count penalty (length (claims_of V m))"
    and "\<And>m'. m' \<noteq> m \<Longrightarrow> claims_of V' m' = claims_of V m'"
proof -
  have *: "vault_wf V' \<and> claims_of V m = claims_of V' m @ rev burned
      \<and> length burned = burn_count penalty (length (claims_of V m))
      \<and> (\<forall>m'. m' \<noteq> m \<longrightarrow> claims_of V' m' = claims_of V m')"
  proof (cases "bt_get V m")
    case None
    then show ?thesis
      using burn wf by (auto simp: burn_vault_def claims_of_def burn_count_def split: ServicePenalty.splits)
  next
    case (Some claims)
    define n where "n = burn_count penalty (length claims)"
    have le: "n \<le> length claims" by (simp add: n_def burn_count_le)
    have "burned = take n (rev claims)"
      and V': "V' = (if take (length claims - n) claims = [] then bt_remove m V
                     else bt_insert m (take (length claims - n) claims) V)"
      using burn Some unfolding burn_vault_def burn_count_def [symmetric] n_def
      by (simp_all add: Let_def)
    then have b: "rev burned = drop (length claims - n) claims" by (simp add: rev_take)
    moreover have "length burned = n" using b le by (metis diff_diff_cancel length_drop length_rev)
    moreover have "claims_of V m = claims" using Some by (simp add: claims_of_def)
    moreover have "vault_wf V'" "claims_of V' = (claims_of V)(m := take (length claims - n) claims)"
      unfolding V' by (rule vault_set [OF wf])+
    ultimately show ?thesis by (simp add: n_def)
  qed
  from * show "vault_wf V'" by blast
  from * show "claims_of V m = claims_of V' m @ rev burned" by blast
  from * show "length burned = burn_count penalty (length (claims_of V m))" by blast
  from * show "\<And>m'. m' \<noteq> m \<Longrightarrow> claims_of V' m' = claims_of V m'" by blast
qed

text \<open>A sequence of misses, each burning what its penalty takes from the vault it meets.\<close>

fun burns_by :: "vault_map \<Rightarrow> ServiceMiss list \<Rightarrow> vault_map \<Rightarrow> bool" where
  "burns_by V [] W \<longleftrightarrow> W = V"
| "burns_by V (miss # ms) W \<longleftrightarrow>
     (\<exists>V'. burn_vault V (miss_miner miss) (miss_penalty miss) = (miss_burned miss, V') \<and> burns_by V' ms W)"

lemma burns_by_snoc:
  "burns_by V (ms @ [miss]) W \<longleftrightarrow>
     (\<exists>V'. burns_by V ms V' \<and> burn_vault V' (miss_miner miss) (miss_penalty miss) = (miss_burned miss, W))"
  by (induction ms arbitrary: V) auto

lemma undo_miss_queues:
  assumes "vault_wf V"
  shows "vault_wf (undo_miss miss V)"
    and "claims_of (undo_miss miss V) =
      (claims_of V)(miss_miner miss := claims_of V (miss_miner miss) @ rev (miss_burned miss))"
proof -
  have "vault_wf (fold (vault_push_back m) cs V) \<and>
        claims_of (fold (vault_push_back m) cs V) = (claims_of V)(m := claims_of V m @ cs)" for m cs
    using assms by (induction cs arbitrary: V) (auto simp: fun_eq_iff)
  then show "vault_wf (undo_miss miss V)"
    "claims_of (undo_miss miss V) =
      (claims_of V)(miss_miner miss := claims_of V (miss_miner miss) @ rev (miss_burned miss))"
    by (simp_all add: undo_miss_def)
qed

lemma undo_burns:
  "vault_wf V \<Longrightarrow> burns_by V ms W \<Longrightarrow> vault_wf W \<and> fold undo_miss (rev ms) W = V"
proof (induction ms arbitrary: V)
  case Nil
  then show ?case by simp
next
  case (Cons miss ms)
  from Cons.prems(2) obtain V' where
    b: "burn_vault V (miss_miner miss) (miss_penalty miss) = (miss_burned miss, V')"
    and t: "burns_by V' ms W" by auto
  note q = burn_vault_queues [OF Cons.prems(1) b]
  note ih = Cons.IH [OF q(1) t]
  have "undo_miss miss V' = V"
  proof (rule vault_ext)
    show "claims_of (undo_miss miss V') = claims_of V"
    proof
      fix m show "claims_of (undo_miss miss V') m = claims_of V m"
        using q(2,4) by (cases "m = miss_miner miss") (simp_all add: undo_miss_queues q(1))
    qed
  qed (simp_all add: undo_miss_queues q(1) Cons.prems(1))
  then show ?case using ih by simp
qed

section \<open>Expiry\<close>

lemma pop_expired_split:
  "pop_expired burnable daa cs = Some (gone, rest) \<Longrightarrow> cs = gone @ rest
     \<and> (\<forall>c\<in>set gone. unat (claim_daa c) + unat burnable \<le> unat daa)
     \<and> (rest = [] \<or> unat daa < unat (claim_daa (hd rest)) + unat burnable)"
  by (induction cs arbitrary: gone rest)
    (auto simp: bind_eq_Some_conv checked_add_eq_Some word_le_nat_alt split: if_splits)

lemma expire_claims_queues:
  assumes "bt_wf V" and "expire_claims burnable daa V = Some (gone, V')"
  shows "map fst V' = map fst V \<and> (\<forall>m. claims_of V m = log_of gone m @ claims_of V' m)
    \<and> (\<forall>m. claims_of V' m = [] \<or> unat daa < unat (claim_daa (hd (claims_of V' m))) + unat burnable)
    \<and> (\<forall>p\<in>set gone. unat (claim_daa (snd p)) + unat burnable \<le> unat daa)"
  using assms
proof (induction V arbitrary: gone V')
  case Nil
  then show ?case by (simp add: claims_of_def)
next
  case (Cons p V)
  obtain m cs where [simp]: "p = (m, cs)" by force
  from Cons.prems obtain g r g' W where
    pop: "pop_expired burnable daa cs = Some (g, r)"
    and rec: "expire_claims burnable daa V = Some (g', W)"
    and eqs: "gone = map (Pair m) g @ g'" "V' = (m, r) # W"
    by (auto simp: bind_eq_Some_conv)
  note sp = pop_expired_split [OF pop]
  have wf: "bt_wf V" and fresh: "\<forall>q\<in>set V. m < fst q" using Cons.prems(1) by simp_all
  note ih = Cons.IH [OF wf rec]
  have keys: "m \<notin> fst ` set V" using fresh by auto
  then have "bt_get V m = None" by (simp add: map_of_eq_None_iff)
  then have nil: "claims_of V m = []" by (simp add: claims_of_def)
  with ih have g'm: "log_of g' m = []" by (metis append_is_Nil_conv)
  have pre: "log_of (map (Pair m) g) m' = (if m' = m then g else [])" for m'
    by (induction g) auto
  have cV: "claims_of ((m, cs') # V') m' = (if m' = m then cs' else claims_of V' m')" for cs' V' m'
    by (simp add: claims_of_def)
  show ?case using ih sp g'm by (auto simp: eqs pre cV)
qed

lemma expire_vault_queues:
  assumes "bt_wf V" and "expire_vault burnable daa V = Some (gone, W)"
  shows "vault_wf W" and "claims_of V m = log_of gone m @ claims_of W m"
    and "claims_of W m = [] \<or> unat daa < unat (claim_daa (hd (claims_of W m))) + unat burnable"
    and "p \<in> set gone \<Longrightarrow> unat (claim_daa (snd p)) + unat burnable \<le> unat daa"
proof -
  from assms(2) obtain V' where rec: "expire_claims burnable daa V = Some (gone, V')"
    and W: "W = bt_retain (\<lambda>_ claims. claims \<noteq> []) V'"
    by (auto simp: expire_vault_def bind_eq_Some_conv)
  note q = expire_claims_queues [OF assms(1) rec]
  have wf': "bt_wf V'" using q assms(1) by (simp add: bt_wf_def)
  have eq: "claims_of W m = claims_of V' m" for m
    using wf' by (simp add: W claims_of_def bt_get_retain split: option.splits)
  show "vault_wf W"
    using wf' by (intro vault_wfI) (simp_all add: W bt_get_retain split: option.splits)
  show "claims_of V m = log_of gone m @ claims_of W m"
    "claims_of W m = [] \<or> unat daa < unat (claim_daa (hd (claims_of W m))) + unat burnable"
    "p \<in> set gone \<Longrightarrow> unat (claim_daa (snd p)) + unat burnable \<le> unat daa"
    using q by (simp_all add: eq)
qed

lemma undo_expiry:
  assumes "vault_wf V" and "expire_vault burnable daa V = Some (gone, W)"
  shows "fold (\<lambda>(m, c). vault_push_front m c) (rev gone) W = V"
proof -
  note q = expire_vault_queues [OF vault_wf_bt [OF assms(1)] assms(2)]
  show ?thesis
    using vault_push_front_all [OF q(1), of gone] assms(1) q(2) by (intro vault_ext) auto
qed

section \<open>Undoing additions\<close>

lemma undo_adds:
  "vault_wf V \<Longrightarrow> foldM undo_add (fold (\<lambda>(m, c). vault_push_back m c) log V) (rev log) = Some V"
proof (induction log rule: rev_induct)
  case Nil
  then show ?case by simp
next
  case (snoc p log)
  obtain m c where [simp]: "p = (m, c)" by force
  define W where "W = fold (\<lambda>(m, c). vault_push_back m c) log V"
  have wf: "vault_wf W" using vault_push_back_all [OF snoc.prems, of log] by (simp add: W_def)
  have "(if claims_of W m = [] then bt_remove m (vault_push_back m c W)
         else bt_insert m (claims_of W m) (vault_push_back m c W)) = W"
    using vault_set [of "vault_push_back m c W" "claims_of W m" m] wf
    by (intro vault_ext) (simp_all add: fun_eq_iff)
  moreover have "bt_get (vault_push_back m c W) m = Some (claims_of W m @ [c])"
    by (simp add: vault_push_back_def)
  ultimately have "undo_add (vault_push_back m c W) p = Some W"
    by (simp add: undo_add_def split: if_splits)
  then show ?case using snoc by (simp add: W_def [symmetric])
qed

end
