(* ===== verification/Service_Snapshot.thy ===== *)
theory Service_Snapshot
  imports Service_Vault
begin

text \<open>
  \<^verbatim>\<open>ServiceLedgerSnapshot\<close> of \<^verbatim>\<open>src/consensus/core/src/collateral.rs\<close>: its canonical byte form, the
  \<^verbatim>\<open>Reader\<close> and \<^verbatim>\<open>from_bytes\<close>, and \<^verbatim>\<open>ServiceLedger::snapshot\<close> and \<^verbatim>\<open>restore_snapshot\<close>.
  A reader is a function from the bytes still unread to an error message or a value and the rest.
  Request hashes (\<^verbatim>\<open>[u8; 32]\<close>) and \<^verbatim>\<open>Hash\<close> are both \<^typ>\<open>hash\<close>: the two order their bytes the same way.
\<close>

section \<open>Snapshots\<close>

record ServiceLedgerSnapshot =
  s_vault :: "(hash, EscrowClaim list) btree"
  s_pending :: "(hash, PendingRequest) btree"
  s_early_responses :: "(hash, u64 \<times> hash list) btree"
  s_strikes :: "(hash, StrikeEntry) btree"
  s_first_seen :: "(hash, u64) btree"
  s_audited :: "(hash, u64) btree"
  s_producer_spk :: "(hash, ScriptPublicKey) btree"
  s_recent_producers :: "(u64 \<times> hash \<times> u8 \<times> hash) list"

definition SNAPSHOT_ENCODING_VERSION :: u8 where "SNAPSHOT_ENCODING_VERSION = 1"

definition snapshot :: "ServiceLedger \<Rightarrow> ServiceLedgerSnapshot" where
  "snapshot L = \<lparr>s_vault = vault L, s_pending = pending L, s_early_responses = early_responses L,
     s_strikes = fold (\<lambda>(m, e). bt_insert m e) (strikes L) (base L),
     s_first_seen = fold (\<lambda>(m, d). bt_insert m d) (first_seen L) (first_seen_base L),
     s_audited = audited L, s_producer_spk = producer_spk L, s_recent_producers = []\<rparr>"

definition restore_snapshot :: "ServiceLedgerSnapshot \<Rightarrow> ServiceLedger \<Rightarrow> ServiceLedger" where
  "restore_snapshot s L = L\<lparr>vault := s_vault s, pending := s_pending s,
     early_responses := s_early_responses s, strikes := s_strikes s, base := [],
     first_seen := s_first_seen s, first_seen_base := [], audited := s_audited s,
     producer_spk := s_producer_spk s\<rparr>"

section \<open>Encoding\<close>

text \<open>\<open>(n as u32).to_le_bytes()\<close> of a length.\<close>

definition put_len :: "nat \<Rightarrow> u8 list" where
  "put_len n = to_le 4 (word_of_nat n :: u32)"

definition put_hashes :: "hash list \<Rightarrow> u8 list" where
  "put_hashes hashes = put_len (length hashes) @ concat (map hash_bytes hashes)"

definition put_claim :: "EscrowClaim \<Rightarrow> u8 list" where
  "put_claim c = hash_bytes (transaction_id (claim_outpoint c))
     @ to_le 4 (outpoint_index (claim_outpoint c)) @ to_le 8 (claim_value c) @ to_le 8 (claim_daa c)"

definition put_vault_entry :: "hash \<times> EscrowClaim list \<Rightarrow> u8 list" where
  "put_vault_entry = (\<lambda>(miner, claims).
     hash_bytes miner @ put_len (length claims) @ concat (map put_claim claims))"

definition put_delegation :: "hash \<times> hash \<Rightarrow> u8 list" where
  "put_delegation = (\<lambda>(e, id). hash_bytes e @ hash_bytes id)"

definition put_winner :: "hash option \<Rightarrow> u8 list" where
  "put_winner w = (case w of Some h \<Rightarrow> 1 # hash_bytes h | None \<Rightarrow> [0])"

definition put_audit :: "Audit option \<Rightarrow> u8 list" where
  "put_audit a = (case a of
     Some a \<Rightarrow> 1 # put_hashes (cohort a) @ put_len (length (delegations a))
       @ concat (map put_delegation (delegations a)) @ put_hashes (responded a)
       @ to_le 8 (window_end_daa a)
   | None \<Rightarrow> [0])"

definition put_request :: "hash \<times> PendingRequest \<Rightarrow> u8 list" where
  "put_request = (\<lambda>(rh, r). hash_bytes rh @ [req_tier r] @ to_le 4 (req_max_tokens r)
     @ to_le 8 (accepted_daa r) @ to_le 8 (req_reward r) @ put_winner (winner r)
     @ put_audit (audit r) @ put_hashes (early_responders r))"

definition put_early :: "hash \<times> u64 \<times> hash list \<Rightarrow> u8 list" where
  "put_early = (\<lambda>(rh, seen, keys). hash_bytes rh @ to_le 8 seen @ put_hashes keys)"

definition put_strike :: "hash \<times> StrikeEntry \<Rightarrow> u8 list" where
  "put_strike = (\<lambda>(m, e). hash_bytes m @ to_le 4 (strike_count e) @ to_le 8 (last_daa e))"

definition put_dated :: "hash \<times> u64 \<Rightarrow> u8 list" where
  "put_dated = (\<lambda>(m, daa). hash_bytes m @ to_le 8 daa)"

definition put_spk :: "hash \<times> ScriptPublicKey \<Rightarrow> u8 list" where
  "put_spk = (\<lambda>(m, spk). hash_bytes m @ to_le 2 (spk_version spk)
     @ to_le 2 (word_of_nat (length (spk_script spk)) :: u16) @ spk_script spk)"

definition put_producer :: "u64 \<times> hash \<times> u8 \<times> hash \<Rightarrow> u8 list" where
  "put_producer = (\<lambda>(daa, id, tier, escrow). to_le 8 daa @ hash_bytes id @ [tier] @ hash_bytes escrow)"

text \<open>A length followed by the encoded entries.\<close>

definition put_all :: "('a \<Rightarrow> u8 list) \<Rightarrow> 'a list \<Rightarrow> u8 list" where
  "put_all enc xs = put_len (length xs) @ concat (map enc xs)"

definition to_bytes :: "ServiceLedgerSnapshot \<Rightarrow> u8 list" where
  "to_bytes s = [SNAPSHOT_ENCODING_VERSION] @ put_all put_vault_entry (s_vault s)
     @ put_all put_request (s_pending s) @ put_all put_early (s_early_responses s)
     @ put_all put_strike (s_strikes s) @ put_all put_dated (s_first_seen s)
     @ put_all put_dated (s_audited s) @ put_all put_spk (s_producer_spk s)
     @ put_all put_producer (s_recent_producers s)"

section \<open>Decoding\<close>

type_synonym 'a reader = "u8 list \<Rightarrow> string + 'a \<times> u8 list"

definition take_bytes :: "nat \<Rightarrow> u8 list reader" where
  "take_bytes n bs =
     (if n \<le> length bs then Inr (take n bs, drop n bs) else Inl ''truncated snapshot'')"

definition read_le :: "nat \<Rightarrow> 'a::len word reader" where
  "read_le n bs = res_bind (take_bytes n bs) (\<lambda>(s, bs). Inr (from_le s, bs))"

definition read_u8 :: "u8 reader" where
  "read_u8 bs = res_bind (take_bytes 1 bs) (\<lambda>(s, bs). Inr (s ! 0, bs))"

definition read_u16 :: "u16 reader" where "read_u16 = read_le 2"
definition read_u32 :: "u32 reader" where "read_u32 = read_le 4"
definition read_u64 :: "u64 reader" where "read_u64 = read_le 8"

definition read_hash :: "hash reader" where
  "read_hash bs = res_bind (take_bytes 32 bs) (\<lambda>(s, bs). Inr (hash_of_bytes s, bs))"

primrec read_many :: "nat \<Rightarrow> 'a reader \<Rightarrow> 'a list reader" where
  "read_many 0 rd bs = Inr ([], bs)"
| "read_many (Suc n) rd bs = res_bind (rd bs) (\<lambda>(x, bs).
     res_bind (read_many n rd bs) (\<lambda>(xs, bs). Inr (x # xs, bs)))"

definition read_counted :: "'a reader \<Rightarrow> 'a list reader" where
  "read_counted rd bs = res_bind (read_u32 bs) (\<lambda>(n, bs). read_many (unat n) rd bs)"

definition read_hashes :: "hash list reader" where
  "read_hashes = read_counted read_hash"

text \<open>The loops that fill a map: a key that is already present is an error.\<close>

primrec read_entries ::
    "string \<Rightarrow> nat \<Rightarrow> ('k::linorder \<times> 'v) reader \<Rightarrow> ('k, 'v) btree \<Rightarrow> ('k, 'v) btree reader" where
  "read_entries err 0 rd m bs = Inr (m, bs)"
| "read_entries err (Suc n) rd m bs = res_bind (rd bs) (\<lambda>((k, v), bs).
     if bt_contains_key m k then Inl err else read_entries err n rd (bt_insert k v m) bs)"

definition read_map :: "string \<Rightarrow> ('k::linorder \<times> 'v) reader \<Rightarrow> ('k, 'v) btree reader" where
  "read_map err rd bs = res_bind (read_u32 bs) (\<lambda>(n, bs). read_entries err (unat n) rd [] bs)"

definition read_claim :: "EscrowClaim reader" where
  "read_claim bs =
     res_bind (read_hash bs) (\<lambda>(txid, bs). res_bind (read_u32 bs) (\<lambda>(index, bs).
     res_bind (read_u64 bs) (\<lambda>(value, bs). res_bind (read_u64 bs) (\<lambda>(daa, bs).
     Inr (\<lparr>claim_outpoint = TransactionOutpoint_new txid index, claim_value = value, claim_daa = daa\<rparr>, bs)))))"

definition read_vault_entry :: "(hash \<times> EscrowClaim list) reader" where
  "read_vault_entry bs =
     res_bind (read_hash bs) (\<lambda>(miner, bs). res_bind (read_counted read_claim bs) (\<lambda>(claims, bs).
     if claims = [] then Inl ''malformed vault'' else Inr ((miner, claims), bs)))"

definition read_delegation :: "(hash \<times> hash) reader" where
  "read_delegation bs =
     res_bind (read_hash bs) (\<lambda>(e, bs). res_bind (read_hash bs) (\<lambda>(id, bs). Inr ((e, id), bs)))"

definition read_winner :: "hash option reader" where
  "read_winner bs = res_bind (read_u8 bs) (\<lambda>(tag, bs).
     if tag = 0 then Inr (None, bs)
     else if tag = 1 then res_bind (read_hash bs) (\<lambda>(w, bs). Inr (Some w, bs))
     else Inl ''malformed winner'')"

definition read_audit :: "Audit option reader" where
  "read_audit bs = res_bind (read_u8 bs) (\<lambda>(tag, bs).
     if tag = 0 then Inr (None, bs)
     else if tag = 1 then
       res_bind (read_hashes bs) (\<lambda>(ids, bs). res_bind (read_counted read_delegation bs) (\<lambda>(dels, bs).
       res_bind (read_hashes bs) (\<lambda>(resp, bs). res_bind (read_u64 bs) (\<lambda>(w, bs).
       Inr (Some \<lparr>cohort = ids, delegations = dels, responded = resp, window_end_daa = w\<rparr>, bs)))))
     else Inl ''malformed audit'')"

definition read_request :: "(hash \<times> PendingRequest) reader" where
  "read_request bs =
     res_bind (read_hash bs) (\<lambda>(rh, bs). res_bind (read_u8 bs) (\<lambda>(tier, bs).
     res_bind (read_u32 bs) (\<lambda>(max_tokens, bs). res_bind (read_u64 bs) (\<lambda>(accepted, bs).
     res_bind (read_u64 bs) (\<lambda>(reward, bs). res_bind (read_winner bs) (\<lambda>(w, bs).
     res_bind (read_audit bs) (\<lambda>(a, bs). res_bind (read_hashes bs) (\<lambda>(early, bs).
     Inr ((rh, \<lparr>req_tier = tier, req_max_tokens = max_tokens, accepted_daa = accepted,
                req_reward = reward, winner = w, audit = a, early_responders = early\<rparr>), bs)))))))))"

definition read_early :: "(hash \<times> u64 \<times> hash list) reader" where
  "read_early bs =
     res_bind (read_hash bs) (\<lambda>(rh, bs). res_bind (read_u64 bs) (\<lambda>(seen, bs).
     res_bind (read_hashes bs) (\<lambda>(keys, bs). Inr ((rh, seen, keys), bs))))"

definition read_strike :: "(hash \<times> StrikeEntry) reader" where
  "read_strike bs =
     res_bind (read_hash bs) (\<lambda>(m, bs). res_bind (read_u32 bs) (\<lambda>(n, bs).
     res_bind (read_u64 bs) (\<lambda>(last, bs). Inr ((m, \<lparr>strike_count = n, last_daa = last\<rparr>), bs))))"

definition read_dated :: "(hash \<times> u64) reader" where
  "read_dated bs =
     res_bind (read_hash bs) (\<lambda>(m, bs). res_bind (read_u64 bs) (\<lambda>(daa, bs). Inr ((m, daa), bs)))"

definition read_spk :: "(hash \<times> ScriptPublicKey) reader" where
  "read_spk bs =
     res_bind (read_hash bs) (\<lambda>(m, bs). res_bind (read_u16 bs) (\<lambda>(version, bs).
     res_bind (read_u16 bs) (\<lambda>(len, bs). res_bind (take_bytes (unat len) bs) (\<lambda>(script, bs).
     Inr ((m, ScriptPublicKey_from_vec version script), bs)))))"

definition read_producer :: "(u64 \<times> hash \<times> u8 \<times> hash) reader" where
  "read_producer bs =
     res_bind (read_u64 bs) (\<lambda>(daa, bs). res_bind (read_hash bs) (\<lambda>(id, bs).
     res_bind (read_u8 bs) (\<lambda>(tier, bs). res_bind (read_hash bs) (\<lambda>(escrow, bs).
     Inr ((daa, id, tier, escrow), bs)))))"

definition read_snapshot :: "ServiceLedgerSnapshot reader" where
  "read_snapshot bs =
     res_bind (read_map ''malformed vault'' read_vault_entry bs) (\<lambda>(v, bs).
     res_bind (read_map ''malformed pending'' read_request bs) (\<lambda>(p, bs).
     res_bind (read_map ''malformed early responses'' read_early bs) (\<lambda>(e, bs).
     res_bind (read_map ''malformed strikes'' read_strike bs) (\<lambda>(s, bs).
     res_bind (read_map ''malformed first_seen'' read_dated bs) (\<lambda>(f, bs).
     res_bind (read_map ''malformed audited'' read_dated bs) (\<lambda>(a, bs).
     res_bind (read_map ''malformed producer_spk'' read_spk bs) (\<lambda>(k, bs).
     res_bind (read_counted read_producer bs) (\<lambda>(r, bs).
     Inr (\<lparr>s_vault = v, s_pending = p, s_early_responses = e, s_strikes = s, s_first_seen = f,
           s_audited = a, s_producer_spk = k, s_recent_producers = r\<rparr>, bs)))))))))"

definition from_bytes :: "u8 list \<Rightarrow> string + ServiceLedgerSnapshot" where
  "from_bytes bytes =
     res_bind (read_u8 bytes) (\<lambda>(version, bs).
     if version \<noteq> SNAPSHOT_ENCODING_VERSION then Inl ''unsupported snapshot encoding''
     else res_bind (read_snapshot bs) (\<lambda>(snap, bs).
       if bs \<noteq> [] then Inl ''trailing bytes''
       else if to_bytes snap \<noteq> bytes then Inl ''non-canonical snapshot''
       else Inr snap))"

text \<open>The digests over the canonical bytes, with the personalised hash a parameter.\<close>

definition hash_of_snapshot_bytes :: "(u8 list \<Rightarrow> u8 list \<Rightarrow> hash) \<Rightarrow> u8 list \<Rightarrow> hash" where
  "hash_of_snapshot_bytes blake2b_personal bytes = blake2b_personal (bytes_of_string ''KeryxLedgerSnap'') bytes"

definition snapshot_hash :: "(u8 list \<Rightarrow> u8 list \<Rightarrow> hash) \<Rightarrow> ServiceLedgerSnapshot \<Rightarrow> hash" where
  "snapshot_hash blake2b_personal s = hash_of_snapshot_bytes blake2b_personal (to_bytes s)"

definition service_commitment_v2 :: "(u8 list \<Rightarrow> u8 list \<Rightarrow> hash) \<Rightarrow> hash \<Rightarrow> hash \<Rightarrow> hash" where
  "service_commitment_v2 blake2b_personal rows ledger =
     blake2b_personal (bytes_of_string ''KeryxSvcCommit'') (hash_bytes rows @ hash_bytes ledger)"

section \<open>Codecs\<close>

text \<open>
  The contract between an encoder and a reader: what is encoded is read back and leaves the rest, and
  every value that is read satisfies the domain predicate.
\<close>

locale codec =
  fixes enc :: "'a \<Rightarrow> u8 list" and rd :: "'a reader" and ok :: "'a \<Rightarrow> bool"
  assumes rd_enc: "ok x \<Longrightarrow> rd (enc x @ rest) = Inr (x, rest)"
    and rd_ok: "rd bs = Inr (x, rest) \<Longrightarrow> ok x"
begin

lemma read_many_enc:
  "\<forall>x\<in>set xs. ok x \<Longrightarrow> read_many (length xs) rd (concat (map enc xs) @ rest) = Inr (xs, rest)"
  by (induction xs) (simp_all add: rd_enc)

lemma read_many_ok:
  "read_many n rd bs = Inr (xs, rest) \<Longrightarrow> length xs = n \<and> (\<forall>x\<in>set xs. ok x)"
  by (induction n arbitrary: bs xs rest) (auto simp: res_bind_eq_Inr dest: rd_ok)

end

lemma take_bytes_append [simp]: "length s = n \<Longrightarrow> take_bytes n (s @ rest) = Inr (s, rest)"
  by (simp add: take_bytes_def)

lemma read_u8_Cons [simp]: "read_u8 (b # rest) = Inr (b, rest)"
  by (simp add: read_u8_def take_bytes_def)

lemma read_words [simp]:
  "read_u16 (to_le 2 x16 @ rest) = Inr (x16, rest)"
  "read_u32 (to_le 4 x32 @ rest) = Inr (x32, rest)"
  "read_u64 (to_le 8 x64 @ rest) = Inr (x64, rest)"
  by (simp_all add: read_u16_def read_u32_def read_u64_def read_le_def)

lemma read_hash_bytes [simp]: "read_hash (hash_bytes h @ rest) = Inr (h, rest)"
  by (simp add: read_hash_def)

lemma read_len [simp]: "n < 2 ^ 32 \<Longrightarrow> read_u32 (put_len n @ rest) = Inr (word_of_nat n, rest)"
  by (simp add: put_len_def)

interpretation hash_codec: codec hash_bytes read_hash "\<lambda>_. True"
  by unfold_locales simp_all

context codec
begin

lemma read_counted_enc:
  assumes "length xs < 2 ^ 32" and "\<forall>x\<in>set xs. ok x"
  shows "read_counted rd (put_all enc xs @ rest) = Inr (xs, rest)"
  using assms read_many_enc [OF assms(2)] by (simp add: read_counted_def put_all_def unat_of_nat)

lemma read_counted_ok:
  assumes "read_counted rd bs = Inr (xs, rest)"
  shows "length xs < 2 ^ 32 \<and> (\<forall>x\<in>set xs. ok x)"
proof -
  from assms obtain n bs' where "read_many (unat (n :: u32)) rd bs' = Inr (xs, rest)"
    by (auto simp: read_counted_def res_bind_eq_Inr)
  from read_many_ok [OF this] show ?thesis using unat_lt [of n] by simp
qed

end

locale map_codec = codec enc rd ok
  for enc :: "'k::linorder \<times> 'v \<Rightarrow> u8 list" and rd :: "('k \<times> 'v) reader" and ok :: "'k \<times> 'v \<Rightarrow> bool"
begin

lemma read_entries_enc:
  "bt_wf m \<Longrightarrow> \<forall>p\<in>set m. ok p \<Longrightarrow> (\<forall>p\<in>set acc. \<forall>q\<in>set m. fst p < fst q) \<Longrightarrow>
     read_entries err (length m) rd acc (concat (map enc m) @ rest) = Inr (acc @ m, rest)"
proof (induction m arbitrary: acc)
  case (Cons p m)
  obtain k v where [simp]: "p = (k, v)" by force
  have lt: "\<forall>q\<in>set acc. fst q < k" using Cons.prems(3) by simp
  then have new: "\<not> bt_contains_key acc k"
    by (force simp: bt_contains_key_def dest: map_of_SomeD)
  have ins: "bt_insert k v acc = acc @ [(k, v)]" using lt by (rule bt_insert_last)
  have "read_entries err (length m) rd (acc @ [(k, v)]) (concat (map enc m) @ rest)
      = Inr ((acc @ [(k, v)]) @ m, rest)"
    using Cons.prems by (intro Cons.IH) auto
  then show ?case using Cons.prems(2) new ins by (simp add: rd_enc)
qed simp

lemma read_entries_ok:
  "read_entries err n rd acc bs = Inr (m, rest) \<Longrightarrow> bt_wf acc \<Longrightarrow> \<forall>p\<in>set acc. ok p \<Longrightarrow>
     bt_wf m \<and> length m = length acc + n \<and> (\<forall>p\<in>set m. ok p)"
proof (induction n arbitrary: acc bs)
  case (Suc n)
  from Suc.prems obtain k v bs' where r: "rd bs = Inr ((k, v), bs')"
    and new: "\<not> bt_contains_key acc k"
    and rec: "read_entries err n rd (bt_insert k v acc) bs' = Inr (m, rest)"
    by (auto simp: res_bind_eq_Inr split: if_splits)
  have fresh: "k \<notin> fst ` set acc"
    using new by (force simp: bt_contains_key_def map_of_eq_None_iff)
  have "\<forall>p\<in>set (bt_insert k v acc). ok p"
    using Suc.prems(3) rd_ok [OF r] fresh by (induction k v acc rule: bt_insert.induct) auto
  from Suc.IH [OF rec _ this] Suc.prems(2) show ?case
    using fresh by (simp add: length_bt_insert_new)
qed simp

lemma read_map_enc:
  assumes "bt_wf m" and "length m < 2 ^ 32" and "\<forall>p\<in>set m. ok p"
  shows "read_map err rd (put_all enc m @ rest) = Inr (m, rest)"
  using read_entries_enc [OF assms(1,3), of "[]" err rest] assms(2)
  by (simp add: read_map_def put_all_def unat_of_nat)

lemma read_map_ok:
  assumes "read_map err rd bs = Inr (m, rest)"
  shows "bt_wf m \<and> length m < 2 ^ 32 \<and> (\<forall>p\<in>set m. ok p)"
proof -
  from assms obtain n bs' where "read_entries err (unat (n :: u32)) rd [] bs' = Inr (m, rest)"
    by (auto simp: read_map_def res_bind_eq_Inr)
  from read_entries_ok [OF this] show ?thesis using unat_lt [of n] by simp
qed

end

section \<open>The readers of the snapshot\<close>

lemma put_hashes_all: "put_hashes = put_all hash_bytes"
  by (simp add: put_hashes_def put_all_def fun_eq_iff)

lemma read_put_hashes [simp]:
  "length hs < 2 ^ 32 \<Longrightarrow> read_hashes (put_hashes hs @ rest) = Inr (hs, rest)"
  unfolding read_hashes_def put_hashes_all by (rule hash_codec.read_counted_enc) simp_all

lemma read_hashes_ok: "read_hashes bs = Inr (hs, rest) \<Longrightarrow> length hs < 2 ^ 32"
  using hash_codec.read_counted_ok [of bs hs rest] by (simp add: read_hashes_def)

interpretation claim_codec: codec put_claim read_claim "\<lambda>_. True"
  by unfold_locales (simp_all add: put_claim_def read_claim_def TransactionOutpoint_new_def)

definition vault_entry_ok :: "hash \<times> EscrowClaim list \<Rightarrow> bool" where
  "vault_entry_ok p \<longleftrightarrow> snd p \<noteq> [] \<and> length (snd p) < 2 ^ 32"

interpretation vault_codec: map_codec put_vault_entry read_vault_entry vault_entry_ok
proof unfold_locales
  show "read_vault_entry (put_vault_entry p @ rest) = Inr (p, rest)" if "vault_entry_ok p" for p rest
  proof -
    obtain m cs where p: "p = (m, cs)" by force
    have "read_counted read_claim (put_all put_claim cs @ rest) = Inr (cs, rest)"
      using that p by (intro claim_codec.read_counted_enc) (simp_all add: vault_entry_ok_def)
    then show ?thesis
      using that p by (simp add: put_vault_entry_def read_vault_entry_def vault_entry_ok_def put_all_def)
  qed
  show "vault_entry_ok p" if "read_vault_entry bs = Inr (p, rest)" for bs p rest
    using that
    by (auto simp: read_vault_entry_def vault_entry_ok_def res_bind_eq_Inr split: if_splits
        dest: claim_codec.read_counted_ok)
qed

interpretation delegation_codec: codec put_delegation read_delegation "\<lambda>_. True"
  by unfold_locales (auto simp: put_delegation_def read_delegation_def)

definition audit_ok :: "Audit option \<Rightarrow> bool" where
  "audit_ok a \<longleftrightarrow> (\<forall>b. a = Some b \<longrightarrow>
     length (cohort b) < 2 ^ 32 \<and> length (delegations b) < 2 ^ 32 \<and> length (responded b) < 2 ^ 32)"

interpretation winner_codec: codec put_winner read_winner "\<lambda>_. True"
  by unfold_locales (auto simp: put_winner_def read_winner_def split: option.splits)

interpretation audit_codec: codec put_audit read_audit audit_ok
proof unfold_locales
  show "read_audit (put_audit a @ rest) = Inr (a, rest)" if "audit_ok a" for a rest
  proof (cases a)
    case (Some b)
    have "read_counted read_delegation (put_all put_delegation (delegations b) @ rest)
        = Inr (delegations b, rest)" for rest
      using that Some by (intro delegation_codec.read_counted_enc) (simp_all add: audit_ok_def)
    then show ?thesis using that Some by (simp add: put_audit_def read_audit_def audit_ok_def put_all_def)
  qed (simp add: put_audit_def read_audit_def)
  show "audit_ok a" if "read_audit bs = Inr (a, rest)" for bs a rest
    using that
    by (auto simp: read_audit_def audit_ok_def res_bind_eq_Inr split: if_splits
        dest: delegation_codec.read_counted_ok read_hashes_ok)
qed

definition request_ok :: "hash \<times> PendingRequest \<Rightarrow> bool" where
  "request_ok p \<longleftrightarrow> audit_ok (audit (snd p)) \<and> length (early_responders (snd p)) < 2 ^ 32"

interpretation request_codec: map_codec put_request read_request request_ok
  by unfold_locales
    (auto simp: put_request_def read_request_def request_ok_def res_bind_eq_Inr
       winner_codec.rd_enc audit_codec.rd_enc dest: audit_codec.rd_ok read_hashes_ok)

definition early_ok :: "hash \<times> u64 \<times> hash list \<Rightarrow> bool" where
  "early_ok p \<longleftrightarrow> length (snd (snd p)) < 2 ^ 32"

interpretation early_codec: map_codec put_early read_early early_ok
  by unfold_locales
    (auto simp: put_early_def read_early_def early_ok_def res_bind_eq_Inr dest: read_hashes_ok)

interpretation strike_codec: map_codec put_strike read_strike "\<lambda>_. True"
  by unfold_locales (auto simp: put_strike_def read_strike_def)

interpretation dated_codec: map_codec put_dated read_dated "\<lambda>_. True"
  by unfold_locales (auto simp: put_dated_def read_dated_def)

definition spk_ok :: "hash \<times> ScriptPublicKey \<Rightarrow> bool" where
  "spk_ok p \<longleftrightarrow> length (spk_script (snd p)) < 2 ^ 16"

interpretation spk_codec: map_codec put_spk read_spk spk_ok
proof unfold_locales
  show "read_spk (put_spk p @ rest) = Inr (p, rest)" if "spk_ok p" for p rest
    using that
    by (cases p) (simp add: put_spk_def read_spk_def spk_ok_def ScriptPublicKey_from_vec_def unat_of_nat)
  show "spk_ok p" if "read_spk bs = Inr (p, rest)" for bs p rest
  proof -
    from that obtain len :: u16 and bs' script bs'' where
      t: "take_bytes (unat len) bs' = Inr (script, bs'')" and p: "spk_script (snd p) = script"
      by (auto simp: read_spk_def res_bind_eq_Inr ScriptPublicKey_from_vec_def)
    have "length script = unat len" using t by (auto simp: take_bytes_def split: if_splits)
    then show ?thesis using unat_lt [of len] p by (simp add: spk_ok_def)
  qed
qed

interpretation producer_codec: codec put_producer read_producer "\<lambda>_. True"
  by unfold_locales (auto simp: put_producer_def read_producer_def)

text \<open>The snapshots that have a byte form: sorted maps, no empty queue, lengths that fit their field.\<close>

definition snapshot_wf :: "ServiceLedgerSnapshot \<Rightarrow> bool" where
  "snapshot_wf s \<longleftrightarrow>
     bt_wf (s_vault s) \<and> length (s_vault s) < 2 ^ 32 \<and> (\<forall>p\<in>set (s_vault s). vault_entry_ok p)
     \<and> bt_wf (s_pending s) \<and> length (s_pending s) < 2 ^ 32 \<and> (\<forall>p\<in>set (s_pending s). request_ok p)
     \<and> bt_wf (s_early_responses s) \<and> length (s_early_responses s) < 2 ^ 32
     \<and> (\<forall>p\<in>set (s_early_responses s). early_ok p)
     \<and> bt_wf (s_strikes s) \<and> length (s_strikes s) < 2 ^ 32
     \<and> bt_wf (s_first_seen s) \<and> length (s_first_seen s) < 2 ^ 32
     \<and> bt_wf (s_audited s) \<and> length (s_audited s) < 2 ^ 32
     \<and> bt_wf (s_producer_spk s) \<and> length (s_producer_spk s) < 2 ^ 32
     \<and> (\<forall>p\<in>set (s_producer_spk s). spk_ok p)
     \<and> length (s_recent_producers s) < 2 ^ 32"

lemma read_snapshot_enc:
  assumes "snapshot_wf s"
  shows "read_snapshot (tl (to_bytes s)) = Inr (s, [])"
  using assms producer_codec.read_counted_enc [of "s_recent_producers s" "[]"]
  by (simp add: snapshot_wf_def to_bytes_def read_snapshot_def vault_codec.read_map_enc
      request_codec.read_map_enc early_codec.read_map_enc strike_codec.read_map_enc
      dated_codec.read_map_enc spk_codec.read_map_enc)

lemma read_snapshot_wf:
  assumes "read_snapshot bs = Inr (s, rest)"
  shows "snapshot_wf s"
proof -
  from assms obtain b0 b1 b2 b3 b4 b5 b6 b7 where
    "read_map ''malformed vault'' read_vault_entry bs = Inr (s_vault s, b0)"
    "read_map ''malformed pending'' read_request b0 = Inr (s_pending s, b1)"
    "read_map ''malformed early responses'' read_early b1 = Inr (s_early_responses s, b2)"
    "read_map ''malformed strikes'' read_strike b2 = Inr (s_strikes s, b3)"
    "read_map ''malformed first_seen'' read_dated b3 = Inr (s_first_seen s, b4)"
    "read_map ''malformed audited'' read_dated b4 = Inr (s_audited s, b5)"
    "read_map ''malformed producer_spk'' read_spk b5 = Inr (s_producer_spk s, b6)"
    "read_counted read_producer b6 = Inr (s_recent_producers s, b7)"
    unfolding read_snapshot_def by (auto simp: res_bind_eq_Inr)
  then show ?thesis
    unfolding snapshot_wf_def
    by (auto dest!: vault_codec.read_map_ok request_codec.read_map_ok early_codec.read_map_ok
        strike_codec.read_map_ok dated_codec.read_map_ok spk_codec.read_map_ok
        producer_codec.read_counted_ok)
qed

text \<open>
  C9: The byte form of a snapshot is canonical and exact.  \<open>from_bytes\<close> accepts a byte string if and only if
  it is the encoding of a well-formed snapshot, and then returns that snapshot: every well-formed
  snapshot survives the round trip, no two byte strings decode to the same snapshot (so equal
  digests of the bytes mean equal state), and nothing unordered, duplicated, truncated or with
  trailing bytes is accepted.
\<close>

theorem from_bytes_exact: "from_bytes bytes = Inr s \<longleftrightarrow> snapshot_wf s \<and> bytes = to_bytes s"
proof
  assume "from_bytes bytes = Inr s"
  then show "snapshot_wf s \<and> bytes = to_bytes s"
    by (auto simp: from_bytes_def res_bind_eq_Inr split: if_splits dest: read_snapshot_wf)
next
  assume s: "snapshot_wf s \<and> bytes = to_bytes s"
  have "to_bytes s = SNAPSHOT_ENCODING_VERSION # tl (to_bytes s)" by (simp add: to_bytes_def)
  then have "read_u8 bytes = Inr (SNAPSHOT_ENCODING_VERSION, tl (to_bytes s))"
    using s read_u8_Cons by metis
  then show "from_bytes bytes = Inr s" using s read_snapshot_enc [of s] by (simp add: from_bytes_def)
qed

end
