(* ===== verification/Service_Invariants.thy ===== *)
theory Service_Invariants
  imports Service_Vault
begin

text \<open>
  What one fold of the service ledger keeps.  The locale \<open>ledger_invariant\<close> lists the atomic changes
  the response and audit phases of \<open>fold_inner\<close> make (\<open>audit_invariant\<close> those of the audit loop
  alone, \<open>response_invariant\<close> those of the responses and of the resets that end the audits); a
  predicate closed under them holds after the phases.  Its interpretations give the trace of vault burns, the bound on strike counts, the
  bookkeeping of rewards and the provenance of misses.
\<close>

section \<open>One strike\<close>

text \<open>The two outcomes of \<open>strike_miner\<close>: rate-limited, or one strike with its penalty.\<close>

definition rate_limited :: "u64 \<Rightarrow> ServiceLedger \<Rightarrow> hash \<Rightarrow> bool" where
  "rate_limited daa L miner \<longleftrightarrow>
     (case strike_state L miner of
        None \<Rightarrow> False
      | Some e \<Rightarrow> 0 < last_daa e \<and> unat daa < unat (last_daa e) + unat SERVICE_STRIKE_INTERVAL_DAA)"

lemma strike_guard_Some: "strike_guard daa L miner = Some b \<Longrightarrow> b \<longleftrightarrow> rate_limited daa L miner"
  by (auto simp: strike_guard_def rate_limited_def checked_add_eq_Some word_less_nat_alt
      split: option.splits if_splits)

lemma strike_miner_cases:
  assumes "strike_miner daa is_established rh (L, out) miner = Some (L', out')"
  obtains (limited) "rate_limited daa L miner" "L' = L" "out' = out"
  | (struck) count penalty burned V where
      "\<not> rate_limited daa L miner"
      "unat count = unat (consecutive_misses L miner) + 1"
      "penalty = strike_penalty_at count (is_established miner) (v2_at L daa)"
      "burn_vault (vault L) miner penalty = (burned, V)"
      "L' = L\<lparr>strikes := bt_insert miner
               \<lparr>strike_count = if penalty = Suspend then 0 else count, last_daa = daa\<rparr> (strikes L),
             vault := V\<rparr>"
      "out' = out\<lparr>misses := misses out @ [\<lparr>miss_request = rh, miss_miner = miner, miss_count = count,
             miss_penalty = penalty, miss_burned = burned\<rparr>]\<rparr>"
proof -
  from assms obtain b where g: "strike_guard daa L miner = Some b"
    by (cases "strike_guard daa L miner") (simp_all add: strike_miner_def)
  then have b: "b \<longleftrightarrow> rate_limited daa L miner" by (rule strike_guard_Some)
  show ?thesis
  proof (cases b)
    case True
    then have "L = L' \<and> out = out'" using assms g by (simp add: strike_miner_def)
    then show ?thesis using True b by (intro limited) simp_all
  next
    case False
    then have nl: "\<not> rate_limited daa L miner" using b by simp
    from assms g False obtain count where
      count: "checked_add (consecutive_misses L miner) 1 = Some count"
      by (cases "checked_add (consecutive_misses L miner) 1") (simp_all add: strike_miner_def)
    define penalty where "penalty = strike_penalty_at count (is_established miner) (v2_at L daa)"
    obtain burned V where bv: "burn_vault (vault L) miner penalty = (burned, V)" by force
    have v2: "v2_at (L\<lparr>strikes := s\<rparr>) daa = v2_at L daa" for s by (simp add: v2_at_def)
    have out: "(L', out') = (L\<lparr>strikes := bt_insert miner
               \<lparr>strike_count = if penalty = Suspend then 0 else count, last_daa = daa\<rparr> (strikes L),
             vault := V\<rparr>, out\<lparr>misses := misses out @ [\<lparr>miss_request = rh, miss_miner = miner,
             miss_count = count, miss_penalty = penalty, miss_burned = burned\<rparr>]\<rparr>)"
      using assms g False count bv
      by (cases "penalty = Suspend")
        (auto simp: strike_miner_def Let_def v2 penalty_def [symmetric] burn_def)
    show ?thesis
      by (rule struck [OF nl _ penalty_def bv]) (use count out in \<open>simp_all add: checked_add_eq_Some\<close>)
  qed
qed

lemma strike_miner_pending:
  "strike_miner daa is_established rh st miner = Some st' \<Longrightarrow> pending (fst st') = pending (fst st)"
  by (cases st; cases st') (auto elim!: strike_miner_cases)

section \<open>Crediting responses\<close>

lemma credit_identity_apply:
  "credit_identity ids i (resp, served) =
     (if binary_search_ok ids i \<and> i \<notin> set resp then (resp @ [i], served @ [i]) else (resp, served))"
  by (simp add: credit_identity_def)

lemma credit_identities_new:
  "fold (credit_identity ids) xs (resp, served) = (resp', served') \<Longrightarrow>
     \<exists>new. resp' = resp @ new \<and> served' = served @ new \<and> (distinct resp \<longrightarrow> distinct resp')
       \<and> set new = {i \<in> set xs. binary_search_ok ids i} - set resp"
proof (induction xs arbitrary: resp served)
  case (Cons x xs)
  show ?case
  proof (cases "binary_search_ok ids x \<and> x \<notin> set resp")
    case True
    then have "fold (credit_identity ids) xs (resp @ [x], served @ [x]) = (resp', served')"
      using Cons.prems by (simp add: credit_identity_apply)
    from Cons.IH [OF this] True show ?thesis by force
  next
    case False
    then have "fold (credit_identity ids) xs (resp, served) = (resp', served')"
      using Cons.prems by (auto simp: credit_identity_apply)
    from Cons.IH [OF this] False show ?thesis by auto
  qed
qed simp

lemma credit_key_new:
  assumes "credit_key ids dels key (resp, served) = (resp', served')"
  shows "\<exists>new. resp' = resp @ new \<and> served' = served @ new \<and> (distinct resp \<longrightarrow> distinct resp')
       \<and> set new = {i. (key, i) \<in> set dels \<and> binary_search_ok ids i} - set resp"
proof -
  have "set (map snd (filter (\<lambda>(e, _). e = key) dels)) = {i. (key, i) \<in> set dels}" by force
  with credit_identities_new [OF assms [unfolded credit_key_def]] show ?thesis by auto
qed

lemma credit_early_new:
  "credit_early ids dels keys (resp, served) = (resp', served') \<Longrightarrow>
     \<exists>new. resp' = resp @ new \<and> served' = served @ new \<and> (distinct resp \<longrightarrow> distinct resp')
       \<and> set new = {i. (\<exists>key \<in> set keys. (key, i) \<in> set dels) \<and> binary_search_ok ids i} - set resp"
proof (induction keys arbitrary: resp served)
  case Nil
  then show ?case by (simp add: credit_early_def)
next
  case (Cons k ks)
  obtain r s where c: "credit_key ids dels k (resp, served) = (r, s)" by force
  then have "credit_early ids dels ks (r, s) = (resp', served')"
    using Cons.prems by (simp add: credit_early_def)
  from Cons.IH [OF this] credit_key_new [OF c] show ?case by fastforce
qed

section \<open>Invariants of the response and audit phases\<close>

locale audit_invariant =
  fixes daa :: u64
    and warmup :: bool
    and is_established :: "hash \<Rightarrow> bool"
    and cohort_of :: "u8 \<Rightarrow> (hash \<times> hash) list"
    and P :: "ServiceLedger \<times> FoldOutcome \<Rightarrow> bool"
  assumes P_award: "P st \<Longrightarrow> bt_get (pending (fst st)) rh = Some req \<Longrightarrow> audit req = Some a \<Longrightarrow>
      identity \<in> set (responded a) \<Longrightarrow> P (maybe_award rh identity warmup st)"
    and P_strike: "P st \<Longrightarrow> \<not> warmup \<Longrightarrow> bt_get (pending (fst st)) rh = Some req \<Longrightarrow>
      audit req = Some a \<Longrightarrow> window_end_daa a < daa \<Longrightarrow>
      miner \<in> set (cohort a) \<Longrightarrow> miner \<notin> set (responded a) \<Longrightarrow>
      strike_miner daa is_established rh st miner = Some st' \<Longrightarrow> P st'"
    and P_drop: "P (L, out) \<Longrightarrow> P (L\<lparr>pending := bt_remove rh (pending L)\<rparr>, out)"
    and P_arm: "P (L, out) \<Longrightarrow> bt_get (pending L) rh = Some req \<Longrightarrow> audit req = None \<Longrightarrow>
      accepted_daa req < daa \<Longrightarrow> cohort_of (req_tier req) \<noteq> [] \<Longrightarrow>
      ids = dedup (sort (map fst (cohort_of (req_tier req)))) \<Longrightarrow>
      dels = dedup (sort (map (\<lambda>(id, esc). (esc, id)) (cohort_of (req_tier req)))) \<Longrightarrow>
      credit_early ids dels (early_responders req) ([], served) = (resp, served') \<Longrightarrow>
      checked_add daa (service_window_daa_at (req_tier req) (req_max_tokens req) (v2_at L daa)) = Some w \<Longrightarrow>
      P (L\<lparr>pending := bt_insert rh (req\<lparr>early_responders := [],
            audit := Some \<lparr>cohort = ids, delegations = dels, responded = resp, window_end_daa = w\<rparr>\<rparr>)
          (pending L)\<rparr>, out)"
begin

lemma strikes_keep:
  assumes "P st" and "\<not> warmup" and "bt_get (pending (fst st)) rh = Some req"
    and "audit req = Some a" and "window_end_daa a < daa"
    and "set ms \<subseteq> set (cohort a) - set (responded a)"
    and "foldM (strike_miner daa is_established rh) st ms = Some st'"
  shows "P st' \<and> bt_get (pending (fst st')) rh = Some req"
proof (rule foldM_invariant [OF assms(7), of "\<lambda>st. P st \<and> bt_get (pending (fst st)) rh = Some req"])
  show "P st \<and> bt_get (pending (fst st)) rh = Some req" using assms by simp
  show "P t \<and> bt_get (pending (fst t)) rh = Some req"
    if "m \<in> set ms" and "P s \<and> bt_get (pending (fst s)) rh = Some req"
      and "strike_miner daa is_established rh s m = Some t" for s m t
    using that assms P_strike [of s rh req a m t] strike_miner_pending [OF that(3)] by auto
qed

lemma close_keeps:
  assumes "P st" and "bt_get (pending (fst st)) rh = Some req"
    and "audit req = Some a" and "window_end_daa a < daa"
    and "close_audit daa warmup is_established rh a st = Some st'"
  shows "P st'"
proof -
  from assms(5) obtain L out where st':
      "st' = (L\<lparr>pending := bt_remove rh (pending L)\<rparr>, out)"
    and mid: "(if warmup then Some st
        else foldM (strike_miner daa is_established rh) st
               (filter (\<lambda>m. m \<notin> set (responded a)) (cohort a))) = Some (L, out)"
    by (auto simp: close_audit_def bind_eq_Some_conv)
  have "P (L, out)"
  proof (cases warmup)
    case False
    then show ?thesis
      using strikes_keep [OF assms(1) False assms(2-4),
          of "filter (\<lambda>m. m \<notin> set (responded a)) (cohort a)" "(L, out)"] mid by auto
  qed (use mid assms(1) in simp)
  then show ?thesis unfolding st' by (rule P_drop)
qed

lemma arm_keeps:
  assumes "P (L, out)" and "bt_get (pending L) rh = Some req" and "audit req = None"
    and "accepted_daa req < daa"
    and arm: "arm_audit daa warmup cohort_of rh req ((L, out), served) = Some (st', served')"
  shows "P st'"
proof (cases "cohort_of (req_tier req) = []")
  case True
  then show ?thesis using arm P_drop [OF assms(1)] by (auto simp: arm_audit_def)
next
  case False
  define ids where "ids = dedup (sort (map fst (cohort_of (req_tier req))))"
  define dels where "dels = dedup (sort (map (\<lambda>(id, esc). (esc, id)) (cohort_of (req_tier req))))"
  obtain resp s where
    c: "credit_early ids dels (early_responders req) ([], served) = (resp, s)" by force
  obtain w where
    w: "checked_add daa (service_window_daa_at (req_tier req) (req_max_tokens req) (v2_at L daa)) = Some w"
    using arm False c by (auto simp: arm_audit_def Let_def ids_def dels_def bind_eq_Some_conv)
  define L' where "L' = L\<lparr>pending := bt_insert rh (req\<lparr>early_responders := [],
            audit := Some \<lparr>cohort = ids, delegations = dels, responded = resp, window_end_daa = w\<rparr>\<rparr>)
          (pending L)\<rparr>"
  have "P (L', out)" unfolding L'_def
    by (rule P_arm [OF assms(1-4) False ids_def dels_def c w])
  moreover have "st' = (case resp of [] \<Rightarrow> (L', out) | first # _ \<Rightarrow> maybe_award rh first warmup (L', out))"
    using arm False c w unfolding arm_audit_def ids_def [symmetric] dels_def [symmetric] L'_def
    by (simp add: ids_def [symmetric] dels_def [symmetric] Let_def)
  moreover have "bt_get (pending L') rh = Some (req\<lparr>early_responders := [],
        audit := Some \<lparr>cohort = ids, delegations = dels, responded = resp, window_end_daa = w\<rparr>\<rparr>)"
    by (simp add: L'_def)
  ultimately show ?thesis by (auto intro!: P_award [of "(L', out)"] split: list.splits)
qed

lemma request_keeps:
  assumes "P (fst x)" and "fold_request daa warmup is_established cohort_of x rh = Some y"
  shows "P (fst y)"
proof -
  obtain L out served where x: "x = ((L, out), served)" by (metis prod.exhaust)
  from assms(2) obtain req where req: "bt_get (pending L) rh = Some req"
    and step: "(case audit req of
       Some a \<Rightarrow>
         if daa > window_end_daa a
         then map_option (\<lambda>st. (st, served)) (close_audit daa warmup is_established rh a (L, out))
         else Some ((L, out), served)
     | None \<Rightarrow>
         if daa > accepted_daa req
         then arm_audit daa warmup cohort_of rh req ((L, out), served)
         else Some ((L, out), served)) = Some y"
    by (auto simp: fold_request_def x bind_eq_Some_conv)
  have P: "P (L, out)" using assms(1) x by simp
  show ?thesis
  proof (cases "audit req")
    case None
    then show ?thesis
      using step P arm_keeps [OF P req None, of served "fst y" "snd y"] by (auto split: if_splits)
  next
    case (Some a)
    then show ?thesis
      using step P close_keeps [of "(L, out)" rh req a "fst y"] req by (auto split: if_splits)
  qed
qed

lemma loop_keeps:
  assumes "P st"
    and "foldM (fold_request daa warmup is_established cohort_of) (st, []) rhs = Some (mid, served)"
  shows "P mid"
  using foldM_invariant [OF assms(2), of "\<lambda>x. P (fst x)"] assms(1) request_keeps by auto

end

locale response_invariant =
  fixes daa :: u64
    and warmup :: bool
    and P :: "ServiceLedger \<times> FoldOutcome \<Rightarrow> bool"
  assumes R_award: "P st \<Longrightarrow> bt_get (pending (fst st)) rh = Some req \<Longrightarrow> audit req = Some a \<Longrightarrow>
      identity \<in> set (responded a) \<Longrightarrow> P (maybe_award rh identity warmup st)"
    and R_reset: "P st \<Longrightarrow> P (reset_served daa warmup identity st)"
    and R_early: "P (L, out) \<Longrightarrow> P (L\<lparr>early_responses := bt_insert rh entry (early_responses L)\<rparr>, out)"
    and R_evict: "P (L, out) \<Longrightarrow> P (L\<lparr>early_responses := evict_early (early_responses L)\<rparr>, out)"
    and R_park: "P (L, out) \<Longrightarrow> bt_get (pending L) rh = Some req \<Longrightarrow> audit req = None \<Longrightarrow>
      P (L\<lparr>pending := bt_insert rh (req\<lparr>early_responders := push_new r (early_responders req)\<rparr>) (pending L)\<rparr>, out)"
    and R_credit: "P (L, out) \<Longrightarrow> bt_get (pending L) rh = Some req \<Longrightarrow> audit req = Some a \<Longrightarrow>
      credit_key (cohort a) (delegations a) r (responded a, []) = (resp, served) \<Longrightarrow>
      P (L\<lparr>pending := bt_insert rh (req\<lparr>audit := Some (a\<lparr>responded := resp\<rparr>)\<rparr>) (pending L)\<rparr>, out)"
begin

lemma resets_keep: "P st \<Longrightarrow> P (fold (reset_served daa warmup) served st)"
  by (induction served arbitrary: st) (simp_all add: R_reset)

lemma response_keeps:
  assumes "P (L, out)"
  shows "P (fold_response daa warmup (rh, responder) (L, out))"
proof (cases responder)
  case None
  then show ?thesis using assms by (simp add: fold_response_def)
next
  case (Some r)
  show ?thesis
  proof (cases "bt_get (pending L) rh")
    case None
    then show ?thesis
      using Some R_early [OF assms] by (simp add: fold_response_def split: prod.splits)
  next
    case (Some req)
    note req = this
    show ?thesis
    proof (cases "audit req")
      case None
      then show ?thesis
        using R_park [OF assms req None, of r] \<open>responder = Some r\<close> req by (simp add: fold_response_def)
    next
      case (Some a)
      obtain resp served where
        c: "credit_key (cohort a) (delegations a) r (responded a, []) = (resp, served)" by force
      note p = R_credit [OF assms req Some c]
      define L' where "L' = L\<lparr>pending := bt_insert rh (req\<lparr>audit := Some (a\<lparr>responded := resp\<rparr>)\<rparr>) (pending L)\<rparr>"
      have "set served \<subseteq> set resp" using credit_key_new [OF c] by auto
      moreover have "bt_get (pending L') rh = Some (req\<lparr>audit := Some (a\<lparr>responded := resp\<rparr>)\<rparr>)"
        by (simp add: L'_def)
      ultimately have "P (case served of [] \<Rightarrow> (L', out) | first # _ \<Rightarrow> maybe_award rh first warmup (L', out))"
        using p by (auto intro!: R_award [of "(L', out)"] simp: L'_def [symmetric] split: list.splits)
      from resets_keep [OF this, of served] show ?thesis
        using \<open>responder = Some r\<close> req Some c unfolding L'_def by (simp add: fold_response_def Let_def)
    qed
  qed
qed

lemma response_list_keeps: "P st \<Longrightarrow> P (fold (fold_response daa warmup) responses st)"
proof (induction responses arbitrary: st)
  case (Cons r rs)
  show ?case using Cons.IH [of "fold_response daa warmup r st"] Cons.prems
    by (cases r; cases st) (simp add: response_keeps)
qed simp

lemma responses_keep: "P st \<Longrightarrow> P (fold_responses daa warmup responses st)"
  using response_list_keeps [of st responses]
  by (auto simp: fold_responses_def split: prod.splits intro: R_evict)

end

locale ledger_invariant = audit_invariant +
  assumes P_reset: "P st \<Longrightarrow> P (reset_served daa warmup identity st)"
    and P_early: "P (L, out) \<Longrightarrow> P (L\<lparr>early_responses := bt_insert rh entry (early_responses L)\<rparr>, out)"
    and P_evict: "P (L, out) \<Longrightarrow> P (L\<lparr>early_responses := evict_early (early_responses L)\<rparr>, out)"
    and P_park: "P (L, out) \<Longrightarrow> bt_get (pending L) rh = Some req \<Longrightarrow> audit req = None \<Longrightarrow>
      P (L\<lparr>pending := bt_insert rh (req\<lparr>early_responders := push_new r (early_responders req)\<rparr>) (pending L)\<rparr>, out)"
    and P_credit: "P (L, out) \<Longrightarrow> bt_get (pending L) rh = Some req \<Longrightarrow> audit req = Some a \<Longrightarrow>
      credit_key (cohort a) (delegations a) r (responded a, []) = (resp, served) \<Longrightarrow>
      P (L\<lparr>pending := bt_insert rh (req\<lparr>audit := Some (a\<lparr>responded := resp\<rparr>)\<rparr>) (pending L)\<rparr>, out)"

sublocale ledger_invariant \<subseteq> responses: response_invariant daa warmup P
  by unfold_locales (fact P_award P_reset P_early P_evict P_park P_credit)+

context ledger_invariant
begin

lemma audits_keep:
  assumes "P st" and "fold_audits daa warmup is_established cohort_of st = Some st'"
  shows "P st'"
proof -
  from assms(2) obtain mid served where
    f: "foldM (fold_request daa warmup is_established cohort_of) (st, []) (map fst (pending (fst st)))
          = Some (mid, served)"
    and st': "st' = fold (reset_served daa warmup) served mid"
    by (auto simp: fold_audits_def bind_eq_Some_conv)
  show ?thesis using loop_keeps [OF assms(1) f] by (simp add: st' responses.resets_keep)
qed

lemma phases_keep:
  "P st \<Longrightarrow> fold_audits daa warmup is_established cohort_of (fold_responses daa warmup responses st)
     = Some st' \<Longrightarrow> P st'"
  by (rule audits_keep [OF responses.responses_keep])

end

section \<open>What the atomic changes leave alone\<close>

lemma maybe_award_frame:
  "vault (fst (maybe_award rh i w st)) = vault (fst st)"
  "strikes (fst (maybe_award rh i w st)) = strikes (fst st)"
  "base (fst (maybe_award rh i w st)) = base (fst st)"
  "misses (snd (maybe_award rh i w st)) = misses (snd st)"
  "expired (snd (maybe_award rh i w st)) = expired (snd st)"
  "sightings (snd (maybe_award rh i w st)) = sightings (snd st)"
  "resets (snd (maybe_award rh i w st)) = resets (snd st)"
  "early_responses (fst (maybe_award rh i w st)) = early_responses (fst st)"
  "first_seen (fst (maybe_award rh i w st)) = first_seen (fst st)"
  "audited (fst (maybe_award rh i w st)) = audited (fst st)"
  by (cases st; auto simp: maybe_award_def split: option.splits)+

lemma reset_served_frame:
  "vault (fst (reset_served daa w i st)) = vault (fst st)"
  "pending (fst (reset_served daa w i st)) = pending (fst st)"
  "base (fst (reset_served daa w i st)) = base (fst st)"
  "misses (snd (reset_served daa w i st)) = misses (snd st)"
  "expired (snd (reset_served daa w i st)) = expired (snd st)"
  "sightings (snd (reset_served daa w i st)) = sightings (snd st)"
  "rewards (snd (reset_served daa w i st)) = rewards (snd st)"
  "early_responses (fst (reset_served daa w i st)) = early_responses (fst st)"
  "first_seen (fst (reset_served daa w i st)) = first_seen (fst st)"
  "audited (fst (reset_served daa w i st)) = audited (fst st)"
  by (cases st; auto simp: reset_served_def Let_def split: option.splits)+

lemmas atomic_frame [simp] = maybe_award_frame reset_served_frame

end
