(* ===== verification/Service_Ledger.thy ===== *)
theory Service_Ledger
  imports Service_Invariants
begin

text \<open>
  What a whole fold does to the vault and to the strikes: the phases of \<open>fold_inner\<close> and what each
  leaves alone, the trace of additions, expiries and burns, the escalation of strikes and their
  rate limit over a run of folds.
\<close>

section \<open>The phases of a fold\<close>

lemma fold_inner_phases:
  assumes "fold_inner daa requests request_rewards responses escrows producers warmup_burned
             is_established cohort_of L = Some (L', out)"
  obtains L1 out1 L2 where
    "fold_claims daa escrows warmup_burned (fold_producers producers L) = Some (L1, out1)"
    "fold_requests daa requests request_rewards L1 = Some L2"
    "fold_audits daa (warmup_burned \<noteq> None) is_established cohort_of
       (fold_responses daa (warmup_burned \<noteq> None) responses (L2, out1)) = Some (L', out)"
proof (cases "fold_claims daa escrows warmup_burned (fold_producers producers L)")
  case None
  then show ?thesis using assms by (simp add: fold_inner_def)
next
  case (Some p)
  obtain L1 out1 where p: "p = (L1, out1)" by force
  show ?thesis
  proof (cases "fold_requests daa requests request_rewards L1")
    case None
    then show ?thesis using assms Some p by (simp add: fold_inner_def)
  next
    case L2: (Some L2)
    show ?thesis by (rule that [OF Some [unfolded p] L2]) (use assms Some p L2 in \<open>simp add: fold_inner_def Let_def\<close>)
  qed
qed

lemma fold_escrows_live:
  "vault (fst (fold (fold_escrow None) escrows (L, sighted)))
     = fold (\<lambda>(m, c). vault_push_back m c) escrows (vault L)"
  by (induction escrows arbitrary: L sighted) (auto simp: fold_escrow_def Let_def split: if_splits)

lemma fold_escrow_frame:
  "L' = fst (fold_escrow w e (L, sighted)) \<Longrightarrow>
     pending L' = pending L \<and> strikes L' = strikes L \<and> base L' = base L
     \<and> early_responses L' = early_responses L \<and> audited L' = audited L
     \<and> first_seen_base L' = first_seen_base L \<and> producer_spk L' = producer_spk L
     \<and> window_v2_activation_daa L' = window_v2_activation_daa L
     \<and> burnable_window_daa L' = burnable_window_daa L \<and> reward_routing_daa L' = reward_routing_daa L"
  by (cases e) (auto simp: fold_escrow_def Let_def split: if_splits option.splits)

lemma fold_escrows_frame:
  "L' = fst (fold (fold_escrow w) escrows (L, sighted)) \<Longrightarrow>
     pending L' = pending L \<and> strikes L' = strikes L \<and> base L' = base L
     \<and> early_responses L' = early_responses L \<and> audited L' = audited L
     \<and> first_seen_base L' = first_seen_base L \<and> producer_spk L' = producer_spk L
     \<and> window_v2_activation_daa L' = window_v2_activation_daa L
     \<and> burnable_window_daa L' = burnable_window_daa L \<and> reward_routing_daa L' = reward_routing_daa L"
proof (induction escrows arbitrary: L sighted)
  case (Cons e es)
  obtain L1 s1 where st: "fold_escrow w e (L, sighted) = (L1, s1)" by force
  then show ?case
    using Cons.IH [of L1 s1] Cons.prems fold_escrow_frame [of L1 w e L sighted] by simp
qed simp

lemma fold_producers_frame [simp]:
  "vault (fold_producers ps L) = vault L" "pending (fold_producers ps L) = pending L"
  "strikes (fold_producers ps L) = strikes L" "base (fold_producers ps L) = base L"
  "early_responses (fold_producers ps L) = early_responses L"
  "audited (fold_producers ps L) = audited L"
  "first_seen (fold_producers ps L) = first_seen L"
  "first_seen_base (fold_producers ps L) = first_seen_base L"
  "window_v2_activation_daa (fold_producers ps L) = window_v2_activation_daa L"
  "burnable_window_daa (fold_producers ps L) = burnable_window_daa L"
  "reward_routing_daa (fold_producers ps L) = reward_routing_daa L"
  by (simp_all add: fold_producers_def)

definition burnable_window :: "ServiceLedger \<Rightarrow> u64" where
  "burnable_window L =
     (case burnable_window_daa L of None \<Rightarrow> SERVICE_BURNABLE_WINDOW_DAA | Some w \<Rightarrow> w)"

lemma fold_claims_live:
  assumes "fold_claims daa escrows None (fold_producers producers L) = Some (L1, out1)"
  shows "expire_vault (burnable_window L) daa
           (fold (\<lambda>(m, c). vault_push_back m c) escrows (vault L)) = Some (expired out1, vault L1)"
    and "misses out1 = []" and "rewards out1 = []" and "resets out1 = []"
    and "pending L1 = pending L" and "strikes L1 = strikes L" and "base L1 = base L"
    and "window_v2_activation_daa L1 = window_v2_activation_daa L"
    and "burnable_window_daa L1 = burnable_window_daa L"
    and "reward_routing_daa L1 = reward_routing_daa L"
proof -
  obtain La sighted where f: "fold (fold_escrow None) escrows (fold_producers producers L, []) = (La, sighted)"
    by force
  have v: "vault La = fold (\<lambda>(m, c). vault_push_back m c) escrows (vault L)"
    using fold_escrows_live [of escrows "fold_producers producers L" "[]"] f by simp
  note fr = fold_escrows_frame [of La None escrows "fold_producers producers L" "[]"]
  have b: "(case burnable_window_daa La of None \<Rightarrow> SERVICE_BURNABLE_WINDOW_DAA | Some w \<Rightarrow> w)
            = burnable_window L" using fr f by (simp add: burnable_window_def)
  from assms obtain gone V where e: "expire_vault (burnable_window L) daa (vault La) = Some (gone, V)"
    and eqs: "L1 = La\<lparr>vault := V\<rparr>"
      "out1 = FoldOutcome_default\<lparr>sightings := sighted, expired := gone\<rparr>"
    by (auto simp: fold_claims_def f b bind_eq_Some_conv)
  show "expire_vault (burnable_window L) daa
           (fold (\<lambda>(m, c). vault_push_back m c) escrows (vault L)) = Some (expired out1, vault L1)"
    using e v by (simp add: eqs)
  show "misses out1 = []" "rewards out1 = []" "resets out1 = []" "pending L1 = pending L"
    "strikes L1 = strikes L" "base L1 = base L"
    "window_v2_activation_daa L1 = window_v2_activation_daa L"
    "burnable_window_daa L1 = burnable_window_daa L"
    "reward_routing_daa L1 = reward_routing_daa L"
    using fr f by (simp_all add: eqs FoldOutcome_default_def)
qed

lemma admit_request_frame:
  "L' = admit_request daa gated rr r L \<Longrightarrow> vault L' = vault L \<and> strikes L' = strikes L \<and> base L' = base L
     \<and> window_v2_activation_daa L' = window_v2_activation_daa L
     \<and> burnable_window_daa L' = burnable_window_daa L
     \<and> reward_routing_daa L' = reward_routing_daa L"
  by (cases r) (auto simp: admit_request_def Let_def split: if_splits)

lemma fold_requests_phases:
  assumes "fold_requests daa requests rr L = Some L'"
  obtains kept early aud gated where
    "retain_recent accepted_daa SERVICE_LEDGER_HORIZON_DAA daa (pending L) = Some kept"
    "retain_recent fst SERVICE_EARLY_RESPONSE_HORIZON_DAA daa (early_responses L) = Some early"
    "gated \<longleftrightarrow> (case reward_routing_daa L of None \<Rightarrow> False | Some a \<Rightarrow> a \<le> daa)"
    "(if gated then retain_recent id SERVICE_AUDITED_MEMORY_DAA daa (audited L)
      else Some (audited L)) = Some aud"
    "L' = fold (admit_request daa gated rr) requests
            (L\<lparr>pending := kept, early_responses := early, audited := aud\<rparr>)"
proof -
  define gated where "gated = (case reward_routing_daa L of None \<Rightarrow> False | Some a \<Rightarrow> a \<le> daa)"
  from assms obtain kept early where
    k: "retain_recent accepted_daa SERVICE_LEDGER_HORIZON_DAA daa (pending L) = Some kept"
    and e: "retain_recent fst SERVICE_EARLY_RESPONSE_HORIZON_DAA daa (early_responses L) = Some early"
    by (cases "retain_recent accepted_daa SERVICE_LEDGER_HORIZON_DAA daa (pending L)";
        cases "retain_recent fst SERVICE_EARLY_RESPONSE_HORIZON_DAA daa (early_responses L)")
      (simp_all add: fold_requests_def)
  show thesis
  proof (cases gated)
    case True
    with assms k e show ?thesis
      by (cases "retain_recent id SERVICE_AUDITED_MEMORY_DAA daa (audited L)")
        (auto simp: fold_requests_def Let_def gated_def [symmetric] intro: that [OF k e gated_def])
  next
    case False
    then show ?thesis
      using assms k e
      by (intro that [OF k e gated_def, of "audited L"])
        (simp_all add: fold_requests_def Let_def gated_def [symmetric])
  qed
qed

lemma fold_requests_frame:
  assumes "fold_requests daa requests rr L = Some L'"
  shows "vault L' = vault L" and "strikes L' = strikes L" and "base L' = base L"
    and "window_v2_activation_daa L' = window_v2_activation_daa L"
    and "burnable_window_daa L' = burnable_window_daa L"
    and "reward_routing_daa L' = reward_routing_daa L"
proof -
  define frame where "frame = (\<lambda>L :: ServiceLedger.
    (vault L, strikes L, base L, window_v2_activation_daa L, burnable_window_daa L, reward_routing_daa L))"
  have adm: "frame (fold (admit_request daa g rr) requests L) = frame L" for g L
    by (induction requests arbitrary: L) (simp_all add: frame_def admit_request_frame [OF refl])
  have "frame L' = frame L"
    by (rule fold_requests_phases [OF assms]) (simp add: adm, simp add: frame_def)
  then show "vault L' = vault L" "strikes L' = strikes L" "base L' = base L"
    "window_v2_activation_daa L' = window_v2_activation_daa L"
    "burnable_window_daa L' = burnable_window_daa L"
    "reward_routing_daa L' = reward_routing_daa L" by (simp_all add: frame_def)
qed

section \<open>Undoing a fold\<close>

text \<open>The response and audit phases change the vault by the burns of the misses they report.\<close>

interpretation vault_trace: ledger_invariant daa warmup is_established cohort_of
  "\<lambda>(L, out). burns_by V (misses out) (vault L) \<and> expired out = gone"
  for daa warmup is_established cohort_of V gone
proof unfold_locales
  show "case maybe_award rh identity warmup st of
      (L, out) \<Rightarrow> burns_by V (misses out) (vault L) \<and> expired out = gone"
    if "case st of (L, out) \<Rightarrow> burns_by V (misses out) (vault L) \<and> expired out = gone" for st rh identity
    using that atomic_frame by (simp add: case_prod_beta)
  show "case reset_served daa warmup identity st of
      (L, out) \<Rightarrow> burns_by V (misses out) (vault L) \<and> expired out = gone"
    if "case st of (L, out) \<Rightarrow> burns_by V (misses out) (vault L) \<and> expired out = gone" for st identity
    using that atomic_frame by (simp add: case_prod_beta)
  show "case st' of (L, out) \<Rightarrow> burns_by V (misses out) (vault L) \<and> expired out = gone"
    if "case st of (L, out) \<Rightarrow> burns_by V (misses out) (vault L) \<and> expired out = gone"
      and "strike_miner daa is_established rh st miner = Some st'" for st st' rh miner
    using that by (cases st; cases st') (auto elim!: strike_miner_cases simp: burns_by_snoc)
qed auto

lemma fold_live_vault:
  assumes "fold_inner daa requests request_rewards responses escrows producers None
             is_established cohort_of L = Some (L', out)"
  obtains W where
    "expire_vault (burnable_window L) daa (fold (\<lambda>(m, c). vault_push_back m c) escrows (vault L))
       = Some (expired out, W)"
    "burns_by W (misses out) (vault L')"
proof -
  from assms obtain L1 out1 L2 where
    c: "fold_claims daa escrows None (fold_producers producers L) = Some (L1, out1)"
    and r: "fold_requests daa requests request_rewards L1 = Some L2"
    and a: "fold_audits daa False is_established cohort_of
       (fold_responses daa False responses (L2, out1)) = Some (L', out)"
    by (rule fold_inner_phases) simp
  note live = fold_claims_live [OF c] and keep = fold_requests_frame [OF r]
  have "burns_by (vault L1) (misses out) (vault L') \<and> expired out = expired out1"
    using vault_trace.phases_keep [OF _ a, of "vault L1" "expired out1"] live keep by simp
  with live(1) that show thesis by simp
qed

definition ledger_config :: "ServiceLedger \<Rightarrow> u64 option \<times> u64 option \<times> u64 option" where
  "ledger_config L = (window_v2_activation_daa L, burnable_window_daa L, reward_routing_daa L)"

lemma ledger_config_simps [simp]:
  "ledger_config (fst (maybe_award rh i w st)) = ledger_config (fst st)"
  "ledger_config (fst (reset_served daa w i st)) = ledger_config (fst st)"
  "ledger_config (L\<lparr>pending := p\<rparr>) = ledger_config L"
  "ledger_config (L\<lparr>early_responses := e\<rparr>) = ledger_config L"
  "ledger_config (L\<lparr>strikes := s\<rparr>) = ledger_config L"
  "ledger_config (L\<lparr>vault := v\<rparr>) = ledger_config L"
  by (auto simp: ledger_config_def maybe_award_def reset_served_def Let_def case_prod_beta
      split: option.splits)

interpretation config: ledger_invariant daa warmup is_established cohort_of
  "\<lambda>st. ledger_config (fst st) = cfg" for daa warmup is_established cohort_of cfg
proof unfold_locales
  show "ledger_config (fst st') = cfg" if "ledger_config (fst st) = cfg"
    and "strike_miner daa is_established rh st miner = Some st'" for st st' rh miner
    using that by (cases st; cases st') (auto elim!: strike_miner_cases)
qed auto

lemma fold_live_config:
  assumes "fold_inner daa requests request_rewards responses escrows producers None
             is_established cohort_of L = Some (L', out)"
  shows "ledger_config L' = ledger_config L"
proof -
  from assms obtain L1 out1 L2 where
    c: "fold_claims daa escrows None (fold_producers producers L) = Some (L1, out1)"
    and r: "fold_requests daa requests request_rewards L1 = Some L2"
    and a: "fold_audits daa False is_established cohort_of
       (fold_responses daa False responses (L2, out1)) = Some (L', out)"
    by (rule fold_inner_phases) simp
  have "ledger_config L2 = ledger_config L"
    using fold_claims_live [OF c] fold_requests_frame [OF r] by (simp add: ledger_config_def)
  then show ?thesis using config.phases_keep [OF _ a, of "ledger_config L"] by simp
qed

section \<open>Accounting of claims\<close>

definition burned_of :: "ServiceMiss list \<Rightarrow> hash \<Rightarrow> EscrowClaim list" where
  "burned_of ms m = concat (map miss_burned (filter (\<lambda>miss. miss_miner miss = m) ms))"

lemma burns_by_queues:
  "vault_wf V \<Longrightarrow> burns_by V ms W \<Longrightarrow> vault_wf W \<and> claims_of V m = claims_of W m @ rev (burned_of ms m)"
proof (induction ms arbitrary: V)
  case (Cons miss ms)
  from Cons.prems(2) obtain V' where
    b: "burn_vault V (miss_miner miss) (miss_penalty miss) = (miss_burned miss, V')"
    and t: "burns_by V' ms W" by auto
  note q = burn_vault_queues [OF Cons.prems(1) b]
  note ih = Cons.IH [OF q(1) t]
  show ?case
  proof (cases "m = miss_miner miss")
    case True
    then show ?thesis using ih q(2) by (simp add: burned_of_def)
  next
    case False
    then show ?thesis using ih q(4) [OF False] by (simp add: burned_of_def)
  qed
qed (simp add: burned_of_def)

section \<open>Strikes\<close>

lemma strike_state_insert:
  "strike_state (L\<lparr>strikes := bt_insert m e (strikes L), vault := V\<rparr>) = (strike_state L)(m \<mapsto> e)"
  "strike_state (L\<lparr>strikes := bt_insert m e (strikes L)\<rparr>) = (strike_state L)(m \<mapsto> e)"
  by (auto simp: strike_state_def fun_eq_iff split: option.splits)

lemma strike_state_cong:
  "strikes L' = strikes L \<Longrightarrow> base L' = base L \<Longrightarrow> strike_state L' = strike_state L"
  by (auto simp: strike_state_def fun_eq_iff split: option.splits)

lemma strike_state_other [simp]:
  "strike_state (L\<lparr>pending := p\<rparr>) = strike_state L"
  "strike_state (L\<lparr>early_responses := e\<rparr>) = strike_state L"
  by (rule strike_state_cong; simp)+

lemma strike_state_award [simp]:
  "strike_state (fst (maybe_award rh i w st)) = strike_state (fst st)"
  by (rule strike_state_cong) simp_all

lemma strike_state_reset:
  "strike_state (fst (reset_served daa w i (L, out))) =
     (if \<not> w \<and> (case strike_state L i of None \<Rightarrow> False | Some e \<Rightarrow> strike_count e > 0)
      then (strike_state L)(i \<mapsto> \<lparr>strike_count = 0, last_daa = reset_preserved_last_daa L i daa\<rparr>)
      else strike_state L)"
  by (simp add: reset_served_def Let_def strike_state_insert)

text \<open>
  The ladder of strikes, from the counter \<open>c\<close> a miner has: the next miss is reported with the count
  \<open>c + 1\<close> and the penalty of that rung, and the counter restarts after the third.  The first rung is
  the gentle one for a miner with standing, and for every miner after the v2 activation.
\<close>

definition ladder :: "bool \<Rightarrow> u32 \<Rightarrow> ServiceMiss \<Rightarrow> bool" where
  "ladder gentle c miss \<longleftrightarrow>
     c = 0 \<and> miss_count miss = 1 \<and> miss_penalty miss = (if gentle then BurnClaims 5 else SlashAllPending)
     \<or> c = 1 \<and> miss_count miss = 2 \<and> miss_penalty miss = SlashAllPending
     \<or> c = 2 \<and> miss_count miss = 3 \<and> miss_penalty miss = Suspend"

fun escalates :: "bool \<Rightarrow> u32 \<Rightarrow> ServiceMiss list \<Rightarrow> u32 \<Rightarrow> bool" where
  "escalates gentle c [] c' \<longleftrightarrow> c' = c"
| "escalates gentle c (miss # ms) c' \<longleftrightarrow>
     ladder gentle c miss \<and> escalates gentle (if c < 2 then c + 1 else 0) ms c'"

definition strikes_ok :: "ServiceLedger \<Rightarrow> bool" where
  "strikes_ok L \<longleftrightarrow> (\<forall>m. consecutive_misses L m \<le> 2)"

definition misses_of :: "FoldOutcome \<Rightarrow> hash \<Rightarrow> ServiceMiss list" where
  "misses_of out m = filter (\<lambda>miss. miss_miner miss = m) (misses out)"

definition was_reset :: "FoldOutcome \<Rightarrow> hash \<Rightarrow> bool" where
  "was_reset out m \<longleftrightarrow> m \<in> fst ` set (resets out)"

lemma small_count: "(c :: u32) \<le> 2 \<longleftrightarrow> c = 0 \<or> c = 1 \<or> c = 2"
proof
  assume "c \<le> 2"
  then have "unat c = 0 \<or> unat c = 1 \<or> unat c = 2" by (auto simp: word_le_nat_alt)
  then show "c = 0 \<or> c = 1 \<or> c = 2" by (auto simp: word_unat_eq_iff)
qed auto

lemma escalates_snoc:
  "escalates g c (ms @ [miss]) d \<longleftrightarrow> (\<exists>b. escalates g c ms b \<and> ladder g b miss \<and> d = (if b < 2 then b + 1 else 0))"
  by (induction ms arbitrary: c) auto

lemma escalates_small: "escalates g c ms d \<Longrightarrow> c \<le> 2 \<Longrightarrow> d \<le> 2"
  by (induction ms arbitrary: c) (auto simp: small_count)

lemma v2_at_cong: "window_v2_activation_daa L' = window_v2_activation_daa L \<Longrightarrow> v2_at L' = v2_at L"
  by (simp add: v2_at_def fun_eq_iff)

lemma activation_frame [simp]:
  "window_v2_activation_daa (fst (maybe_award rh i w st)) = window_v2_activation_daa (fst st)"
  "window_v2_activation_daa (fst (reset_served daa w i st)) = window_v2_activation_daa (fst st)"
  using ledger_config_simps(1,2) by (simp_all add: ledger_config_def)

text \<open>Resets, by the responses or at the end of the audits, only clear counters and are reported.\<close>

interpretation resetting: response_invariant daa warmup
  "\<lambda>(L, out). misses out = ms \<and> set rs \<subseteq> set (resets out) \<and> v2_at L daa = gate
     \<and> (\<forall>m. consecutive_misses L m = c m \<or> consecutive_misses L m = 0 \<and> was_reset out m)"
  for daa warmup ms rs gate c
proof unfold_locales
  show "case reset_served daa warmup i st of (L, out) \<Rightarrow> misses out = ms \<and> set rs \<subseteq> set (resets out) \<and> v2_at L daa = gate
      \<and> (\<forall>m. consecutive_misses L m = c m \<or> consecutive_misses L m = 0 \<and> was_reset out m)"
    if "case st of (L, out) \<Rightarrow> misses out = ms \<and> set rs \<subseteq> set (resets out) \<and> v2_at L daa = gate
      \<and> (\<forall>m. consecutive_misses L m = c m \<or> consecutive_misses L m = 0 \<and> was_reset out m)" for st i
    using that
    by (cases st) (auto simp: reset_served_def consecutive_misses_def strike_state_insert was_reset_def v2_at_def Let_def)
qed (auto simp: consecutive_misses_def was_reset_def v2_at_def case_prod_beta)

text \<open>The audit loop resets nobody, and each strike climbs one rung.\<close>

interpretation climbing: audit_invariant daa warmup is_established cohort_of
  "\<lambda>(L, out). resets out = rs \<and> v2_at L daa = gate \<and> (\<forall>m. c m \<le> 2)
     \<and> (\<forall>m. escalates (is_established m \<or> gate) (c m) (misses_of out m) (consecutive_misses L m))"
  for daa warmup is_established cohort_of rs gate c
proof unfold_locales
  show "case st' of (L, out) \<Rightarrow> resets out = rs \<and> v2_at L daa = gate \<and> (\<forall>m. c m \<le> 2)
      \<and> (\<forall>m. escalates (is_established m \<or> gate) (c m) (misses_of out m) (consecutive_misses L m))"
    if inv: "case st of (L, out) \<Rightarrow> resets out = rs \<and> v2_at L daa = gate \<and> (\<forall>m. c m \<le> 2)
        \<and> (\<forall>m. escalates (is_established m \<or> gate) (c m) (misses_of out m) (consecutive_misses L m))"
      and strike: "strike_miner daa is_established rh st miner = Some st'" for st st' rh miner
  proof -
    obtain L out L' out' where [simp]: "st = (L, out)" "st' = (L', out')" by (cases st; cases st')
    from strike have "strike_miner daa is_established rh (L, out) miner = Some (L', out')" by simp
    then show ?thesis
    proof (cases rule: strike_miner_cases)
      case (struck count penalty burned V)
      let ?b = "consecutive_misses L miner"
      have b: "?b = 0 \<or> ?b = 1 \<or> ?b = 2"
        using inv escalates_small [of "is_established miner \<or> gate" "c miner"] by (auto simp: small_count)
      have "?b + 1 = word_of_nat (unat count)" unfolding struck(2) by simp
      then have count: "count = ?b + 1" by simp
      have climb: "ladder (is_established miner \<or> gate) ?b \<lparr>miss_request = rh, miss_miner = miner,
            miss_count = count, miss_penalty = penalty, miss_burned = burned\<rparr>"
        and left: "consecutive_misses L' miner = (if ?b < 2 then ?b + 1 else 0)"
        using b count struck(3) inv
        by (auto simp: ladder_def strike_penalty_at_def STRIKE_1_BURN_CLAIMS_def consecutive_misses_def
            struck(5) strike_state_insert)
      have other: "consecutive_misses L' m = consecutive_misses L m" if "m \<noteq> miner" for m
        using that by (simp add: consecutive_misses_def struck(5) strike_state_insert)
      have out: "misses_of out' m = misses_of out m @ (if m = miner then [\<lparr>miss_request = rh,
            miss_miner = miner, miss_count = count, miss_penalty = penalty, miss_burned = burned\<rparr>] else [])" for m
        by (simp add: misses_of_def struck(6))
      have "escalates (is_established m \<or> gate) (c m) (misses_of out' m) (consecutive_misses L' m)" for m
        using inv climb left other [of m] by (cases "m = miner") (auto simp: out escalates_snoc)
      moreover have "resets out' = resets out" "v2_at L' daa = v2_at L daa"
        by (simp_all add: struck(5,6) v2_at_def)
      ultimately show ?thesis using inv by simp
    qed (use inv in simp)
  qed
qed (auto simp: consecutive_misses_def misses_of_def v2_at_def case_prod_beta)

lemma fold_escalates:
  assumes "strikes_ok L"
    and "fold_inner daa requests request_rewards responses escrows producers None
           is_established cohort_of L = Some (L', out)"
  shows "\<exists>s e. (s = consecutive_misses L m \<or> s = 0 \<and> was_reset out m)
    \<and> escalates (is_established m \<or> v2_at L daa) s (misses_of out m) e
    \<and> (consecutive_misses L' m = e \<or> consecutive_misses L' m = 0 \<and> was_reset out m)"
proof -
  from assms(2) obtain L1 out1 L2 where
    c: "fold_claims daa escrows None (fold_producers producers L) = Some (L1, out1)"
    and r: "fold_requests daa requests request_rewards L1 = Some L2"
    and a: "fold_audits daa False is_established cohort_of
       (fold_responses daa False responses (L2, out1)) = Some (L', out)"
    by (rule fold_inner_phases) simp
  note k = fold_claims_live [OF c] fold_requests_frame [OF r]
  have counts: "consecutive_misses L2 = consecutive_misses L"
    using strike_state_cong [of L2 L] k by (simp add: consecutive_misses_def fun_eq_iff)
  have v2: "v2_at L2 daa = v2_at L daa" using k by (simp add: v2_at_def)
  obtain L3 out3 where responses: "fold_responses daa False responses (L2, out1) = (L3, out3)" by force
  have "misses out3 = [] \<and> v2_at L3 daa = v2_at L daa
      \<and> (\<forall>m. consecutive_misses L3 m = consecutive_misses L m \<or> consecutive_misses L3 m = 0 \<and> was_reset out3 m)"
    using resetting.responses_keep [where st = "(L2, out1)" and ms = "[]" and rs = "[]" and daa = daa
        and gate = "v2_at L daa" and c = "consecutive_misses L" and warmup = False and responses = responses]
      k counts v2 responses by simp
  note start = this
  from a responses obtain L4 out4 served where
    loop: "foldM (fold_request daa False is_established cohort_of) ((L3, out3), []) (map fst (pending L3))
        = Some ((L4, out4), served)"
    and final: "(L', out) = fold (reset_served daa False) served (L4, out4)"
    by (auto simp: fold_audits_def bind_eq_Some_conv)
  have small: "\<forall>m. consecutive_misses L3 m \<le> 2" using start assms(1) unfolding strikes_ok_def by (metis word_zero_le)
  have mid: "resets out4 = resets out3 \<and> v2_at L4 daa = v2_at L daa
      \<and> (\<forall>m. escalates (is_established m \<or> v2_at L daa) (consecutive_misses L3 m) (misses_of out4 m) (consecutive_misses L4 m))"
    using climbing.loop_keeps [OF _ loop, where rs = "resets out3" and gate = "v2_at L daa"
        and c = "consecutive_misses L3"] start small
    by (simp add: misses_of_def)
  have end': "misses out = misses out4 \<and> set (resets out4) \<subseteq> set (resets out)
      \<and> (\<forall>m. consecutive_misses L' m = consecutive_misses L4 m \<or> consecutive_misses L' m = 0 \<and> was_reset out m)"
    using resetting.resets_keep [where st = "(L4, out4)" and ms = "misses out4" and rs = "resets out4"
        and daa = daa and gate = "v2_at L4 daa" and c = "consecutive_misses L4" and warmup = False and served = served] by (simp flip: final)
  then have "was_reset out m" if "was_reset out3 m" for m
    using that mid by (auto simp: was_reset_def)
  moreover have "misses_of out = misses_of out4" using end' by (simp add: misses_of_def fun_eq_iff)
  ultimately show ?thesis using start mid end' by metis
qed

section \<open>Rate limit\<close>

definition last_strike :: "ServiceLedger \<Rightarrow> hash \<Rightarrow> u64" where
  "last_strike L m = (case strike_state L m of None \<Rightarrow> 0 | Some e \<Rightarrow> last_daa e)"

definition rate_trace :: "u64 \<Rightarrow> (hash \<Rightarrow> u64) \<Rightarrow> ServiceLedger \<times> FoldOutcome \<Rightarrow> bool" where
  "rate_trace daa last0 = (\<lambda>(L, out).
     0 < daa \<and> v2_at L daa \<and> distinct (map miss_miner (misses out))
     \<and> (\<forall>m. if m \<in> miss_miner ` set (misses out)
            then last_strike L m = daa
              \<and> (last0 m = 0 \<or> unat (last0 m) + unat SERVICE_STRIKE_INTERVAL_DAA \<le> unat daa)
            else last_strike L m = last0 m))"

lemma rate_trace_cong:
  assumes "rate_trace daa last0 st" and "last_strike (fst st') = last_strike (fst st)"
    and "window_v2_activation_daa (fst st') = window_v2_activation_daa (fst st)"
    and "misses (snd st') = misses (snd st)"
  shows "rate_trace daa last0 st'"
  using assms(1) v2_at_cong [OF assms(3)] assms(2,4)
  by (simp add: rate_trace_def case_prod_beta)

lemma last_strike_reset:
  assumes "v2_at (fst st) daa"
  shows "last_strike (fst (reset_served daa w i st)) = last_strike (fst st)"
proof
  fix m
  show "last_strike (fst (reset_served daa w i st)) m = last_strike (fst st) m"
    using assms strike_state_reset [of daa w i "fst st" "snd st"]
    by (auto simp: last_strike_def reset_preserved_last_daa_def split: option.splits if_splits)
qed

lemma rate_trace_strike:
  assumes inv: "rate_trace daa last0 (L, out)"
    and "strike_miner daa is_established rh (L, out) miner = Some (L', out')"
  shows "rate_trace daa last0 (L', out')"
  using assms(2)
proof (cases rule: strike_miner_cases)
  case limited
  then show ?thesis using inv by simp
next
  case (struck n penalty burned V)
  have v2: "v2_at L' daa = v2_at L daa" by (simp add: struck(5) v2_at_def)
  have last: "last_strike L' = (last_strike L)(miner := daa)"
    by (auto simp: last_strike_def struck(5) strike_state_insert fun_eq_iff)
  have free: "last_strike L miner = 0 \<or> unat (last_strike L miner) + unat SERVICE_STRIKE_INTERVAL_DAA \<le> unat daa"
    using struck(1) by (auto simp: rate_limited_def last_strike_def not_less split: option.splits)
  have new: "miner \<notin> miss_miner ` set (misses out)"
  proof
    assume "miner \<in> miss_miner ` set (misses out)"
    then have "last_strike L miner = daa" "0 < daa" using inv by (auto simp: rate_trace_def)
    then show False using free by (simp add: service_constants)
  qed
  have "last_strike L miner = last0 miner" using inv new by (simp add: rate_trace_def)
  then show ?thesis using inv new free by (auto simp: rate_trace_def v2 last struck(6))
qed

interpretation rate: ledger_invariant daa warmup is_established cohort_of "rate_trace daa last0"
  for daa warmup is_established cohort_of last0
proof unfold_locales
  show "rate_trace daa last0 (maybe_award rh i warmup st)" if "rate_trace daa last0 st" for st rh i
    by (rule rate_trace_cong [OF that]) (simp_all add: last_strike_def fun_eq_iff)
  show "rate_trace daa last0 (reset_served daa warmup i st)" if "rate_trace daa last0 st" for st i
  proof (rule rate_trace_cong [OF that])
    show "last_strike (fst (reset_served daa warmup i st)) = last_strike (fst st)"
      using that by (intro last_strike_reset) (auto simp: rate_trace_def)
  qed simp_all
  show "rate_trace daa last0 st'" if "rate_trace daa last0 st"
    and "strike_miner daa is_established rh st m = Some st'" for st st' rh m
    using that by (cases st; cases st') (auto intro: rate_trace_strike)
qed (erule rate_trace_cong; simp add: last_strike_def fun_eq_iff)+

lemma fold_rate:
  assumes "v2_at L daa" and "0 < daa"
    and "fold_inner daa requests request_rewards responses escrows producers None
           is_established cohort_of L = Some (L', out)"
  shows "rate_trace daa (last_strike L) (L', out)"
proof -
  from assms(3) obtain L1 out1 L2 where
    c: "fold_claims daa escrows None (fold_producers producers L) = Some (L1, out1)"
    and r: "fold_requests daa requests request_rewards L1 = Some L2"
    and a: "fold_audits daa False is_established cohort_of
       (fold_responses daa False responses (L2, out1)) = Some (L', out)"
    by (rule fold_inner_phases) simp
  note k = fold_claims_live [OF c] fold_requests_frame [OF r]
  have "strike_state L2 = strike_state L" using k by (intro strike_state_cong) simp_all
  moreover have "v2_at L2 = v2_at L" using k by (intro v2_at_cong) simp
  ultimately have "rate_trace daa (last_strike L) (L2, out1)"
    using assms(1,2) k(2) by (simp add: rate_trace_def last_strike_def)
  then show ?thesis by (rule rate.phases_keep [OF _ a])
qed

text \<open>A sequence of live folds after the v2 activation, with the log of dated misses it reports.\<close>

inductive ledger_run :: "ServiceLedger \<Rightarrow> (u64 \<times> ServiceMiss) list \<Rightarrow> ServiceLedger \<Rightarrow> bool" where
  run_start: "ledger_run L [] L"
| run_block: "ledger_run L log L1 \<Longrightarrow> v2_at L1 daa \<Longrightarrow> 0 < daa \<Longrightarrow>
    fold_inner daa requests request_rewards responses escrows producers None
      is_established cohort_of L1 = Some (L2, out) \<Longrightarrow>
    ledger_run L (log @ map (Pair daa) (misses out)) L2"

definition spaced :: "u64 \<times> ServiceMiss \<Rightarrow> u64 \<times> ServiceMiss \<Rightarrow> bool" where
  "spaced p q \<longleftrightarrow> (miss_miner (snd p) = miss_miner (snd q) \<longrightarrow>
     unat (fst p) + unat SERVICE_STRIKE_INTERVAL_DAA \<le> unat (fst q))"

lemma sorted_wrt_same_day:
  "distinct (map miss_miner ms) \<Longrightarrow> sorted_wrt spaced (map (Pair daa) ms)"
  by (induction ms) (auto simp: spaced_def)

lemma ledger_run_spaced:
  "ledger_run L log L' \<Longrightarrow> sorted_wrt spaced log
     \<and> (\<forall>p\<in>set log. 0 < fst p \<and> fst p \<le> last_strike L' (miss_miner (snd p)))"
proof (induction rule: ledger_run.induct)
  case (run_block L log L1 daa requests request_rewards responses escrows producers
      is_established cohort_of L2 out)
  from fold_rate [OF run_block.hyps(2-4)]
  have dist: "distinct (map miss_miner (misses out))"
    and tr: "\<And>m. if m \<in> miss_miner ` set (misses out)
            then last_strike L2 m = daa
              \<and> (last_strike L1 m = 0 \<or> unat (last_strike L1 m) + unat SERVICE_STRIKE_INTERVAL_DAA \<le> unat daa)
            else last_strike L2 m = last_strike L1 m"
    by (auto simp: rate_trace_def)
  have old: "spaced p (daa, miss) \<and> fst p \<le> daa"
    if "p \<in> set log" "miss \<in> set (misses out)" "miss_miner (snd p) = miss_miner miss" for p miss
  proof -
    have "0 < fst p" "fst p \<le> last_strike L1 (miss_miner miss)" using run_block.IH that by auto
    moreover from this have "last_strike L1 (miss_miner miss) \<noteq> 0" by auto
    moreover have "miss_miner miss \<in> miss_miner ` set (misses out)" using that(2) by simp
    ultimately show ?thesis
      using tr [of "miss_miner miss"] by (auto simp: spaced_def word_le_nat_alt)
  qed
  have "sorted_wrt spaced (log @ map (Pair daa) (misses out))"
    using run_block.IH sorted_wrt_same_day [OF dist] old
    by (auto simp: sorted_wrt_append) (metis fst_conv snd_conv spaced_def)
  moreover have "0 < fst p \<and> fst p \<le> last_strike L2 (miss_miner (snd p))"
    if "p \<in> set (log @ map (Pair daa) (misses out))" for p
  proof (cases "p \<in> set log")
    case True
    then have p: "0 < fst p" "fst p \<le> last_strike L1 (miss_miner (snd p))" using run_block.IH by auto
    show ?thesis
    proof (cases "miss_miner (snd p) \<in> miss_miner ` set (misses out)")
      case struck: True
      then obtain miss where "miss \<in> set (misses out)" "miss_miner (snd p) = miss_miner miss" by auto
      then show ?thesis using old [OF True] tr [of "miss_miner (snd p)"] p struck by auto
    qed (use p tr [of "miss_miner (snd p)"] in simp)
  next
    case False
    then show ?thesis using that run_block.hyps(3) tr [of "miss_miner (snd p)"] by auto
  qed
  ultimately show ?case by blast
qed simp

end
