(* ===== verification/Service_Restore.thy ===== *)
theory Service_Restore
  imports Service_Snapshot Service_Ledger
begin

text \<open>
  A ledger rebuilt from a snapshot is indistinguishable from the one it was taken of: every phase of
  the fold commutes with \<open>restore_snapshot\<close> after \<open>snapshot\<close>, which merges the strike and sighting
  baselines into their deltas.
\<close>

section \<open>Merging the baselines\<close>

definition merge :: "('k::linorder, 'v) btree \<Rightarrow> ('k, 'v) btree \<Rightarrow> ('k, 'v) btree" where
  "merge b d = fold (\<lambda>(k, v). bt_insert k v) d b"

lemma bt_wf_merge [simp]: "bt_wf b \<Longrightarrow> bt_wf (merge b d)"
  unfolding merge_def by (rule bt_insert_all_wf_get)

lemma bt_get_merge: "bt_wf b \<Longrightarrow> bt_wf d \<Longrightarrow> bt_get (merge b d) = bt_get b ++ bt_get d"
  unfolding merge_def by (simp add: bt_insert_all_wf_get map_of_rev_distinct bt_wf_distinct)

lemma merge_insert:
  "bt_wf b \<Longrightarrow> bt_wf d \<Longrightarrow> merge b (bt_insert k v d) = bt_insert k v (merge b d)"
  by (intro bt_ext) (simp_all add: bt_get_merge)

lemma merge_empty: "bt_wf d \<Longrightarrow> merge [] d = d"
  by (intro bt_ext) (simp_all add: bt_get_merge)

definition bases_wf :: "ServiceLedger \<Rightarrow> bool" where
  "bases_wf L \<longleftrightarrow> bt_wf (strikes L) \<and> bt_wf (base L) \<and> bt_wf (first_seen L) \<and> bt_wf (first_seen_base L)"

definition norm :: "ServiceLedger \<Rightarrow> ServiceLedger" where
  "norm L = restore_snapshot (snapshot L) L"

lemma norm_fields [simp]:
  "vault (norm L) = vault L" "pending (norm L) = pending L"
  "early_responses (norm L) = early_responses L" "audited (norm L) = audited L"
  "producer_spk (norm L) = producer_spk L"
  "window_v2_activation_daa (norm L) = window_v2_activation_daa L"
  "burnable_window_daa (norm L) = burnable_window_daa L"
  "reward_routing_daa (norm L) = reward_routing_daa L"
  "strikes (norm L) = merge (base L) (strikes L)" "base (norm L) = []"
  "first_seen (norm L) = merge (first_seen_base L) (first_seen L)" "first_seen_base (norm L) = []"
  by (simp_all add: norm_def restore_snapshot_def snapshot_def merge_def)

lemma norm_updates [simp]:
  "norm (L\<lparr>vault := v\<rparr>) = (norm L)\<lparr>vault := v\<rparr>"
  "norm (L\<lparr>pending := p\<rparr>) = (norm L)\<lparr>pending := p\<rparr>"
  "norm (L\<lparr>early_responses := e\<rparr>) = (norm L)\<lparr>early_responses := e\<rparr>"
  "norm (L\<lparr>audited := a\<rparr>) = (norm L)\<lparr>audited := a\<rparr>"
  "norm (L\<lparr>producer_spk := k\<rparr>) = (norm L)\<lparr>producer_spk := k\<rparr>"
  by (simp_all add: norm_def restore_snapshot_def snapshot_def)

lemma norm_strikes:
  "bases_wf L \<Longrightarrow> norm (L\<lparr>strikes := bt_insert m e (strikes L)\<rparr>)
     = (norm L)\<lparr>strikes := bt_insert m e (strikes (norm L))\<rparr>"
  by (rule ServiceLedger.equality) (simp_all add: merge_insert bases_wf_def)

lemma norm_first_seen:
  "bases_wf L \<Longrightarrow> norm (L\<lparr>first_seen := bt_insert m d (first_seen L)\<rparr>)
     = (norm L)\<lparr>first_seen := bt_insert m d (first_seen (norm L))\<rparr>"
  by (rule ServiceLedger.equality) (simp_all add: merge_insert bases_wf_def)

lemma bases_wf_updates [simp]:
  "bases_wf (L\<lparr>vault := v\<rparr>) = bases_wf L" "bases_wf (L\<lparr>pending := p\<rparr>) = bases_wf L"
  "bases_wf (L\<lparr>early_responses := e\<rparr>) = bases_wf L" "bases_wf (L\<lparr>audited := a\<rparr>) = bases_wf L"
  "bases_wf (L\<lparr>producer_spk := k\<rparr>) = bases_wf L"
  "bases_wf L \<Longrightarrow> bases_wf (L\<lparr>strikes := bt_insert m entry (strikes L)\<rparr>)"
  "bases_wf L \<Longrightarrow> bases_wf (L\<lparr>first_seen := bt_insert m d (first_seen L)\<rparr>)"
  by (simp_all add: bases_wf_def)

lemma norm_lookups:
  assumes "bases_wf L"
  shows "strike_state (norm L) = strike_state L"
    and "consecutive_misses (norm L) = consecutive_misses L"
    and "v2_at (norm L) = v2_at L"
    and "reset_preserved_last_daa (norm L) = reset_preserved_last_daa L"
    and "strike_guard daa (norm L) = strike_guard daa L"
proof -
  show s: "strike_state (norm L) = strike_state L"
    using assms by (auto simp: strike_state_def bt_get_merge bases_wf_def map_add_def fun_eq_iff
        split: option.splits)
  show v: "v2_at (norm L) = v2_at L" by (simp add: v2_at_def fun_eq_iff)
  show "consecutive_misses (norm L) = consecutive_misses L"
    by (simp add: consecutive_misses_def s fun_eq_iff)
  show "reset_preserved_last_daa (norm L) = reset_preserved_last_daa L"
    by (simp add: reset_preserved_last_daa_def s v fun_eq_iff)
  show "strike_guard daa (norm L) = strike_guard daa L" by (simp add: strike_guard_def s fun_eq_iff)
qed

section \<open>Each phase commutes\<close>

lemma norm_escrow:
  assumes "bases_wf L"
  shows "fold_escrow w e (norm L, sighted) = apfst norm (fold_escrow w e (L, sighted))
    \<and> bases_wf (fst (fold_escrow w e (L, sighted)))"
proof -
  have "bt_contains_key (first_seen (norm L)) m \<longleftrightarrow>
      bt_contains_key (first_seen L) m \<or> bt_contains_key (first_seen_base L) m" for m
    using assms by (auto simp: bt_contains_key_def bt_get_merge bases_wf_def)
  moreover have "\<not> bt_contains_key (first_seen_base (norm L)) m" for m
    by (simp add: bt_contains_key_def)
  ultimately show ?thesis
    using assms by (cases e) (auto simp: fold_escrow_def Let_def norm_first_seen simp del: norm_fields(11,12))
qed

lemma norm_escrows:
  "bases_wf L \<Longrightarrow> fold (fold_escrow w) es (norm L, sighted) = apfst norm (fold (fold_escrow w) es (L, sighted))
     \<and> bases_wf (fst (fold (fold_escrow w) es (L, sighted)))"
proof (induction es arbitrary: L sighted)
  case (Cons e es)
  obtain L1 s1 where st: "fold_escrow w e (L, sighted) = (L1, s1)" by force
  then show ?case using Cons.IH [of L1 s1] norm_escrow [OF Cons.prems, of w e sighted] by simp
qed simp

lemma norm_claims:
  assumes "bases_wf L"
  shows "fold_claims daa escrows w (norm L) = map_option (apfst norm) (fold_claims daa escrows w L)"
    and "fold_claims daa escrows w L = Some (L', out) \<Longrightarrow> bases_wf L'"
proof -
  obtain L1 s1 where st: "fold (fold_escrow w) escrows (L, []) = (L1, s1)" by force
  note n = norm_escrows [OF assms, of w escrows "[]", unfolded st]
  show "fold_claims daa escrows w (norm L) = map_option (apfst norm) (fold_claims daa escrows w L)"
    using n st by (cases "expire_vault (case burnable_window_daa L1 of None \<Rightarrow> SERVICE_BURNABLE_WINDOW_DAA
        | Some w \<Rightarrow> w) daa (vault L1)") (auto simp: fold_claims_def Let_def)
  show "bases_wf L'" if "fold_claims daa escrows w L = Some (L', out)"
    using that n st by (auto simp: fold_claims_def Let_def bind_eq_Some_conv)
qed

lemma norm_admit: "admit_request daa g rr r (norm L) = norm (admit_request daa g rr r L)"
  by (cases r) (auto simp: admit_request_def Let_def)

lemma bases_wf_admit: "bases_wf (admit_request daa g rr r L) = bases_wf L"
  by (cases r) (auto simp: admit_request_def Let_def)

lemma norm_requests:
  "fold_requests daa requests rr (norm L) = map_option norm (fold_requests daa requests rr L)"
  "fold_requests daa requests rr L = Some L' \<Longrightarrow> bases_wf L' = bases_wf L"
proof -
  have n: "fold (admit_request daa g rr) requests (norm L) = norm (fold (admit_request daa g rr) requests L)"
    for g L by (induction requests arbitrary: L) (simp_all add: norm_admit)
  have b: "bases_wf (fold (admit_request daa g rr) requests L) = bases_wf L" for g L
    by (induction requests arbitrary: L) (simp_all add: bases_wf_admit)
  show "fold_requests daa requests rr (norm L) = map_option norm (fold_requests daa requests rr L)"
    by (cases "retain_recent accepted_daa SERVICE_LEDGER_HORIZON_DAA daa (pending L)";
        cases "retain_recent fst SERVICE_EARLY_RESPONSE_HORIZON_DAA daa (early_responses L)";
        cases "retain_recent id SERVICE_AUDITED_MEMORY_DAA daa (audited L)";
        cases "case reward_routing_daa L of None \<Rightarrow> False | Some a \<Rightarrow> a \<le> daa")
      (simp_all add: fold_requests_def Let_def norm_updates [symmetric] n del: norm_updates)
  show "bases_wf L' = bases_wf L" if "fold_requests daa requests rr L = Some L'"
    by (rule fold_requests_phases [OF that]) (simp add: b)
qed

lemma norm_award:
  "maybe_award rh i w (norm L, out) = apfst norm (maybe_award rh i w (L, out))"
  "bases_wf (fst (maybe_award rh i w (L, out))) = bases_wf L"
  by (simp_all add: maybe_award_def split: option.splits)

lemma norm_reset:
  "bases_wf L \<Longrightarrow> reset_served daa w i (norm L, out) = apfst norm (reset_served daa w i (L, out))
     \<and> bases_wf (fst (reset_served daa w i (L, out)))"
  by (simp add: reset_served_def Let_def norm_lookups norm_strikes del: norm_fields(9))

lemma norm_resets:
  "bases_wf (fst st) \<Longrightarrow> fold (reset_served daa w) ids (apfst norm st) = apfst norm (fold (reset_served daa w) ids st)
     \<and> bases_wf (fst (fold (reset_served daa w) ids st))"
proof (induction ids arbitrary: st)
  case (Cons i ids)
  obtain L out where [simp]: "st = (L, out)" by force
  note r = norm_reset [of L daa w i out]
  show ?case using Cons.IH [of "reset_served daa w i st"] Cons.prems r by simp
qed simp

lemma norm_response:
  assumes "bases_wf L"
  shows "fold_response daa w (rh, r) (norm L, out) = apfst norm (fold_response daa w (rh, r) (L, out))
    \<and> bases_wf (fst (fold_response daa w (rh, r) (L, out)))"
proof (cases r)
  case None
  then show ?thesis using assms by (simp add: fold_response_def)
next
  case r: (Some key)
  show ?thesis
  proof (cases "bt_get (pending L) rh")
    case None
    then show ?thesis using assms r by (simp add: fold_response_def split: prod.splits)
  next
    case req: (Some req)
    show ?thesis
    proof (cases "audit req")
      case None
      then show ?thesis using assms r req by (simp add: fold_response_def)
    next
      case (Some a)
      obtain resp served where
        c: "credit_key (cohort a) (delegations a) key (responded a, []) = (resp, served)" by force
      define L' where "L' = L\<lparr>pending := bt_insert rh (req\<lparr>audit := Some (a\<lparr>responded := resp\<rparr>)\<rparr>) (pending L)\<rparr>"
      define st where "st = (case served of [] \<Rightarrow> (L', out) | first # _ \<Rightarrow> maybe_award rh first w (L', out))"
      have wf: "bases_wf (fst st)"
        using assms by (auto simp: st_def L'_def norm_award split: list.splits)
      have st: "(case served of [] \<Rightarrow> (norm L', out) | first # _ \<Rightarrow> maybe_award rh first w (norm L', out)) = apfst norm st"
        by (auto simp: st_def norm_award split: list.splits)
      have "fold_response daa w (rh, r) (L, out) = fold (reset_served daa w) served st"
        using r req Some c unfolding st_def L'_def by (simp add: fold_response_def Let_def)
      moreover have "fold_response daa w (rh, r) (norm L, out) = fold (reset_served daa w) served (apfst norm st)"
        using r req Some c unfolding st [symmetric] L'_def norm_updates by (simp add: fold_response_def Let_def)
      ultimately show ?thesis using norm_resets [OF wf] by simp
    qed
  qed
qed

lemma norm_responses:
  assumes "bases_wf (fst st)"
  shows "fold_responses daa w rs (apfst norm st) = apfst norm (fold_responses daa w rs st)
    \<and> bases_wf (fst (fold_responses daa w rs st))"
proof -
  have "fold (fold_response daa w) rs (apfst norm st) = apfst norm (fold (fold_response daa w) rs st)
    \<and> bases_wf (fst (fold (fold_response daa w) rs st))" using assms
  proof (induction rs arbitrary: st)
    case (Cons r rs)
    obtain L out rh k where [simp]: "st = (L, out)" "r = (rh, k)" by (cases st; cases r)
    note n = norm_response [of L daa w rh k out]
    show ?case using Cons.IH [of "fold_response daa w r st"] Cons.prems n by simp
  qed simp
  then show ?thesis by (auto simp: fold_responses_def split: prod.splits)
qed

lemma norm_strikes_vault:
  "bases_wf L \<Longrightarrow> norm (L\<lparr>vault := V, strikes := bt_insert m e (strikes L)\<rparr>)
     = (norm L)\<lparr>vault := V, strikes := bt_insert m e (strikes (norm L))\<rparr>"
  by (rule ServiceLedger.equality) (simp_all add: merge_insert bases_wf_def)

lemma norm_strike:
  assumes "bases_wf L"
  shows "strike_miner daa est rh (norm L, out) m = map_option (apfst norm) (strike_miner daa est rh (L, out) m)
    \<and> (\<forall>st. strike_miner daa est rh (L, out) m = Some st \<longrightarrow> bases_wf (fst st))"
proof (intro conjI allI impI)
  have v2: "v2_at (K\<lparr>strikes := s\<rparr>) daa = v2_at K daa" for K s by (simp add: v2_at_def)
  show "strike_miner daa est rh (norm L, out) m = map_option (apfst norm) (strike_miner daa est rh (L, out) m)"
  proof (cases "strike_guard daa L m")
    case (Some b)
    show ?thesis
    proof (cases b)
      case True
      then show ?thesis using Some assms by (simp add: strike_miner_def norm_lookups)
    next
      case False
      show ?thesis
      proof (cases "checked_add (consecutive_misses L m) 1")
        case None
        then show ?thesis using Some False assms by (simp add: strike_miner_def norm_lookups)
      next
        case n: (Some n)
        obtain burned V where b: "burn_vault (vault L) m (strike_penalty_at n (est m) (v2_at L daa)) = (burned, V)"
          by force
        show ?thesis
          using Some False assms n b
          by (cases "strike_penalty_at n (est m) (v2_at L daa) = Suspend")
            (simp_all add: strike_miner_def norm_lookups Let_def v2 burn_def norm_strikes norm_strikes_vault
              del: norm_fields(9))
      qed
    qed
  qed (use assms in \<open>simp add: strike_miner_def norm_lookups\<close>)
  show "bases_wf (fst st)" if "strike_miner daa est rh (L, out) m = Some st" for st
    using that assms by (cases st) (auto elim!: strike_miner_cases simp: bases_wf_def)
qed

lemma norm_foldM:
  assumes "\<And>L out x. bases_wf L \<Longrightarrow> f (norm L, out) x = map_option (apfst norm) (f (L, out) x)
      \<and> (\<forall>st. f (L, out) x = Some st \<longrightarrow> bases_wf (fst st))"
  shows "bases_wf (fst st) \<Longrightarrow> foldM f (apfst norm st) xs = map_option (apfst norm) (foldM f st xs)
      \<and> (\<forall>st'. foldM f st xs = Some st' \<longrightarrow> bases_wf (fst st'))"
proof (induction xs arbitrary: st)
  case (Cons x xs)
  have a: "f (apfst norm st) x = map_option (apfst norm) (f st x)"
    and wf: "\<And>st1. f st x = Some st1 \<Longrightarrow> bases_wf (fst st1)"
    using assms [of "fst st" "snd st" x] Cons.prems by (simp_all add: apfst_def map_prod_def split_beta)
  show ?case
  proof (cases "f st x")
    case None
    then show ?thesis by (simp add: a)
  next
    case (Some st1)
    from Cons.IH [OF wf [OF this]] show ?thesis by (simp add: a Some)
  qed
qed simp

lemma norm_close:
  assumes "bases_wf L"
  shows "close_audit daa w est rh a (norm L, out) = map_option (apfst norm) (close_audit daa w est rh a (L, out))
    \<and> (\<forall>st. close_audit daa w est rh a (L, out) = Some st \<longrightarrow> bases_wf (fst st))"
proof -
  note f = norm_foldM [of "strike_miner daa est rh" "(L, out)" "filter (\<lambda>m. m \<notin> set (responded a)) (cohort a)",
      OF norm_strike]
  show ?thesis
    using f assms
    by (cases "foldM (strike_miner daa est rh) (L, out) (filter (\<lambda>m. m \<notin> set (responded a)) (cohort a))")
      (auto simp: close_audit_def)
qed

lemma norm_arm:
  assumes "bases_wf L"
  shows "arm_audit daa w c rh req ((norm L, out), s)
      = map_option (apfst (apfst norm)) (arm_audit daa w c rh req ((L, out), s))
    \<and> (\<forall>x. arm_audit daa w c rh req ((L, out), s) = Some x \<longrightarrow> bases_wf (fst (fst x)))"
proof (cases "c (req_tier req) = []")
  case True
  then show ?thesis using assms by (simp add: arm_audit_def)
next
  case False
  define ids where "ids = dedup (sort (map fst (c (req_tier req))))"
  define dels where "dels = dedup (sort (map (\<lambda>(id, esc). (esc, id)) (c (req_tier req))))"
  obtain resp s' where cr: "credit_early ids dels (early_responders req) ([], s) = (resp, s')" by force
  show ?thesis
    using assms False cr
    by (cases "checked_add daa (service_window_daa_at (req_tier req) (req_max_tokens req) (v2_at L daa))";
        cases resp)
      (simp_all add: arm_audit_def Let_def ids_def [symmetric] dels_def [symmetric] norm_lookups norm_award
        flip: norm_updates)
qed

lemma norm_request:
  assumes "bases_wf L"
  shows "fold_request daa w est c ((norm L, out), s) rh
      = map_option (apfst (apfst norm)) (fold_request daa w est c ((L, out), s) rh)
    \<and> (\<forall>x. fold_request daa w est c ((L, out), s) rh = Some x \<longrightarrow> bases_wf (fst (fst x)))"
proof (cases "bt_get (pending L) rh")
  case (Some req)
  show ?thesis
  proof (cases "audit req")
    case None
    then show ?thesis using Some assms norm_arm [OF assms, of daa w c rh req out s] by (simp add: fold_request_def)
  next
    case a: (Some a)
    then show ?thesis
      using Some assms norm_close [OF assms, of daa w est rh a out]
      by (cases "close_audit daa w est rh a (L, out)") (auto simp: fold_request_def)
  qed
qed (simp add: fold_request_def)

lemma norm_audits:
  assumes "bases_wf (fst st)"
  shows "fold_audits daa w est c (apfst norm st) = map_option (apfst norm) (fold_audits daa w est c st)"
proof -
  define g :: "(ServiceLedger \<times> FoldOutcome) \<times> hash list \<Rightarrow> (ServiceLedger \<times> FoldOutcome) \<times> hash list"
    where "g = apfst (apfst norm)"
  have "bases_wf (fst (fst x)) \<Longrightarrow> foldM (fold_request daa w est c) (g x) rhs
        = map_option g (foldM (fold_request daa w est c) x rhs)
      \<and> (\<forall>y. foldM (fold_request daa w est c) x rhs = Some y \<longrightarrow> bases_wf (fst (fst y)))" for x rhs
  proof (induction rhs arbitrary: x)
    case (Cons rh rhs)
    obtain L out s where x: "x = ((L, out), s)" by (metis prod.exhaust)
    have a: "fold_request daa w est c (g x) rh = map_option g (fold_request daa w est c x rh)"
      and wf: "\<And>y. fold_request daa w est c x rh = Some y \<Longrightarrow> bases_wf (fst (fst y))"
      using norm_request [of L daa w est c out s rh] Cons.prems by (simp_all add: g_def x)
    show ?case
    proof (cases "fold_request daa w est c x rh")
      case None
      then show ?thesis by (simp add: a)
    next
      case (Some y)
      from Cons.IH [OF wf [OF this]] show ?thesis by (simp add: a Some)
    qed
  qed simp
  note loop = this [of "(st, [])" "map fst (pending (fst st))"]
  have keys: "pending (fst (apfst norm st)) = pending (fst st)" by simp
  have start: "(apfst norm st, []) = g (st, [])" by (simp add: g_def)
  show ?thesis
  proof (cases "foldM (fold_request daa w est c) (st, []) (map fst (pending (fst st)))")
    case None
    then show ?thesis using loop assms by (simp add: fold_audits_def keys start)
  next
    case (Some y)
    obtain mid served where y: "y = (mid, served)" by (cases y)
    have wf: "bases_wf (fst mid)" using loop assms Some y by simp
    show ?thesis
      using loop assms Some y norm_resets [OF wf, of daa w served]
      by (simp add: fold_audits_def keys start) (simp add: g_def)
  qed
qed

lemma norm_fold:
  assumes "bases_wf L"
  shows "fold_inner daa reqs rr rs es ps w est c (norm L)
    = map_option (apfst norm) (fold_inner daa reqs rr rs es ps w est c L)"
proof -
  have p: "fold_producers ps (norm L) = norm (fold_producers ps L)" by (simp add: fold_producers_def)
  have wf: "bases_wf (fold_producers ps L)" using assms by (simp add: fold_producers_def)
  note c = norm_claims [OF wf, of daa es w]
  show ?thesis
  proof (cases "fold_claims daa es w (fold_producers ps L)")
    case None
    then show ?thesis using c(1) by (simp add: fold_inner_def p Let_def)
  next
    case (Some st)
    obtain L1 out1 where st: "st = (L1, out1)" by (cases st)
    have wf1: "bases_wf L1" using c(2) Some st by simp
    show ?thesis
    proof (cases "fold_requests daa reqs rr L1")
      case None
      then show ?thesis using c(1) Some st by (simp add: fold_inner_def p Let_def norm_requests(1))
    next
      case L2: (Some L2)
      have wf2: "bases_wf (fst (L2, out1))" using norm_requests(2) [OF L2] wf1 by simp
      note r = norm_responses [OF wf2, of daa "w \<noteq> None" rs]
      from r have a: "fold_audits daa (w \<noteq> None) est c (apfst norm (fold_responses daa (w \<noteq> None) rs (L2, out1)))
        = map_option (apfst norm) (fold_audits daa (w \<noteq> None) est c (fold_responses daa (w \<noteq> None) rs (L2, out1)))"
        by (intro norm_audits) simp
      have n: "fold_responses daa (w \<noteq> None) rs (norm L2, out1)
          = apfst norm (fold_responses daa (w \<noteq> None) rs (L2, out1))" using r by simp
      show ?thesis
        unfolding fold_inner_def Let_def p c(1) Some st
        using a n by (simp add: norm_requests(1) L2 del: not_None_eq)
    qed
  qed
qed

lemma restore_norm:
  "ledger_config M = ledger_config L \<Longrightarrow> restore_snapshot (snapshot L) M = norm L"
  by (simp add: norm_def restore_snapshot_def snapshot_def ledger_config_def)

lemma fold_inner_config:
  assumes "fold_inner daa reqs rr rs es ps w est c L = Some (L', out)"
  shows "ledger_config L' = ledger_config L"
proof -
  from assms obtain L1 out1 L2 where
    cl: "fold_claims daa es w (fold_producers ps L) = Some (L1, out1)"
    and r: "fold_requests daa reqs rr L1 = Some L2"
    and a: "fold_audits daa (w \<noteq> None) est c (fold_responses daa (w \<noteq> None) rs (L2, out1)) = Some (L', out)"
    by (rule fold_inner_phases)
  obtain La s where f: "fold (fold_escrow w) es (fold_producers ps L, []) = (La, s)" by force
  have "ledger_config L1 = ledger_config La"
    using cl f by (auto simp: fold_claims_def Let_def bind_eq_Some_conv)
  also have "\<dots> = ledger_config L"
    using fold_escrows_frame [of La w es "fold_producers ps L" "[]"] f by (simp add: ledger_config_def)
  finally have "ledger_config L2 = ledger_config L"
    using fold_requests_frame [OF r] by (simp add: ledger_config_def)
  then show ?thesis using config.phases_keep [OF _ a, of "ledger_config L"] by simp
qed

end
