(* ===== verification/Service_Audits.thy ===== *)
theory Service_Audits
  imports Service_Ledger
begin

text \<open>
  The audits of the service ledger: the well-formedness every fold keeps, where the misses of a fold
  come from, and when a reward is decided.
\<close>

section \<open>Well-formed requests\<close>

definition audit_wf :: "Audit \<Rightarrow> bool" where
  "audit_wf a \<longleftrightarrow> sorted_wrt (<) (cohort a) \<and> distinct (responded a) \<and> set (responded a) \<subseteq> set (cohort a)
     \<and> snd ` set (delegations a) \<subseteq> set (cohort a)"

definition request_wf :: "PendingRequest \<Rightarrow> bool" where
  "request_wf r \<longleftrightarrow> (case audit r of
      None \<Rightarrow> winner r = None
    | Some a \<Rightarrow> audit_wf a \<and> (\<forall>w. winner r = Some w \<longrightarrow> w \<in> set (responded a)))"

definition pending_wf :: "(hash, PendingRequest) btree \<Rightarrow> bool" where
  "pending_wf p \<longleftrightarrow> bt_wf p \<and> (\<forall>rh r. bt_get p rh = Some r \<longrightarrow> request_wf r)"

lemma pending_wf_insert: "pending_wf p \<Longrightarrow> request_wf r \<Longrightarrow> pending_wf (bt_insert rh r p)"
  by (auto simp: pending_wf_def)

lemma pending_wf_remove: "pending_wf p \<Longrightarrow> pending_wf (bt_remove rh p)"
  by (auto simp: pending_wf_def split: if_splits)

lemma pending_wf_get: "pending_wf p \<Longrightarrow> bt_get p rh = Some r \<Longrightarrow> request_wf r"
  by (auto simp: pending_wf_def)

lemma credit_wf:
  assumes "audit_wf a" and "credit_key (cohort a) (delegations a) key (responded a, []) = (resp, served)"
  shows "audit_wf (a\<lparr>responded := resp\<rparr>)" and "set (responded a) \<subseteq> set resp"
  using credit_key_new [OF assms(2)] assms(1) by (auto simp: audit_wf_def)

lemma arm_wf:
  assumes "ids = dedup (sort (map fst pairs))"
    and "dels = dedup (sort (map (\<lambda>(id, esc). (esc, id)) pairs))"
    and "credit_early ids dels keys ([], served) = (resp, served')"
  shows "audit_wf \<lparr>cohort = ids, delegations = dels, responded = resp, window_end_daa = w\<rparr>"
proof -
  have "sorted_wrt (<) ids" unfolding assms(1) by (rule sorted_dedup_strict) simp
  then show ?thesis
    using credit_early_new [OF assms(3)] by (force simp: audit_wf_def assms(1,2))
qed

lemma award_wf:
  assumes "pending_wf (pending (fst st))" and "bt_get (pending (fst st)) rh = Some req"
    and "audit req = Some a" and "i \<in> set (responded a)"
  shows "pending_wf (pending (fst (maybe_award rh i w st)))"
proof -
  have "request_wf (req\<lparr>winner := Some i\<rparr>)"
    using pending_wf_get [OF assms(1,2)] assms(3,4) by (simp add: request_wf_def)
  then show ?thesis
    using assms by (cases st) (auto simp: maybe_award_def intro: pending_wf_insert split: option.splits)
qed

interpretation requests: ledger_invariant daa warmup is_established cohort_of
  "\<lambda>st. pending_wf (pending (fst st))" for daa warmup is_established cohort_of
proof unfold_locales
  show "pending_wf (pending (fst (L\<lparr>pending := bt_insert rh (req\<lparr>early_responders := push_new r (early_responders req)\<rparr>) (pending L)\<rparr>, out)))"
    if "pending_wf (pending (fst (L, out)))" and "bt_get (pending L) rh = Some req" and "audit req = None"
    for L out rh req r
    using that pending_wf_get [of "pending L" rh req]
    by (auto intro!: pending_wf_insert simp: request_wf_def)
  show "pending_wf (pending (fst (L\<lparr>pending := bt_insert rh (req\<lparr>audit := Some (a\<lparr>responded := resp\<rparr>)\<rparr>) (pending L)\<rparr>, out)))"
    if "pending_wf (pending (fst (L, out)))" and "bt_get (pending L) rh = Some req"
      and "audit req = Some a" and "credit_key (cohort a) (delegations a) r (responded a, []) = (resp, served)"
    for L out rh req a r resp served
  proof -
    have "request_wf req" using that pending_wf_get by simp
    then have "audit_wf a" "\<forall>w. winner req = Some w \<longrightarrow> w \<in> set (responded a)"
      using that(3) by (simp_all add: request_wf_def)
    then have "request_wf (req\<lparr>audit := Some (a\<lparr>responded := resp\<rparr>)\<rparr>)"
      using credit_wf [OF _ that(4)] by (auto simp: request_wf_def)
    then show ?thesis using that(1) by (auto intro: pending_wf_insert)
  qed
  show "pending_wf (pending (fst (L\<lparr>pending := bt_insert rh (req\<lparr>early_responders := [],
            audit := Some \<lparr>cohort = ids, delegations = dels, responded = resp, window_end_daa = w\<rparr>\<rparr>)
          (pending L)\<rparr>, out)))"
    if "pending_wf (pending (fst (L, out)))" and "bt_get (pending L) rh = Some req" and "audit req = None"
      and "ids = dedup (sort (map fst (cohort_of (req_tier req))))"
      and "dels = dedup (sort (map (\<lambda>(id, esc). (esc, id)) (cohort_of (req_tier req))))"
      and "credit_early ids dels (early_responders req) ([], served) = (resp, served')"
    for L out rh req ids dels served resp served' w
  proof -
    have "winner req = None" using that(1-3) pending_wf_get [of "pending L" rh req] by (simp add: request_wf_def)
    then have "request_wf (req\<lparr>early_responders := [],
            audit := Some \<lparr>cohort = ids, delegations = dels, responded = resp, window_end_daa = w\<rparr>\<rparr>)"
      using arm_wf [OF that(4-6)] by (simp add: request_wf_def)
    then show ?thesis using that(1) by (auto intro: pending_wf_insert)
  qed
qed (auto simp: strike_miner_pending intro: award_wf pending_wf_remove)

section \<open>Admission\<close>

lemma retain_recent_eq:
  "retain_recent stamp horizon daa m = Some m' \<Longrightarrow>
     m' = filter (\<lambda>(k, v). unat daa < unat (stamp v) + unat horizon) m"
  by (induction m arbitrary: m')
    (auto simp: bind_eq_Some_conv checked_add_eq_Some word_less_nat_alt split: if_splits)

lemma retain_recent_get:
  assumes "bt_wf m" and "retain_recent stamp horizon daa m = Some m'"
  shows "bt_wf m'" and "bt_get m' k = (case bt_get m k of None \<Rightarrow> None
     | Some v \<Rightarrow> if unat daa < unat (stamp v) + unat horizon then Some v else None)"
proof -
  have m': "m' = bt_retain (\<lambda>k v. unat daa < unat (stamp v) + unat horizon) m"
    using retain_recent_eq [OF assms(2)] by (simp add: bt_retain_def)
  show "bt_wf m'" using assms(1) by (simp add: m')
  show "bt_get m' k = (case bt_get m k of None \<Rightarrow> None
     | Some v \<Rightarrow> if unat daa < unat (stamp v) + unat horizon then Some v else None)"
    unfolding m' by (rule bt_get_retain [OF assms(1)])
qed

text \<open>Admission keeps every pending request apart from its parked responders.\<close>

definition same_request :: "PendingRequest \<Rightarrow> PendingRequest \<Rightarrow> bool" where
  "same_request r r' \<longleftrightarrow> req_tier r' = req_tier r \<and> req_max_tokens r' = req_max_tokens r
     \<and> accepted_daa r' = accepted_daa r \<and> req_reward r' = req_reward r \<and> winner r' = winner r \<and> audit r' = audit r"

definition fresh_request :: "u64 \<Rightarrow> PendingRequest \<Rightarrow> bool" where
  "fresh_request daa r \<longleftrightarrow> accepted_daa r = daa \<and> winner r = None \<and> audit r = None"

lemma admit_request_pending:
  "pending (admit_request daa g rr (rh, tier, mt) L) = pending L \<or>
   (\<exists>r. pending (admit_request daa g rr (rh, tier, mt) L) = bt_insert rh r (pending L)
      \<and> (case bt_get (pending L) rh of Some r0 \<Rightarrow> same_request r0 r | None \<Rightarrow> fresh_request daa r))"
  by (auto simp: admit_request_def Let_def same_request_def fresh_request_def split: option.splits)

lemma same_request_wf: "same_request r r' \<Longrightarrow> request_wf r' = request_wf r"
  by (simp add: same_request_def request_wf_def split: option.splits)

lemma fresh_request_wf: "fresh_request daa r \<Longrightarrow> request_wf r"
  by (simp add: fresh_request_def request_wf_def)

lemma same_request_trans: "same_request a b \<Longrightarrow> same_request b c \<Longrightarrow> same_request a c"
  by (simp add: same_request_def)

lemma fresh_same: "fresh_request daa a \<Longrightarrow> same_request a b \<Longrightarrow> fresh_request daa b"
  by (simp add: same_request_def fresh_request_def)

lemma same_request_refl [simp]: "same_request r r"
  by (simp add: same_request_def)

definition admits :: "u64 \<Rightarrow> (hash, PendingRequest) btree \<Rightarrow> (hash, PendingRequest) btree \<Rightarrow> bool" where
  "admits daa p p' \<longleftrightarrow> (pending_wf p \<longrightarrow> pending_wf p') \<and>
     (\<forall>rh r'. bt_get p' rh = Some r' \<longrightarrow>
        (case bt_get p rh of Some r \<Rightarrow> same_request r r' | None \<Rightarrow> fresh_request daa r'))
     \<and> dom (bt_get p) \<subseteq> dom (bt_get p')"

lemma admitsD:
  assumes "admits daa p p'"
  shows "pending_wf p \<Longrightarrow> pending_wf p'" and "dom (bt_get p) \<subseteq> dom (bt_get p')"
    and "bt_get p' rh = Some r' \<Longrightarrow> bt_get p rh = Some r \<Longrightarrow> same_request r r'"
    and "bt_get p' rh = Some r' \<Longrightarrow> bt_get p rh = None \<Longrightarrow> fresh_request daa r'"
    and "bt_get p rh = Some r \<Longrightarrow> \<exists>r'. bt_get p' rh = Some r'"
proof -
  show "pending_wf p \<Longrightarrow> pending_wf p'" and sub: "dom (bt_get p) \<subseteq> dom (bt_get p')"
    using assms by (simp_all add: admits_def)
  show "bt_get p rh = Some r \<Longrightarrow> \<exists>r'. bt_get p' rh = Some r'" using sub by blast
  have *: "bt_get p' rh = Some r' \<longrightarrow>
        (case bt_get p rh of Some r \<Rightarrow> same_request r r' | None \<Rightarrow> fresh_request daa r')"
    using assms unfolding admits_def by blast
  show "bt_get p' rh = Some r' \<Longrightarrow> bt_get p rh = Some r \<Longrightarrow> same_request r r'"
    and "bt_get p' rh = Some r' \<Longrightarrow> bt_get p rh = None \<Longrightarrow> fresh_request daa r'"
    using * by simp_all
qed

lemma admits_trans:
  assumes "admits daa p q" and "admits daa q r"
  shows "admits daa p r"
  unfolding admits_def
proof (intro conjI allI impI)
  show "pending_wf r" if "pending_wf p" using that assms admitsD(1) by blast
  show "dom (bt_get p) \<subseteq> dom (bt_get r)" using admitsD(2) [OF assms(1)] admitsD(2) [OF assms(2)] by simp
  fix rh r' assume r': "bt_get r rh = Some r'"
  show "case bt_get p rh of Some x \<Rightarrow> same_request x r' | None \<Rightarrow> fresh_request daa r'"
  proof (cases "bt_get p rh")
    case None
    show ?thesis
    proof (cases "bt_get q rh")
      case q: None
      then show ?thesis using None admitsD(4) [OF assms(2) r' q] by simp
    next
      case (Some y)
      then show ?thesis
        using None admitsD(4) [OF assms(1) Some None] admitsD(3) [OF assms(2) r' Some] by (simp add: fresh_same)
    qed
  next
    case (Some x)
    then obtain y where y: "bt_get q rh = Some y" using admitsD(5) [OF assms(1)] by blast
    show ?thesis
      using Some admitsD(3) [OF assms(1) y Some] admitsD(3) [OF assms(2) r' y] by (simp add: same_request_trans)
  qed
qed

lemma admits_refl: "admits daa p p"
  by (auto simp: admits_def split: option.splits)

lemma admit_request_admits: "admits daa (pending L) (pending (admit_request daa g rr r L))"
proof -
  obtain rh tier mt where r: "r = (rh, tier, mt)" by (metis prod.exhaust)
  show ?thesis
    using admit_request_pending [of daa g rr rh tier mt L]
  proof
    assume "\<exists>q. pending (admit_request daa g rr (rh, tier, mt) L) = bt_insert rh q (pending L)
      \<and> (case bt_get (pending L) rh of Some r0 \<Rightarrow> same_request r0 q | None \<Rightarrow> fresh_request daa q)"
    then obtain q where q: "pending (admit_request daa g rr r L) = bt_insert rh q (pending L)"
      and c: "case bt_get (pending L) rh of Some r0 \<Rightarrow> same_request r0 q | None \<Rightarrow> fresh_request daa q"
      unfolding r by blast
    have "request_wf q" if "pending_wf (pending L)"
      using c that by (cases "bt_get (pending L) rh")
        (auto simp: fresh_request_wf same_request_wf dest: pending_wf_get)
    then show ?thesis using c unfolding q admits_def
      by (auto intro: pending_wf_insert split: option.splits if_splits)
  qed (simp add: r admits_refl)
qed

lemma admit_all_admits:
  "admits daa (pending L) (pending (fold (admit_request daa g rr) requests L))"
proof (induction requests arbitrary: L)
  case (Cons r rs)
  then show ?case using admits_trans [OF admit_request_admits Cons.IH] by simp
qed (simp add: admits_refl)

lemma fold_requests_pending:
  assumes "pending_wf (pending L)" and "fold_requests daa requests rr L = Some L'"
  shows "pending_wf (pending L')"
    and "bt_get (pending L') rh = Some r' \<Longrightarrow>
      fresh_request daa r' \<or> (\<exists>r. bt_get (pending L) rh = Some r \<and> same_request r r'
        \<and> unat daa < unat (accepted_daa r) + unat SERVICE_LEDGER_HORIZON_DAA)"
    and "bt_get (pending L) rh = Some r \<Longrightarrow>
      unat daa < unat (accepted_daa r) + unat SERVICE_LEDGER_HORIZON_DAA \<Longrightarrow>
      \<exists>r'. bt_get (pending L') rh = Some r' \<and> same_request r r'"
proof -
  from assms(2) obtain kept early aud gated where
    k: "retain_recent accepted_daa SERVICE_LEDGER_HORIZON_DAA daa (pending L) = Some kept"
    and L': "L' = fold (admit_request daa gated rr) requests
            (L\<lparr>pending := kept, early_responses := early, audited := aud\<rparr>)"
    by (rule fold_requests_phases)
  have wf: "bt_wf (pending L)" using assms(1) by (simp add: pending_wf_def)
  note get = retain_recent_get [OF wf k]
  have kwf: "pending_wf kept"
    using get assms(1) by (auto simp: pending_wf_def split: option.splits if_splits)
  have adm: "admits daa kept (pending L')"
    using admit_all_admits [of daa "L\<lparr>pending := kept, early_responses := early, audited := aud\<rparr>" gated rr requests]
    by (simp add: L')
  show "pending_wf (pending L')" by (rule admitsD(1) [OF adm kwf])
  show "fresh_request daa r' \<or> (\<exists>r. bt_get (pending L) rh = Some r \<and> same_request r r'
        \<and> unat daa < unat (accepted_daa r) + unat SERVICE_LEDGER_HORIZON_DAA)"
    if "bt_get (pending L') rh = Some r'"
  proof (cases "bt_get kept rh")
    case None
    then show ?thesis using admitsD(4) [OF adm that] by simp
  next
    case (Some r)
    then show ?thesis
      using admitsD(3) [OF adm that Some] get(2) [of rh] by (auto split: option.splits if_splits)
  qed
  show "\<exists>r'. bt_get (pending L') rh = Some r' \<and> same_request r r'"
    if "bt_get (pending L) rh = Some r" "unat daa < unat (accepted_daa r) + unat SERVICE_LEDGER_HORIZON_DAA"
  proof -
    have kept: "bt_get kept rh = Some r" using that get(2) [of rh] by simp
    then obtain r' where "bt_get (pending L') rh = Some r'" using admitsD(5) [OF adm] by blast
    then show ?thesis using admitsD(3) [OF adm _ kept] by blast
  qed
qed

section \<open>Audits whose window has closed\<close>

definition closed_audit :: "u64 \<Rightarrow> (hash, PendingRequest) btree \<Rightarrow> hash \<Rightarrow> Audit option" where
  "closed_audit daa p rh = do {
     r \<leftarrow> bt_get p rh;
     a \<leftarrow> audit r;
     if window_end_daa a < daa then Some a else None
   }"

lemma closed_audit_eq_Some:
  "closed_audit daa p rh = Some a \<longleftrightarrow>
     (\<exists>r. bt_get p rh = Some r \<and> audit r = Some a \<and> window_end_daa a < daa)"
  by (auto simp: closed_audit_def bind_eq_Some_conv split: if_splits)

definition extends :: "Audit \<Rightarrow> Audit \<Rightarrow> bool" where
  "extends a0 a \<longleftrightarrow> cohort a = cohort a0 \<and> delegations a = delegations a0
     \<and> window_end_daa a = window_end_daa a0 \<and> set (responded a0) \<subseteq> set (responded a)"

lemma extends_refl [simp]: "extends a a" by (simp add: extends_def)

lemma extends_trans: "extends a b \<Longrightarrow> extends b c \<Longrightarrow> extends a c" by (auto simp: extends_def)

definition closed_extends :: "u64 \<Rightarrow> (hash, PendingRequest) btree \<Rightarrow> (hash, PendingRequest) btree \<Rightarrow> bool" where
  "closed_extends daa p0 p \<longleftrightarrow> (\<forall>rh a. closed_audit daa p rh = Some a \<longrightarrow>
     (\<exists>a0. closed_audit daa p0 rh = Some a0 \<and> extends a0 a))"

lemma closed_extends_insert:
  assumes "closed_extends daa p0 p"
    and "\<And>a. audit r = Some a \<Longrightarrow> window_end_daa a < daa \<Longrightarrow>
      \<exists>b. closed_audit daa p rh = Some b \<and> extends b a"
  shows "closed_extends daa p0 (bt_insert rh r p)"
  unfolding closed_extends_def
proof (intro allI impI)
  fix rh' a assume c: "closed_audit daa (bt_insert rh r p) rh' = Some a"
  show "\<exists>a0. closed_audit daa p0 rh' = Some a0 \<and> extends a0 a"
  proof (cases "rh' = rh")
    case True
    then have "audit r = Some a" "window_end_daa a < daa" using c by (simp_all add: closed_audit_eq_Some)
    then obtain b where "closed_audit daa p rh = Some b" "extends b a" using assms(2) by blast
    then show ?thesis using assms(1) True unfolding closed_extends_def by (meson extends_trans)
  next
    case False
    then have "closed_audit daa p rh' = Some a" using c by (simp add: closed_audit_def)
    then show ?thesis using assms(1) by (simp add: closed_extends_def)
  qed
qed

lemma closed_extends_remove: "closed_extends daa p0 p \<Longrightarrow> closed_extends daa p0 (bt_remove rh p)"
  by (auto simp: closed_extends_def closed_audit_eq_Some split: if_splits)

definition silent :: "Audit \<Rightarrow> hash \<Rightarrow> bool" where
  "silent a m \<longleftrightarrow> m \<in> set (cohort a) \<and> m \<notin> set (responded a)"

definition silence_trace :: "u64 \<Rightarrow> (hash, PendingRequest) btree \<Rightarrow> ServiceLedger \<times> FoldOutcome \<Rightarrow> bool" where
  "silence_trace daa p0 st \<longleftrightarrow> closed_extends daa p0 (pending (fst st))
     \<and> (\<forall>miss\<in>set (misses (snd st)). \<exists>a. closed_audit daa p0 (miss_request miss) = Some a
          \<and> silent a (miss_miner miss))"

lemma silence_pending:
  "silence_trace daa p0 (L, out) \<Longrightarrow> closed_extends daa p0 p \<Longrightarrow> silence_trace daa p0 (L\<lparr>pending := p\<rparr>, out)"
  by (simp add: silence_trace_def)

lemma award_pending:
  "pending (fst (maybe_award rh i w (L, out))) = pending L \<or>
   (\<exists>r. bt_get (pending L) rh = Some r \<and> winner r = None
      \<and> pending (fst (maybe_award rh i w (L, out))) = bt_insert rh (r\<lparr>winner := Some i\<rparr>) (pending L))"
  by (auto simp: maybe_award_def split: option.splits)

interpretation silence: ledger_invariant daa warmup is_established cohort_of "silence_trace daa p0"
  for daa warmup is_established cohort_of p0
proof unfold_locales
  show "silence_trace daa p0 (maybe_award rh i warmup st)" if inv: "silence_trace daa p0 st" for st rh i
  proof -
    obtain L out where [simp]: "st = (L, out)" by (cases st)
    have "closed_extends daa p0 (pending (fst (maybe_award rh i warmup (L, out))))"
      using award_pending [of rh i warmup L out]
    proof (elim disjE exE conjE)
      fix r assume r: "bt_get (pending L) rh = Some r"
        and p: "pending (fst (maybe_award rh i warmup (L, out))) = bt_insert rh (r\<lparr>winner := Some i\<rparr>) (pending L)"
      show ?thesis unfolding p
        by (rule closed_extends_insert) (use inv r in \<open>auto simp: silence_trace_def closed_audit_eq_Some\<close>)
    qed (use inv in \<open>simp add: silence_trace_def\<close>)
    then show ?thesis using inv by (simp add: silence_trace_def)
  qed
  show "silence_trace daa p0 (reset_served daa warmup i st)" if "silence_trace daa p0 st" for st i
    using that by (simp add: silence_trace_def)
  show "silence_trace daa p0 (L\<lparr>pending := bt_insert rh (req\<lparr>early_responders := push_new r (early_responders req)\<rparr>) (pending L)\<rparr>, out)"
    if "silence_trace daa p0 (L, out)" "bt_get (pending L) rh = Some req" "audit req = None" for L out rh req r
    using that by (intro silence_pending closed_extends_insert) (auto simp: silence_trace_def)
  show "silence_trace daa p0 (L\<lparr>pending := bt_insert rh (req\<lparr>audit := Some (a\<lparr>responded := resp\<rparr>)\<rparr>) (pending L)\<rparr>, out)"
    if "silence_trace daa p0 (L, out)" and "bt_get (pending L) rh = Some req" and "audit req = Some a"
      and "credit_key (cohort a) (delegations a) r (responded a, []) = (resp, served)"
    for L out rh req a r resp served
  proof -
    have "extends a (a\<lparr>responded := resp\<rparr>)" using credit_key_new [OF that(4)] by (auto simp: extends_def)
    then show ?thesis
      using that by (intro silence_pending closed_extends_insert)
        (auto simp: silence_trace_def closed_audit_eq_Some)
  qed
  show "silence_trace daa p0 st'" if inv: "silence_trace daa p0 st"
    and req: "bt_get (pending (fst st)) rh = Some req" "audit req = Some a" "window_end_daa a < daa"
    and m: "miner \<in> set (cohort a)" "miner \<notin> set (responded a)"
    and strike: "strike_miner daa is_established rh st miner = Some st'" for st rh req a miner st'
  proof -
    obtain L out L' out' where [simp]: "st = (L, out)" "st' = (L', out')" by (cases st; cases st')
    have "closed_audit daa (pending L) rh = Some a" using req by (simp add: closed_audit_eq_Some)
    then obtain a0 where "closed_audit daa p0 rh = Some a0" "extends a0 a"
      using inv unfolding silence_trace_def closed_extends_def by fastforce
    then have "closed_audit daa p0 rh = Some a0 \<and> silent a0 miner"
      using m by (auto simp: silent_def extends_def)
    then show ?thesis
      using strike inv strike_miner_pending [OF strike]
      by (auto elim!: strike_miner_cases simp: silence_trace_def)
  qed
  show "silence_trace daa p0 (L\<lparr>pending := bt_remove rh (pending L)\<rparr>, out)"
    if "silence_trace daa p0 (L, out)" for L out rh
    using that by (auto intro!: silence_pending closed_extends_remove simp: silence_trace_def)
  show "silence_trace daa p0 (L\<lparr>pending := bt_insert rh (req\<lparr>early_responders := [],
            audit := Some \<lparr>cohort = ids, delegations = dels, responded = resp, window_end_daa = w\<rparr>\<rparr>)
          (pending L)\<rparr>, out)"
    if "silence_trace daa p0 (L, out)"
      and "checked_add daa (service_window_daa_at (req_tier req) (req_max_tokens req) (v2_at L daa)) = Some w"
    for L out rh req ids dels resp w
  proof -
    have "\<not> w < daa" using that(2) by (simp add: checked_add_eq_Some word_less_nat_alt)
    then show ?thesis
      using that(1) by (intro silence_pending closed_extends_insert) (auto simp: silence_trace_def)
  qed
qed (simp_all add: silence_trace_def)

section \<open>A response is credited\<close>

definition answered :: "u64 \<Rightarrow> hash \<Rightarrow> hash \<Rightarrow> (hash, PendingRequest) btree \<Rightarrow> bool" where
  "answered daa rh key p \<longleftrightarrow> (\<forall>a. closed_audit daa p rh = Some a \<longrightarrow>
     (\<forall>i\<in>set (cohort a). (key, i) \<in> set (delegations a) \<longrightarrow> i \<in> set (responded a)))"

lemma answered_extends: "answered daa rh key p0 \<Longrightarrow> closed_extends daa p0 p \<Longrightarrow> answered daa rh key p"
  unfolding answered_def closed_extends_def extends_def by fastforce

lemma award_audit:
  "bt_get (pending L) rh = Some r \<Longrightarrow>
     \<exists>r'. bt_get (pending (fst (maybe_award rh i w (L, out)))) rh = Some r' \<and> audit r' = audit r"
  using award_pending [of rh i w L out] by auto

lemma resets_pending: "pending (fst (fold (reset_served daa w) ids st)) = pending (fst st)"
  by (induction ids arbitrary: st) simp_all

lemma response_answers:
  assumes "pending_wf (pending L)"
  shows "answered daa rh key (pending (fst (fold_response daa w (rh, Some key) (L, out))))"
proof (cases "bt_get (pending L) rh")
  case None
  then show ?thesis by (simp add: fold_response_def answered_def closed_audit_def split: prod.splits option.splits)
next
  case req: (Some req)
  show ?thesis
  proof (cases "audit req")
    case None
    then show ?thesis using req by (simp add: fold_response_def answered_def closed_audit_def)
  next
    case (Some a)
    obtain resp served where
      c: "credit_key (cohort a) (delegations a) key (responded a, []) = (resp, served)" by force
    define L' where "L' = L\<lparr>pending := bt_insert rh (req\<lparr>audit := Some (a\<lparr>responded := resp\<rparr>)\<rparr>) (pending L)\<rparr>"
    define st where "st = (case served of [] \<Rightarrow> (L', out) | first # _ \<Rightarrow> maybe_award rh first w (L', out))"
    have r: "fold_response daa w (rh, Some key) (L, out) = fold (reset_served daa w) served st"
      using req Some c unfolding st_def L'_def by (simp add: fold_response_def Let_def)
    have g: "bt_get (pending L') rh = Some (req\<lparr>audit := Some (a\<lparr>responded := resp\<rparr>)\<rparr>)" by (simp add: L'_def)
    have "\<exists>r'. bt_get (pending (fst st)) rh = Some r' \<and> audit r' = Some (a\<lparr>responded := resp\<rparr>)"
      using g award_audit [OF g] by (auto simp: st_def split: list.splits)
    moreover have "sorted_wrt (<) (cohort a)"
      using pending_wf_get [OF assms req] Some by (simp add: request_wf_def audit_wf_def)
    ultimately show ?thesis
      using credit_key_new [OF c] unfolding r
      by (auto simp: answered_def closed_audit_eq_Some resets_pending)
  qed
qed

lemma resets_misses: "misses (snd (fold (reset_served daa w) ids st)) = misses (snd st)"
  by (induction ids arbitrary: st) simp_all

lemma response_misses: "misses (snd (fold_response daa w r (L, out))) = misses out"
  by (cases r) (auto simp: fold_response_def Let_def resets_misses split: option.splits prod.splits list.splits)

lemma response_list_misses: "misses (snd (fold (fold_response daa w) rs st)) = misses (snd st)"
proof (induction rs arbitrary: st)
  case (Cons r rs)
  then show ?case using response_misses [of daa w r "fst st" "snd st"] by simp
qed simp

lemma responses_answered:
  assumes "pending_wf (pending (fst st))" and "(rh, Some key) \<in> set responses" and "misses (snd st) = []"
  shows "answered daa rh key (pending (fst (fold_responses daa w responses st)))"
proof -
  obtain pre post where r: "responses = pre @ (rh, Some key) # post"
    using assms(2) by (meson split_list)
  define mid where "mid = fold (fold_response daa w) pre st"
  define st1 where "st1 = fold_response daa w (rh, Some key) mid"
  have "pending_wf (pending (fst mid))"
    unfolding mid_def by (rule requests.responses.response_list_keeps [OF assms(1)])
  then have ans: "answered daa rh key (pending (fst st1))"
    unfolding st1_def by (cases mid) (simp add: response_answers)
  have "misses (snd st1) = []"
    using response_misses [of daa w "(rh, Some key)" "fst mid" "snd mid"] response_list_misses [of daa w pre st]
    by (simp add: st1_def mid_def assms(3))
  then have "silence_trace daa (pending (fst st1)) st1"
    by (auto simp: silence_trace_def closed_extends_def)
  from silence.responses.response_list_keeps [OF this, of w post]
  have "closed_extends daa (pending (fst st1)) (pending (fst (fold (fold_response daa w) post st1)))"
    by (simp add: silence_trace_def)
  then have "answered daa rh key (pending (fst (fold (fold_response daa w) responses st)))"
    using answered_extends [OF ans] by (simp add: r mid_def st1_def)
  then show ?thesis by (simp add: fold_responses_def split_beta)
qed

lemma requests_closed:
  assumes "pending_wf (pending L)" and "fold_requests daa requests rr L = Some L'"
  shows "closed_extends daa (pending L) (pending L')"
  unfolding closed_extends_def
proof (intro allI impI)
  fix rh a assume "closed_audit daa (pending L') rh = Some a"
  then obtain r' where r': "bt_get (pending L') rh = Some r'" "audit r' = Some a" "window_end_daa a < daa"
    by (auto simp: closed_audit_eq_Some)
  from fold_requests_pending(2) [OF assms r'(1)] r'(2,3)
  have "closed_audit daa (pending L) rh = Some a"
    by (auto simp: fresh_request_def same_request_def closed_audit_eq_Some)
  then show "\<exists>a0. closed_audit daa (pending L) rh = Some a0 \<and> extends a0 a" by simp
qed

lemma closed_extends_trans: "closed_extends daa p q \<Longrightarrow> closed_extends daa q r \<Longrightarrow> closed_extends daa p r"
  unfolding closed_extends_def by (meson extends_trans)

text \<open>The phases of a live fold, with what the audits phase starts from.\<close>

lemma fold_live_audits:
  assumes "pending_wf (pending L)"
    and "fold_inner daa requests request_rewards responses escrows producers None
           is_established cohort_of L = Some (L', out)"
  obtains L2 out1 st where
    "st = fold_responses daa False responses (L2, out1)"
    "fold_audits daa False is_established cohort_of st = Some (L', out)"
    "pending_wf (pending L2)" "closed_extends daa (pending L) (pending L2)"
    "strike_state L2 = strike_state L" "misses out1 = []" "rewards out1 = []"
    "reward_routing_daa L2 = reward_routing_daa L"
    "\<And>rh r'. bt_get (pending L2) rh = Some r' \<Longrightarrow>
      fresh_request daa r' \<or> (\<exists>r. bt_get (pending L) rh = Some r \<and> same_request r r'
        \<and> unat daa < unat (accepted_daa r) + unat SERVICE_LEDGER_HORIZON_DAA)"
    "\<And>rh r. bt_get (pending L) rh = Some r \<Longrightarrow>
      unat daa < unat (accepted_daa r) + unat SERVICE_LEDGER_HORIZON_DAA \<Longrightarrow>
      \<exists>r'. bt_get (pending L2) rh = Some r' \<and> same_request r r'"
proof -
  from assms(2) obtain L1 out1 L2 where
    c: "fold_claims daa escrows None (fold_producers producers L) = Some (L1, out1)"
    and r: "fold_requests daa requests request_rewards L1 = Some L2"
    and a: "fold_audits daa False is_established cohort_of
       (fold_responses daa False responses (L2, out1)) = Some (L', out)"
    by (rule fold_inner_phases) simp
  note k = fold_claims_live [OF c] and f = fold_requests_frame [OF r]
  have wf: "pending_wf (pending L1)" using assms(1) k by simp
  have "strike_state L2 = strike_state L" using k f by (intro strike_state_cong) simp_all
  then show thesis
    using that [OF refl a] fold_requests_pending [OF wf r] requests_closed [OF wf r] k f by auto
qed

lemma misses_silent:
  assumes wf: "pending_wf (pending L)"
    and "fold_inner daa requests request_rewards responses escrows producers None
           is_established cohort_of L = Some (L', out)"
    and "miss \<in> set (misses out)"
  shows "\<exists>a. closed_audit daa (pending L) (miss_request miss) = Some a \<and> silent a (miss_miner miss)
     \<and> (\<forall>key. (miss_request miss, Some key) \<in> set responses \<longrightarrow> (key, miss_miner miss) \<notin> set (delegations a))"
  using wf assms(2)
proof (rule fold_live_audits)
  fix L2 out1 st
  assume st: "st = fold_responses daa False responses (L2, out1)"
    and a: "fold_audits daa False is_established cohort_of st = Some (L', out)"
    and wf2: "pending_wf (pending L2)" and ext: "closed_extends daa (pending L) (pending L2)"
    and m0: "misses out1 = []"
  have "silence_trace daa (pending L2) (L2, out1)"
    using m0 by (auto simp: silence_trace_def closed_extends_def)
  from silence.responses.responses_keep [OF this, of False responses]
  have ext2: "closed_extends daa (pending L2) (pending (fst st))" by (simp add: st silence_trace_def)
  have "misses (snd st) = []"
    using m0 response_list_misses [of daa False responses "(L2, out1)"]
    by (simp add: st fold_responses_def split_beta)
  then have "silence_trace daa (pending (fst st)) st" by (auto simp: silence_trace_def closed_extends_def)
  from silence.audits_keep [OF this a] assms(3)
  obtain aR where aR: "closed_audit daa (pending (fst st)) (miss_request miss) = Some aR"
    and sil: "silent aR (miss_miner miss)" by (auto simp: silence_trace_def)
  have ans: "answered daa (miss_request miss) key (pending (fst st))"
    if "(miss_request miss, Some key) \<in> set responses" for key
    unfolding st using wf2 m0 that by (intro responses_answered) simp_all
  have key: "(key, miss_miner miss) \<notin> set (delegations aR)"
    if "(miss_request miss, Some key) \<in> set responses" for key
    using ans [OF that] aR sil unfolding answered_def silent_def by blast
  from closed_extends_trans [OF ext ext2] aR
  obtain a0 where "closed_audit daa (pending L) (miss_request miss) = Some a0" "extends a0 aR"
    unfolding closed_extends_def by blast
  then show ?thesis using sil key by (auto simp: silent_def extends_def)
qed

section \<open>Silence is struck\<close>

definition unmarked :: "ServiceLedger \<Rightarrow> ServiceLedger \<times> FoldOutcome \<Rightarrow> bool" where
  "unmarked K st \<longleftrightarrow> (\<forall>m. m \<notin> miss_miner ` set (misses (snd st)) \<longrightarrow> strike_state (fst st) m = strike_state K m)"

definition marked :: "u64 \<Rightarrow> ServiceLedger \<Rightarrow> FoldOutcome \<Rightarrow> hash \<Rightarrow> bool" where
  "marked daa K out m \<longleftrightarrow> m \<in> miss_miner ` set (misses out) \<or> rate_limited daa K m"

lemma strike_marks:
  assumes "unmarked K (L, out)" and "strike_miner daa est rh (L, out) m = Some (L', out')"
  shows "unmarked K (L', out') \<and> set (misses out) \<subseteq> set (misses out') \<and> marked daa K out' m"
  using assms(2)
proof (cases rule: strike_miner_cases)
  case limited
  then show ?thesis
    using assms(1) by (auto simp: unmarked_def marked_def rate_limited_def)
next
  case (struck n penalty burned V)
  then show ?thesis
    using assms(1) by (auto simp: unmarked_def marked_def strike_state_insert)
qed

lemma strikes_mark:
  "unmarked K st \<Longrightarrow> foldM (strike_miner daa est rh) st ms = Some st' \<Longrightarrow>
     unmarked K st' \<and> set (misses (snd st)) \<subseteq> set (misses (snd st')) \<and> (\<forall>m\<in>set ms. marked daa K (snd st') m)"
proof (induction ms arbitrary: st)
  case (Cons m ms)
  from Cons.prems(2) obtain st1 where s: "strike_miner daa est rh st m = Some st1"
    and rest: "foldM (strike_miner daa est rh) st1 ms = Some st'" by (auto simp: bind_eq_Some_conv)
  have one: "unmarked K st1 \<and> set (misses (snd st)) \<subseteq> set (misses (snd st1)) \<and> marked daa K (snd st1) m"
    using strike_marks [of K "fst st" "snd st" daa est rh m "fst st1" "snd st1"] Cons.prems(1) s by simp
  from Cons.IH [OF _ rest] one show ?case by (auto simp: marked_def)
qed simp

lemma award_other: "rh' \<noteq> rh \<Longrightarrow>
  bt_get (pending (fst (maybe_award rh i w (L, out)))) rh' = bt_get (pending L) rh'"
  using award_pending [of rh i w L out] by auto

lemma arm_audit_frame:
  assumes "arm_audit daa w c rh req ((L, out), s) = Some y"
  shows "strike_state (fst (fst y)) = strike_state L" and "misses (snd (fst y)) = misses out"
    and "rh' \<noteq> rh \<Longrightarrow> bt_get (pending (fst (fst y))) rh' = bt_get (pending L) rh'"
proof -
  have "strike_state (fst (fst y)) = strike_state L \<and> misses (snd (fst y)) = misses out
    \<and> (rh' \<noteq> rh \<longrightarrow> bt_get (pending (fst (fst y))) rh' = bt_get (pending L) rh')"
  proof (cases "c (req_tier req) = []")
    case True
    then show ?thesis using assms by (auto simp: arm_audit_def)
  next
    case False
    then obtain r resp s' where y: "y = ((case resp of [] \<Rightarrow> (L\<lparr>pending := bt_insert rh r (pending L)\<rparr>, out)
        | first # _ \<Rightarrow> maybe_award rh first w (L\<lparr>pending := bt_insert rh r (pending L)\<rparr>, out)), s')"
      using assms by (auto simp: arm_audit_def Let_def bind_eq_Some_conv split: prod.splits)
    show ?thesis by (cases resp) (auto simp: y award_other)
  qed
  then show "strike_state (fst (fst y)) = strike_state L" "misses (snd (fst y)) = misses out"
    "rh' \<noteq> rh \<Longrightarrow> bt_get (pending (fst (fst y))) rh' = bt_get (pending L) rh'" by auto
qed

lemma request_marks:
  assumes "unmarked K (fst x)" and "fold_request daa False est c x rh = Some y"
  shows "unmarked K (fst y)" and "set (misses (snd (fst x))) \<subseteq> set (misses (snd (fst y)))"
    and "rh' \<noteq> rh \<Longrightarrow> bt_get (pending (fst (fst y))) rh' = bt_get (pending (fst (fst x))) rh'"
    and "closed_audit daa (pending (fst (fst x))) rh = Some a \<Longrightarrow>
      bt_get (pending (fst (fst y))) rh = None \<and> (\<forall>m. silent a m \<longrightarrow> marked daa K (snd (fst y)) m)"
proof -
  obtain L out s where x: "x = ((L, out), s)" by (metis prod.exhaust)
  from assms(2) obtain req where req: "bt_get (pending L) rh = Some req"
    by (cases "bt_get (pending L) rh") (simp_all add: fold_request_def x)
  consider (close) b where "audit req = Some b" "window_end_daa b < daa"
    | (keep) "fst y = (L, out)" "closed_audit daa (pending L) rh = None"
    | (arm) "audit req = None" "arm_audit daa False c rh req ((L, out), s) = Some y"
    using assms(2) req
    by (cases "audit req") (auto simp: fold_request_def x closed_audit_def split: if_splits)
  then have "unmarked K (fst y) \<and> set (misses (snd (fst x))) \<subseteq> set (misses (snd (fst y)))
    \<and> (rh' \<noteq> rh \<longrightarrow> bt_get (pending (fst (fst y))) rh' = bt_get (pending (fst (fst x))) rh')
    \<and> (closed_audit daa (pending (fst (fst x))) rh = Some a \<longrightarrow>
      bt_get (pending (fst (fst y))) rh = None \<and> (\<forall>m. silent a m \<longrightarrow> marked daa K (snd (fst y)) m))"
  proof cases
    case close
    from assms(2) req close obtain L1 out1 where
      f: "foldM (strike_miner daa est rh) (L, out) (filter (\<lambda>m. m \<notin> set (responded b)) (cohort b)) = Some (L1, out1)"
      and y: "fst y = (L1\<lparr>pending := bt_remove rh (pending L1)\<rparr>, out1)"
      by (auto simp: fold_request_def x close_audit_def bind_eq_Some_conv)
    have p: "pending L1 = pending L"
      using foldM_invariant [OF f, of "\<lambda>st. pending (fst st) = pending L"] strike_miner_pending by auto
    have u: "unmarked K (L, out)" using assms(1) x by simp
    have "closed_audit daa (pending L) rh = Some b" using req close by (simp add: closed_audit_eq_Some)
    then show ?thesis
      using strikes_mark [OF u f] by (auto simp: y x p unmarked_def silent_def)
  next
    case keep
    then show ?thesis using assms(1) x by simp
  next
    case arm
    have "closed_audit daa (pending L) rh = None" using req arm(1) by (simp add: closed_audit_def)
    then show ?thesis
      using arm_audit_frame [OF arm(2)] assms(1) by (simp add: x unmarked_def)
  qed
  then show "unmarked K (fst y)" "set (misses (snd (fst x))) \<subseteq> set (misses (snd (fst y)))"
    "rh' \<noteq> rh \<Longrightarrow> bt_get (pending (fst (fst y))) rh' = bt_get (pending (fst (fst x))) rh'"
    "closed_audit daa (pending (fst (fst x))) rh = Some a \<Longrightarrow>
      bt_get (pending (fst (fst y))) rh = None \<and> (\<forall>m. silent a m \<longrightarrow> marked daa K (snd (fst y)) m)"
    by blast+
qed

lemma loop_marks:
  "distinct rhs \<Longrightarrow> unmarked K (fst x) \<Longrightarrow> foldM (fold_request daa False est c) x rhs = Some y \<Longrightarrow>
     unmarked K (fst y) \<and> set (misses (snd (fst x))) \<subseteq> set (misses (snd (fst y)))
     \<and> (\<forall>rh. rh \<notin> set rhs \<longrightarrow> bt_get (pending (fst (fst y))) rh = bt_get (pending (fst (fst x))) rh)
     \<and> (\<forall>rh\<in>set rhs. \<forall>a. closed_audit daa (pending (fst (fst x))) rh = Some a \<longrightarrow>
          bt_get (pending (fst (fst y))) rh = None \<and> (\<forall>m. silent a m \<longrightarrow> marked daa K (snd (fst y)) m))"
proof (induction rhs arbitrary: x)
  case (Cons rh rhs)
  from Cons.prems(3) obtain z where z: "fold_request daa False est c x rh = Some z"
    and rest: "foldM (fold_request daa False est c) z rhs = Some y" by (auto simp: bind_eq_Some_conv)
  note one = request_marks [OF Cons.prems(2) z]
  note ih = Cons.IH [OF _ one(1) rest]
  have dist: "distinct rhs" and new: "rh \<notin> set rhs" using Cons.prems(1) by simp_all
  from ih [OF dist] have u: "unmarked K (fst y)"
    and mono: "set (misses (snd (fst z))) \<subseteq> set (misses (snd (fst y)))"
    and other: "\<And>rh. rh \<notin> set rhs \<Longrightarrow> bt_get (pending (fst (fst y))) rh = bt_get (pending (fst (fst z))) rh"
    and closed: "\<And>rh a m. rh \<in> set rhs \<Longrightarrow> closed_audit daa (pending (fst (fst z))) rh = Some a \<Longrightarrow>
          bt_get (pending (fst (fst y))) rh = None \<and> (silent a m \<longrightarrow> marked daa K (snd (fst y)) m)"
    by auto
  have marks: "marked daa K (snd (fst y)) m" if "marked daa K (snd (fst z)) m" for m
    using that mono by (auto simp: marked_def)
  have here: "bt_get (pending (fst (fst y))) rh' = None \<and> (silent a m \<longrightarrow> marked daa K (snd (fst y)) m)"
    if "rh' \<in> set (rh # rhs)" and c: "closed_audit daa (pending (fst (fst x))) rh' = Some a" for rh' a m
  proof (cases "rh' = rh")
    case True
    then show ?thesis using one(4) [of a] c other [OF new] marks by auto
  next
    case False
    then have "closed_audit daa (pending (fst (fst z))) rh' = Some a"
      using c one(3) [OF False] by (simp add: closed_audit_def)
    then show ?thesis using that(1) False closed [of rh' a m] by simp
  qed
  show ?case using u mono one(2,3) other here by auto
qed simp

lemma reset_limited: "rate_limited daa (fst (reset_served d w i st)) m \<Longrightarrow> rate_limited daa (fst st) m"
  using strike_state_reset [of d w i "fst st" "snd st"]
  by (auto simp: rate_limited_def reset_preserved_last_daa_def split: if_splits option.splits)

lemma resets_limited: "rate_limited daa (fst (fold (reset_served d w) ids st)) m \<Longrightarrow> rate_limited daa (fst st) m"
proof (induction ids arbitrary: st)
  case (Cons i ids)
  from Cons.IH [of "reset_served d w i st"] Cons.prems show ?case by (simp add: reset_limited)
qed simp

lemma rate_limited_cong: "strike_state L = strike_state K \<Longrightarrow> rate_limited daa L m = rate_limited daa K m"
  by (simp add: rate_limited_def)

lemma response_limited:
  "rate_limited daa (fst (fold_response d w r (L, out))) m \<Longrightarrow> rate_limited daa L m"
proof (cases r)
  case (Pair rh k)
  have lim: "rate_limited daa L m" if "rate_limited daa (fst (fold (reset_served d w) ids
      (case served of [] \<Rightarrow> (L\<lparr>pending := p\<rparr>, out) | first # _ \<Rightarrow> maybe_award rh first w (L\<lparr>pending := p\<rparr>, out)))) m"
    for ids served p
    using resets_limited [OF that] by (cases served) (simp_all add: rate_limited_def)
  have same: "rate_limited daa (L\<lparr>pending := p\<rparr>) m = rate_limited daa L m"
    "rate_limited daa (L\<lparr>early_responses := e\<rparr>) m = rate_limited daa L m" for p e
    by (simp_all add: rate_limited_def)
  show "rate_limited daa (fst (fold_response d w r (L, out))) m \<Longrightarrow> rate_limited daa L m"
    unfolding Pair
    by (cases k; cases "bt_get (pending L) rh"; cases "audit (the (bt_get (pending L) rh))")
      (auto simp: fold_response_def Let_def same split: prod.splits dest: lim)
qed

lemma responses_limited:
  "rate_limited daa (fst (fold_responses d w rs st)) m \<Longrightarrow> rate_limited daa (fst st) m"
proof -
  have "rate_limited daa (fst (fold (fold_response d w) rs st)) m \<Longrightarrow> rate_limited daa (fst st) m"
  proof (induction rs arbitrary: st)
    case (Cons r rs)
    then show ?case using response_limited [of daa d w r "fst st" "snd st" m] by simp
  qed simp
  then show "rate_limited daa (fst (fold_responses d w rs st)) m \<Longrightarrow> rate_limited daa (fst st) m"
    by (simp add: fold_responses_def split_beta rate_limited_def)
qed

text \<open>Between the requests phase and the audits phase an audit gains only responders that a response of
  the block names.\<close>

definition credited_by :: "(hash \<times> hash option) list \<Rightarrow> hash \<Rightarrow> Audit \<Rightarrow> Audit \<Rightarrow> bool" where
  "credited_by responses rh a0 a \<longleftrightarrow> extends a0 a \<and>
     (\<forall>i\<in>set (responded a). i \<in> set (responded a0) \<or>
        (\<exists>key. (rh, Some key) \<in> set responses \<and> (key, i) \<in> set (delegations a0)))"

definition audit_at :: "(hash, PendingRequest) btree \<Rightarrow> hash \<Rightarrow> Audit option" where
  "audit_at p rh = bt_get p rh \<bind> audit"

lemma response_credits:
  assumes "(rh', k) \<in> set responses"
  shows "\<forall>a. audit_at (pending L) rh = Some a \<longrightarrow>
     (\<exists>a'. audit_at (pending (fst (fold_response daa w (rh', k) (L, out)))) rh = Some a'
        \<and> credited_by responses rh a a')"
proof (intro allI impI)
  fix a assume a: "audit_at (pending L) rh = Some a"
  have id: "credited_by responses rh a a" by (auto simp: credited_by_def)
  show "\<exists>a'. audit_at (pending (fst (fold_response daa w (rh', k) (L, out)))) rh = Some a'
        \<and> credited_by responses rh a a'"
  proof (cases k)
    case None
    then show ?thesis using a id by (simp add: fold_response_def)
  next
    case k: (Some key)
    show ?thesis
    proof (cases "bt_get (pending L) rh'")
      case None
      then show ?thesis using a id k by (simp add: fold_response_def split: prod.splits)
    next
      case req: (Some req)
      show ?thesis
      proof (cases "audit req")
        case None
        then show ?thesis using a id k req by (auto simp: fold_response_def audit_at_def split: if_splits)
      next
        case (Some b)
        obtain resp served where
          c: "credit_key (cohort b) (delegations b) key (responded b, []) = (resp, served)" by force
        define L' where "L' = L\<lparr>pending := bt_insert rh' (req\<lparr>audit := Some (b\<lparr>responded := resp\<rparr>)\<rparr>) (pending L)\<rparr>"
        define st where "st = (case served of [] \<Rightarrow> (L', out) | first # _ \<Rightarrow> maybe_award rh' first w (L', out))"
        have r: "fold_response daa w (rh', k) (L, out) = fold (reset_served daa w) served st"
          using req Some c k unfolding st_def L'_def by (simp add: fold_response_def Let_def)
        have aw: "audit_at (pending (fst (maybe_award rh' i w (L', out)))) rh = audit_at (pending L') rh" for i
          using award_pending [of rh' i w L' out] by (auto simp: audit_at_def)
        have p: "audit_at (pending (fst (fold_response daa w (rh', k) (L, out)))) rh = audit_at (pending L') rh"
          unfolding r by (cases served) (simp_all add: st_def resets_pending aw)
        show ?thesis
        proof (cases "rh' = rh")
          case True
          then have "b = a" using a req Some by (simp add: audit_at_def)
          moreover have "credited_by responses rh b (b\<lparr>responded := resp\<rparr>)"
            using credit_key_new [OF c] assms k True by (auto simp: credited_by_def extends_def)
          ultimately show ?thesis using True p by (simp add: L'_def audit_at_def)
        next
          case False
          then show ?thesis using p a id by (simp add: L'_def audit_at_def)
        qed
      qed
    qed
  qed
qed

lemma credited_by_trans:
  "credited_by rs rh a b \<Longrightarrow> credited_by rs rh b c \<Longrightarrow> credited_by rs rh a c"
  unfolding credited_by_def extends_def by fastforce

lemma responses_credit:
  assumes "audit_at (pending (fst st)) rh = Some a"
  shows "\<exists>a'. audit_at (pending (fst (fold_responses daa w responses st))) rh = Some a'
    \<and> credited_by responses rh a a'"
proof -
  have "set rs \<subseteq> set responses \<Longrightarrow> audit_at (pending (fst st)) rh = Some a \<Longrightarrow>
      \<exists>a'. audit_at (pending (fst (fold (fold_response daa w) rs st))) rh = Some a' \<and> credited_by responses rh a a'"
    for rs a st
  proof (induction rs arbitrary: st a)
    case Nil
    then show ?case by (auto simp: credited_by_def)
  next
    case (Cons r rs)
    obtain rh' k where rk: "r = (rh', k)" by (cases r)
    have mem: "(rh', k) \<in> set responses" using Cons.prems(1) rk by simp
    from response_credits [OF mem, of "fst st" rh daa w "snd st"] Cons.prems(2)
    obtain b where b: "audit_at (pending (fst (fold_response daa w r st))) rh = Some b"
      and ab: "credited_by responses rh a b" by (auto simp: rk)
    from Cons.IH [OF _ b] Cons.prems(1) ab show ?case by (auto intro: credited_by_trans)
  qed
  from this [OF subset_refl assms] show ?thesis by (simp add: fold_responses_def split_beta)
qed

lemma silence_struck:
  assumes wf: "pending_wf (pending L)"
    and fold: "fold_inner daa requests request_rewards responses escrows producers None
           is_established cohort_of L = Some (L', out)"
    and r: "bt_get (pending L) rh = Some r" "audit r = Some a" "window_end_daa a < daa"
    and fresh: "unat daa < unat (accepted_daa r) + unat SERVICE_LEDGER_HORIZON_DAA"
  shows "bt_get (pending L') rh = None
    \<and> (\<forall>m. silent a m \<and> (\<forall>key. (rh, Some key) \<in> set responses \<longrightarrow> (key, m) \<notin> set (delegations a))
         \<longrightarrow> marked daa L out m)"
  using wf fold
proof (rule fold_live_audits)
  fix L2 out1 st
  assume st: "st = fold_responses daa False responses (L2, out1)"
    and au: "fold_audits daa False is_established cohort_of st = Some (L', out)"
    and wf2: "pending_wf (pending L2)" and ss: "strike_state L2 = strike_state L"
    and keep: "\<And>rh r. bt_get (pending L) rh = Some r \<Longrightarrow>
      unat daa < unat (accepted_daa r) + unat SERVICE_LEDGER_HORIZON_DAA \<Longrightarrow>
      \<exists>r'. bt_get (pending L2) rh = Some r' \<and> same_request r r'"
  have "audit_at (pending L2) rh = Some a"
    using keep [OF r(1) fresh] r(2) by (auto simp: audit_at_def same_request_def)
  with responses_credit [of "(L2, out1)" rh a daa False responses] obtain a' where
    a': "audit_at (pending (fst st)) rh = Some a'" and cr: "credited_by responses rh a a'"
    by (auto simp: st)
  have closed: "closed_audit daa (pending (fst st)) rh = Some a'"
    using a' cr r(3) by (auto simp: closed_audit_eq_Some audit_at_def credited_by_def extends_def bind_eq_Some_conv)
  have wfs: "pending_wf (pending (fst st))" unfolding st using wf2 by (intro requests.responses.responses_keep) simp
  from au obtain mid served where
    f: "foldM (fold_request daa False is_established cohort_of) (st, []) (map fst (pending (fst st))) = Some (mid, served)"
    and fin: "(L', out) = fold (reset_served daa False) served mid"
    by (auto simp: fold_audits_def bind_eq_Some_conv)
  have dist: "distinct (map fst (pending (fst st)))" using wfs by (simp add: pending_wf_def bt_wf_distinct)
  have mem: "rh \<in> set (map fst (pending (fst st)))"
    using closed by (force simp: closed_audit_eq_Some dest: map_of_SomeD)
  have u: "unmarked (fst st) (fst (st, [] :: hash list))" by (simp add: unmarked_def)
  from loop_marks [OF dist u f] mem closed
  have gone: "bt_get (pending (fst mid)) rh = None"
    and marks: "\<And>m. silent a' m \<Longrightarrow> marked daa (fst st) (snd mid) m" by auto
  have p: "pending L' = pending (fst mid)" "misses out = misses (snd mid)"
    using fin resets_pending [of daa False served mid] resets_misses [of daa False served mid]
    by (metis fst_conv, metis snd_conv)
  have lim: "rate_limited daa L m" if "rate_limited daa (fst st) m" for m
    using responses_limited [of daa daa False responses "(L2, out1)" m] that ss
    by (simp add: st rate_limited_def)
  have "marked daa L out m"
    if "silent a m" "\<forall>key. (rh, Some key) \<in> set responses \<longrightarrow> (key, m) \<notin> set (delegations a)" for m
  proof -
    have "silent a' m" using that cr by (auto simp: silent_def credited_by_def extends_def)
    then show ?thesis using marks [of m] lim [of m] p(2) by (auto simp: marked_def)
  qed
  then show ?thesis using gone p(1) by simp
qed

section \<open>Rewards\<close>

definition same_terms :: "PendingRequest \<Rightarrow> PendingRequest \<Rightarrow> bool" where
  "same_terms r r' \<longleftrightarrow> req_reward r' = req_reward r \<and> accepted_daa r' = accepted_daa r
     \<and> (winner r \<noteq> None \<longrightarrow> winner r' = winner r)"

lemma same_terms_refl [simp]: "same_terms r r" by (simp add: same_terms_def)

lemma same_terms_trans: "same_terms a b \<Longrightarrow> same_terms b c \<Longrightarrow> same_terms a c" by (auto simp: same_terms_def)

definition reward_due :: "u64 option \<Rightarrow> (hash, PendingRequest) btree \<Rightarrow> ServiceReward \<Rightarrow> bool" where
  "reward_due routed p0 w \<longleftrightarrow> (\<exists>r d. bt_get p0 (reward_request w) = Some r \<and> winner r = None
     \<and> reward_amount w = req_reward r \<and> req_reward r \<noteq> 0 \<and> routed = Some d \<and> d \<le> accepted_daa r)"

definition reward_trace ::
    "u64 option \<Rightarrow> (hash, PendingRequest) btree \<Rightarrow> ServiceLedger \<times> FoldOutcome \<Rightarrow> bool" where
  "reward_trace routed p0 st \<longleftrightarrow> reward_routing_daa (fst st) = routed
     \<and> distinct (map reward_request (rewards (snd st)))
     \<and> (\<forall>w\<in>set (rewards (snd st)). reward_due routed p0 w
          \<and> (\<forall>r. bt_get (pending (fst st)) (reward_request w) = Some r \<longrightarrow> winner r = Some (reward_winner w)))
     \<and> (\<forall>rh r. bt_get (pending (fst st)) rh = Some r \<longrightarrow> (\<exists>r0. bt_get p0 rh = Some r0 \<and> same_terms r0 r))"

lemma reward_traceD:
  assumes "reward_trace routed p0 (L, out)"
  shows "reward_routing_daa L = routed" and "distinct (map reward_request (rewards out))"
    and "\<And>w. w \<in> set (rewards out) \<Longrightarrow> reward_due routed p0 w"
    and "\<And>w r. w \<in> set (rewards out) \<Longrightarrow> bt_get (pending L) (reward_request w) = Some r \<Longrightarrow>
      winner r = Some (reward_winner w)"
    and "\<And>rh r. bt_get (pending L) rh = Some r \<Longrightarrow> \<exists>r0. bt_get p0 rh = Some r0 \<and> same_terms r0 r"
  using assms by (auto simp: reward_trace_def)

lemma reward_traceI:
  assumes "reward_routing_daa L = routed" and "distinct (map reward_request (rewards out))"
    and "\<And>w. w \<in> set (rewards out) \<Longrightarrow> reward_due routed p0 w"
    and "\<And>w r. w \<in> set (rewards out) \<Longrightarrow> bt_get (pending L) (reward_request w) = Some r \<Longrightarrow>
      winner r = Some (reward_winner w)"
    and "\<And>rh r. bt_get (pending L) rh = Some r \<Longrightarrow> \<exists>r0. bt_get p0 rh = Some r0 \<and> same_terms r0 r"
  shows "reward_trace routed p0 (L, out)"
  using assms by (auto simp: reward_trace_def)

lemma reward_trace_update:
  assumes inv: "reward_trace routed p0 (L, out)" and r: "bt_get (pending L) rh = Some r"
    and same: "same_terms r r'" and win: "winner r' = winner r"
  shows "reward_trace routed p0 (L\<lparr>pending := bt_insert rh r' (pending L)\<rparr>, out)"
proof -
  note d = reward_traceD [OF inv]
  obtain r0 where r0: "bt_get p0 rh = Some r0" "same_terms r0 r'"
    using d(5) [OF r] same same_terms_trans by blast
  show ?thesis
  proof (rule reward_traceI)
    show "winner q = Some (reward_winner w)"
      if "w \<in> set (rewards out)"
        and "bt_get (pending (L\<lparr>pending := bt_insert rh r' (pending L)\<rparr>)) (reward_request w) = Some q" for w q
      using that d(4) [OF that(1)] r win by (cases "reward_request w = rh") auto
    show "\<exists>r0. bt_get p0 rh' = Some r0 \<and> same_terms r0 q"
      if "bt_get (pending (L\<lparr>pending := bt_insert rh r' (pending L)\<rparr>)) rh' = Some q" for rh' q
      using that d(5) [of rh' q] r0 by (cases "rh' = rh") auto
  qed (use d in auto)
qed

lemma reward_trace_award:
  assumes inv: "reward_trace routed p0 st"
  shows "reward_trace routed p0 (maybe_award rh i False st)"
proof -
  obtain L out where [simp]: "st = (L, out)" by (cases st)
  have inv': "reward_trace routed p0 (L, out)" using inv by simp
  note routed = reward_traceD(1) [OF inv']
  show ?thesis
  proof (cases "\<exists>r d. routed = Some d \<and> bt_get (pending L) rh = Some r
      \<and> d \<le> accepted_daa r \<and> winner r = None \<and> req_reward r \<noteq> 0")
    case False
    then have "maybe_award rh i False (L, out) = (L, out)"
      using routed by (auto simp: maybe_award_def split: option.splits)
    then show ?thesis using inv by simp
  next
    case True
    then obtain r d where d: "routed = Some d" and r: "bt_get (pending L) rh = Some r"
      and c: "d \<le> accepted_daa r" "winner r = None" "req_reward r \<noteq> 0" by blast
    define w where "w = \<lparr>reward_request = rh, reward_winner = i, reward_amount = req_reward r,
                        reward_spk = bt_get (producer_spk L) i\<rparr>"
    have eq: "maybe_award rh i False (L, out)
        = (L\<lparr>pending := bt_insert rh (r\<lparr>winner := Some i\<rparr>) (pending L)\<rparr>, out\<lparr>rewards := rewards out @ [w]\<rparr>)"
      using d r c routed by (simp add: maybe_award_def w_def not_less)
    obtain r0 where r0: "bt_get p0 rh = Some r0" "same_terms r0 r"
      using reward_traceD(5) [OF inv', OF r] by blast
    have new: "rh \<notin> set (map reward_request (rewards out))"
      using reward_traceD(4) [OF inv'] r c(2) by auto
    have w0: "winner r0 = None" using r0(2) c(2) by (cases "winner r0") (auto simp: same_terms_def)
    then have due: "reward_due routed p0 w"
      using r0 c d by (auto simp: reward_due_def w_def same_terms_def)
    have "same_terms r0 (r\<lparr>winner := Some i\<rparr>)" using r0(2) w0 by (simp add: same_terms_def)
    note terms = this
    show ?thesis unfolding eq \<open>st = (L, out)\<close>
    proof (rule reward_traceI)
      fix w' assume "w' \<in> set (rewards (out\<lparr>rewards := rewards out @ [w]\<rparr>))"
      then have w': "w' = w \<or> w' \<in> set (rewards out)" by auto
      then show "reward_due routed p0 w'" using due reward_traceD(3) [OF inv'] by blast
      show "winner q = Some (reward_winner w')" if "bt_get (pending (L\<lparr>pending :=
          bt_insert rh (r\<lparr>winner := Some i\<rparr>) (pending L)\<rparr>)) (reward_request w') = Some q" for q
        using w'
      proof
        assume "w' \<in> set (rewards out)"
        then show ?thesis using that new reward_traceD(4) [OF inv'] by (cases "reward_request w' = rh") force+
      qed (use that in \<open>auto simp: w_def\<close>)
    next
      show "\<exists>r0. bt_get p0 rh' = Some r0 \<and> same_terms r0 q" if "bt_get (pending (L\<lparr>pending :=
          bt_insert rh (r\<lparr>winner := Some i\<rparr>) (pending L)\<rparr>)) rh' = Some q" for rh' q
        using that terms r0(1) reward_traceD(5) [OF inv', of rh' q] by (cases "rh' = rh") auto
    qed (use routed new reward_traceD(2) [OF inv'] in \<open>auto simp: w_def\<close>)
  qed
qed

interpretation reward: ledger_invariant daa False is_established cohort_of "reward_trace routed p0"
  for daa is_established cohort_of routed p0
proof unfold_locales
  show "reward_trace routed p0 (maybe_award rh i False st)" if "reward_trace routed p0 st" for st rh i
    using that by (rule reward_trace_award)
  show "reward_trace routed p0 (reset_served daa False i st)" if "reward_trace routed p0 st" for st i
    using that ledger_config_simps(2) [of daa False i st] by (simp add: reward_trace_def ledger_config_def)
  show "reward_trace routed p0 st'" if "reward_trace routed p0 st"
    and "strike_miner daa is_established rh st m = Some st'" for st st' rh m
    using that by (cases st; cases st') (auto elim!: strike_miner_cases simp: reward_trace_def)
  show "reward_trace routed p0 (L\<lparr>pending := bt_remove rh (pending L)\<rparr>, out)"
    if "reward_trace routed p0 (L, out)" for L out rh
    using that by (auto simp: reward_trace_def)
qed (auto intro!: reward_trace_update simp: same_terms_def, auto simp: reward_trace_def)

lemma fold_rewards:
  assumes wf: "pending_wf (pending L)"
    and fold: "fold_inner daa requests request_rewards responses escrows producers None
           is_established cohort_of L = Some (L', out)"
  shows "distinct (map reward_request (rewards out))"
    and "w \<in> set (rewards out) \<Longrightarrow> reward_amount w \<noteq> 0
      \<and> (\<forall>r. bt_get (pending L) (reward_request w) = Some r \<and>
            unat daa < unat (accepted_daa r) + unat SERVICE_LEDGER_HORIZON_DAA \<longrightarrow>
            winner r = None \<and> reward_amount w = req_reward r)
      \<and> (\<forall>r. bt_get (pending L') (reward_request w) = Some r \<longrightarrow> winner r = Some (reward_winner w)
            \<and> (\<exists>a. audit r = Some a \<and> reward_winner w \<in> set (cohort a) \<and> reward_winner w \<in> set (responded a)))"
proof -
  have *: "distinct (map reward_request (rewards out)) \<and> (\<forall>w\<in>set (rewards out). reward_amount w \<noteq> 0
      \<and> (\<forall>r. bt_get (pending L) (reward_request w) = Some r \<and>
            unat daa < unat (accepted_daa r) + unat SERVICE_LEDGER_HORIZON_DAA \<longrightarrow>
            winner r = None \<and> reward_amount w = req_reward r)
      \<and> (\<forall>r. bt_get (pending L') (reward_request w) = Some r \<longrightarrow> winner r = Some (reward_winner w)
            \<and> (\<exists>a. audit r = Some a \<and> reward_winner w \<in> set (cohort a) \<and> reward_winner w \<in> set (responded a))))"
    using wf fold
  proof (rule fold_live_audits)
    fix L2 out1 st
    assume st: "st = fold_responses daa False responses (L2, out1)"
      and au: "fold_audits daa False is_established cohort_of st = Some (L', out)"
      and wf2: "pending_wf (pending L2)" and r0: "rewards out1 = []"
      and keep: "\<And>rh r. bt_get (pending L) rh = Some r \<Longrightarrow>
        unat daa < unat (accepted_daa r) + unat SERVICE_LEDGER_HORIZON_DAA \<Longrightarrow>
        \<exists>r'. bt_get (pending L2) rh = Some r' \<and> same_request r r'"
    have "reward_trace (reward_routing_daa L2) (pending L2) (L2, out1)"
      using r0 by (auto simp: reward_trace_def intro: same_terms_refl)
    from reward.phases_keep [OF this au [unfolded st]]
    have t: "reward_trace (reward_routing_daa L2) (pending L2) (L', out)" .
    have wf': "pending_wf (pending L')"
      using requests.phases_keep [OF _ au [unfolded st]] wf2 by simp
    have win: "\<exists>a. audit r = Some a \<and> i \<in> set (cohort a) \<and> i \<in> set (responded a)"
      if "bt_get (pending L') rh = Some r" "winner r = Some i" for rh r i
      using pending_wf_get [OF wf' that(1)] that(2)
      by (auto simp: request_wf_def audit_wf_def split: option.splits)
    have pre: "winner r = None \<and> reward_amount w = req_reward r"
      if w: "w \<in> set (rewards out)" and p: "bt_get (pending L) (reward_request w) = Some r"
        and q: "unat daa < unat (accepted_daa r) + unat SERVICE_LEDGER_HORIZON_DAA" for w r
    proof -
      obtain r' where "bt_get (pending L2) (reward_request w) = Some r'" "same_request r r'"
        using keep [OF p q] by blast
      moreover have "reward_due (reward_routing_daa L2) (pending L2) w"
        using t w by (simp add: reward_trace_def)
      ultimately show ?thesis by (auto simp: reward_due_def same_request_def)
    qed
    have pos: "reward_amount w \<noteq> 0" if "w \<in> set (rewards out)" for w
    proof -
      have "reward_due (reward_routing_daa L2) (pending L2) w" using t that by (simp add: reward_trace_def)
      then show ?thesis by (auto simp: reward_due_def)
    qed
    show ?thesis using reward_traceD(2,4) [OF t] pre pos win by (intro conjI ballI allI impI) blast+
  qed
  then show "distinct (map reward_request (rewards out))" by blast
  show "w \<in> set (rewards out) \<Longrightarrow> reward_amount w \<noteq> 0
      \<and> (\<forall>r. bt_get (pending L) (reward_request w) = Some r \<and>
            unat daa < unat (accepted_daa r) + unat SERVICE_LEDGER_HORIZON_DAA \<longrightarrow>
            winner r = None \<and> reward_amount w = req_reward r)
      \<and> (\<forall>r. bt_get (pending L') (reward_request w) = Some r \<longrightarrow> winner r = Some (reward_winner w)
            \<and> (\<exists>a. audit r = Some a \<and> reward_winner w \<in> set (cohort a) \<and> reward_winner w \<in> set (responded a)))"
    using * by blast
qed

end
