(* ===== verification/Service_Properties.thy ===== *)
theory Service_Properties
  imports Service_Restore Service_Audits
begin

text \<open>
  The properties of the service ledger, each with a concrete fold on which its hypotheses hold.
\<close>

section \<open>A sample ledger and two folds of it\<close>

lemmas fold_eval =
  fold_inner_def fold_producers_def fold_claims_def fold_escrow_def expire_vault_def
  fold_requests_def admit_request_def fold_responses_def fold_response_def evict_early.simps
  fold_audits_def fold_request_def close_audit_def arm_audit_def strike_miner_def strike_guard_def
  strike_state_def consecutive_misses_def strike_penalty_at_def v2_at_def burn_def burn_vault_def
  claims_of_def vault_push_back_def bt_retain_def bt_remove_def bt_contains_key_def
  FoldOutcome_default_def MAX_EARLY_RESPONSE_HASHES_def STRIKE_1_BURN_CLAIMS_def
  reset_served_def maybe_award_def reset_preserved_last_daa_def
  credit_key_def credit_early_def credit_identity_apply push_new_def
  checked_add_def service_constants service_window_daa_at_def Let_def

definition sample_request :: "u64 \<Rightarrow> PendingRequest" where
  "sample_request window_end = \<lparr>req_tier = 1, req_max_tokens = 10, accepted_daa = 5, req_reward = 0,
     winner = None,
     audit = Some \<lparr>cohort = [7], delegations = [(8, 7)], responded = [], window_end_daa = window_end\<rparr>,
     early_responders = []\<rparr>"

definition sample_claim :: "u64 \<Rightarrow> EscrowClaim" where
  "sample_claim daa = \<lparr>claim_outpoint = TransactionOutpoint_new 3 0, claim_value = 9, claim_daa = daa\<rparr>"

text \<open>A ledger with two audits of miner 7 running, and one claim of that miner in the vault.\<close>

definition sample_ledger :: ServiceLedger where
  "sample_ledger = ServiceLedger_default\<lparr>
     pending := [(1, sample_request 10), (2, sample_request 40000)],
     vault := [(7, [sample_claim 20])],
     window_v2_activation_daa := Some 0\<rparr>"

lemmas sample_eval = sample_ledger_def sample_request_def sample_claim_def ServiceLedger_default_def

definition sample_ledger1 :: ServiceLedger where
  "sample_ledger1 = sample_ledger\<lparr>pending := [(2, sample_request 40000)], vault := [],
     strikes := [(7, \<lparr>strike_count = 1, last_daa = 100\<rparr>)], first_seen := [(7, 90)]\<rparr>"

definition sample_miss1 :: ServiceMiss where
  "sample_miss1 = \<lparr>miss_request = 1, miss_miner = 7, miss_count = 1, miss_penalty = BurnClaims 5,
     miss_burned = [sample_claim 90, sample_claim 20]\<rparr>"

lemma sample_fold1:
  "fold_inner 100 [] [] [] [(7, sample_claim 90)] [] None (\<lambda>_. True) (\<lambda>_. []) sample_ledger
     = Some (sample_ledger1, FoldOutcome_default\<lparr>misses := [sample_miss1], sightings := [7]\<rparr>)"
  by (simp add: fold_eval sample_eval sample_ledger1_def sample_miss1_def)

definition sample_ledger2 :: ServiceLedger where
  "sample_ledger2 = sample_ledger1\<lparr>pending := [],
     strikes := [(7, \<lparr>strike_count = 2, last_daa = 50000\<rparr>)]\<rparr>"

definition sample_miss2 :: ServiceMiss where
  "sample_miss2 = \<lparr>miss_request = 2, miss_miner = 7, miss_count = 2, miss_penalty = SlashAllPending,
     miss_burned = []\<rparr>"

lemma sample_fold2:
  "fold_inner 50000 [] [] [] [] [] None (\<lambda>_. True) (\<lambda>_. []) sample_ledger1
     = Some (sample_ledger2, FoldOutcome_default\<lparr>misses := [sample_miss2]\<rparr>)"
  by (simp add: fold_eval sample_eval sample_ledger1_def sample_ledger2_def sample_miss2_def)

section \<open>Reorganisations\<close>

text \<open>
  C2: Reversing a folded block.  After a live fold of a chain block, running \<open>undo_vault\<close> with the
  block's own escrow claims, the misses and the expired claims that the fold reported, and then
  restoring the light snapshot taken before the fold, gives back exactly the ledger before the fold:
  every queue of the vault in order, and every other map.  No \<open>expect\<close> of the undo path fails.
\<close>

theorem undo_restores_ledger:
  assumes "vault_wf (vault L)"
    and "fold_inner daa requests request_rewards responses escrows producers None
           is_established cohort_of L = Some (L', out)"
  shows "map_option (restore_light (light_snapshot L))
           (undo_vault escrows (misses out) (expired out) L') = Some L"
proof -
  from fold_live_vault [OF assms(2)] obtain W where
    e: "expire_vault (burnable_window L) daa (fold (\<lambda>(m, c). vault_push_back m c) escrows (vault L))
          = Some (expired out, W)"
    and b: "burns_by W (misses out) (vault L')" by blast
  have wf: "vault_wf (fold (\<lambda>(m, c). vault_push_back m c) escrows (vault L))"
    using vault_push_back_all [OF assms(1)] by blast
  have "vault_wf W" using expire_vault_queues(1) [OF vault_wf_bt [OF wf] e] .
  then have "undo_vault escrows (misses out) (expired out) L' = Some (L'\<lparr>vault := vault L\<rparr>)"
    using undo_burns [OF _ b] undo_expiry [OF wf e] undo_adds [OF assms(1), of escrows]
    by (simp add: undo_vault_def)
  moreover have "restore_light (light_snapshot L) (L'\<lparr>vault := vault L\<rparr>) = L"
    using fold_live_config [OF assms(2)]
    by (simp add: restore_light_def light_snapshot_def ledger_config_def)
  ultimately show ?thesis by simp
qed

theorem undo_restores_ledger_witness:
  "map_option (restore_light (light_snapshot sample_ledger))
     (undo_vault [(7, sample_claim 90)] [sample_miss1] [] sample_ledger1) = Some sample_ledger"
  using undo_restores_ledger [OF _ sample_fold1]
  by (simp add: FoldOutcome_default_def vault_wf_def sample_ledger_def)

section \<open>Claims\<close>

text \<open>
  C5: Claims are conserved and leave in order.  For every miner, the queue before a live fold followed
  by the claims the block adds is exactly the claims that expired (at the front, oldest first), the
  queue after the fold, and the burned claims (at the back, each miss burning newest first).  A
  claim expires only when the burnable window has passed since its creation, and the oldest claim
  left in a queue that lost nothing to a burn is still inside it.
\<close>

theorem vault_accounting:
  assumes "vault_wf (vault L)"
    and "fold_inner daa requests request_rewards responses escrows producers None
           is_established cohort_of L = Some (L', out)"
  shows "vault_wf (vault L')
    \<and> vault_claims L m @ log_of escrows m
        = log_of (expired out) m @ vault_claims L' m @ rev (burned_of (misses out) m)
    \<and> (\<forall>p\<in>set (expired out). unat (claim_daa (snd p)) + unat (burnable_window L) \<le> unat daa)
    \<and> (vault_claims L' m \<noteq> [] \<longrightarrow>
         unat daa < unat (claim_daa (hd (vault_claims L' m))) + unat (burnable_window L))"
proof -
  from fold_live_vault [OF assms(2)] obtain W where
    e: "expire_vault (burnable_window L) daa (fold (\<lambda>(m, c). vault_push_back m c) escrows (vault L))
          = Some (expired out, W)"
    and b: "burns_by W (misses out) (vault L')" by blast
  have wf: "vault_wf (fold (\<lambda>(m, c). vault_push_back m c) escrows (vault L))"
    and add: "claims_of (fold (\<lambda>(m, c). vault_push_back m c) escrows (vault L))
                = (\<lambda>m. claims_of (vault L) m @ log_of escrows m)"
    using vault_push_back_all [OF assms(1)] by blast+
  note q = expire_vault_queues [OF vault_wf_bt [OF wf] e]
  note bq = burns_by_queues [OF q(1) b, of m]
  have c: "vault_claims K = claims_of (vault K)" for K by (auto simp: vault_claims_def claims_of_def)
  have acc: "claims_of (vault L) m @ log_of escrows m
      = log_of (expired out) m @ claims_of (vault L') m @ rev (burned_of (misses out) m)"
    using q(2) [of m] bq add by simp
  have hd: "hd (claims_of W m) = hd (claims_of (vault L') m)" "claims_of W m \<noteq> []"
    if "claims_of (vault L') m \<noteq> []" using that bq by simp_all
  show ?thesis unfolding c using acc bq q(3) [of m] q(4) hd by auto
qed

theorem vault_accounting_witness:
  "vault_claims sample_ledger 7 @ [sample_claim 90]
     = vault_claims sample_ledger1 7 @ rev [sample_claim 90, sample_claim 20]"
  using vault_accounting [OF _ sample_fold1, of 7]
  by (simp add: FoldOutcome_default_def vault_wf_def sample_ledger_def burned_of_def sample_miss1_def)

section \<open>Strikes\<close>

text \<open>
  C7: Strikes escalate one rung at a time and restart after a suspension.  From a ledger in which no
  miner has more than two consecutive misses, take the misses of one miner that a live fold reports.
  They climb the ladder from the miner's counter before the fold - the counter plus one as the count,
  a burn of five claims (of all claims for a miner without standing before the v2 activation), then
  of all claims, then the suspension, after which the counter restarts at zero - and the counter
  after the fold is where the climb ends.  A served audit clears the counter, before the misses or
  after them, and only if the outcome reports the reset.  No counter exceeds two after the fold.
\<close>

theorem strike_escalation:
  assumes "strikes_ok L"
    and "fold_inner daa requests request_rewards responses escrows producers None
           is_established cohort_of L = Some (L', out)"
  shows "strikes_ok L' \<and>
    (\<exists>s e. (s = consecutive_misses L m \<or> s = 0 \<and> was_reset out m)
      \<and> escalates (is_established m \<or> v2_at L daa) s (misses_of out m) e
      \<and> (consecutive_misses L' m = e \<or> consecutive_misses L' m = 0 \<and> was_reset out m))"
proof -
  have "consecutive_misses L' n \<le> 2" for n
    using fold_escalates [OF assms, of n] assms(1) escalates_small unfolding strikes_ok_def by fastforce
  then show ?thesis using fold_escalates [OF assms, of m] by (simp add: strikes_ok_def)
qed

theorem strike_escalation_witness:
  "consecutive_misses sample_ledger1 7 = 1 \<and> escalates True 1 [sample_miss2] 2
   \<and> consecutive_misses sample_ledger2 7 = 2 \<and> strikes_ok sample_ledger2"
proof -
  have ok: "strikes_ok sample_ledger1"
    by (simp add: strikes_ok_def consecutive_misses_def strike_state_def sample_eval sample_ledger1_def)
  have c: "consecutive_misses sample_ledger1 7 = 1" "consecutive_misses sample_ledger2 7 = 2"
    by (simp_all add: consecutive_misses_def strike_state_def sample_ledger1_def sample_ledger2_def)
  have "\<not> was_reset (FoldOutcome_default\<lparr>misses := [sample_miss2]\<rparr>) 7"
    "misses_of (FoldOutcome_default\<lparr>misses := [sample_miss2]\<rparr>) 7 = [sample_miss2]"
    by (simp_all add: was_reset_def FoldOutcome_default_def misses_of_def sample_miss2_def)
  then show ?thesis using strike_escalation [OF ok sample_fold2, of 7] c by simp
qed

text \<open>
  C4: Strikes on one miner are at least an interval apart.  In any sequence of live folds after the v2
  activation, two misses of the same miner, in the order they are reported, have event scores at
  least \<open>SERVICE_STRIKE_INTERVAL_DAA\<close> apart, whatever responses, requests and resets lie between
  them.
\<close>

theorem strikes_rate_limited:
  assumes "ledger_run L log L'" and "i < j" and "j < length log"
    and "miss_miner (snd (log ! i)) = miss_miner (snd (log ! j))"
  shows "unat (fst (log ! i)) + 36000 \<le> unat (fst (log ! j))"
  using ledger_run_spaced [OF assms(1)] assms(2-4)
  by (auto simp: sorted_wrt_iff_nth_less spaced_def SERVICE_STRIKE_INTERVAL_DAA_def)

theorem strikes_rate_limited_witness:
  "\<exists>log. ledger_run sample_ledger log sample_ledger2 \<and> length log = 2
     \<and> miss_miner (snd (log ! 0)) = miss_miner (snd (log ! 1))
     \<and> unat (fst (log ! 0)) + 36000 \<le> unat (fst (log ! 1))"
proof -
  have "ledger_run sample_ledger ([] @ map (Pair 100) (misses (FoldOutcome_default\<lparr>misses := [sample_miss1],
      sightings := [7]\<rparr>))) sample_ledger1"
    by (rule run_block [OF run_start _ _ sample_fold1]) (simp_all add: v2_at_def sample_ledger_def)
  from run_block [OF this _ _ sample_fold2]
  have run: "ledger_run sample_ledger [(100, sample_miss1), (50000, sample_miss2)] sample_ledger2"
    by (simp add: v2_at_def sample_ledger1_def sample_ledger_def)
  show ?thesis
    using strikes_rate_limited [OF run, of 0 1] run
    by (intro exI [of _ "[(100, sample_miss1), (50000, sample_miss2)]"])
      (simp add: sample_miss1_def sample_miss2_def)
qed

section \<open>Synchronisation\<close>

text \<open>
  C10: A node that restores a ledger from its snapshot continues exactly like the node the snapshot was
  taken on.  For every block and every environment, live or warm-up, folding the restored ledger
  panics exactly when folding the original does, reports the same outcome, and leaves the ledger
  that restoring a snapshot of the original's next state gives.
\<close>

theorem restored_ledger_folds_alike:
  assumes "bases_wf L" and "ledger_config M = ledger_config L"
  shows "fold_inner daa requests request_rewards responses escrows producers warmup_burned
           is_established cohort_of (restore_snapshot (snapshot L) M)
    = map_option (apfst (\<lambda>L'. restore_snapshot (snapshot L') M))
        (fold_inner daa requests request_rewards responses escrows producers warmup_burned
           is_established cohort_of L)"
proof -
  have "apfst norm st = apfst (\<lambda>L'. restore_snapshot (snapshot L') M) st"
    if "fold_inner daa requests request_rewards responses escrows producers warmup_burned
           is_established cohort_of L = Some st" for st
    using fold_inner_config [of daa requests request_rewards responses escrows producers warmup_burned
        is_established cohort_of L "fst st" "snd st"] that assms(2)
    by (cases st) (simp add: restore_norm)
  then show ?thesis
    unfolding restore_norm [OF assms(2)] norm_fold [OF assms(1)] by (auto intro: map_option_cong)
qed

theorem restored_ledger_folds_alike_witness:
  "fold_inner 100 [] [] [] [(7, sample_claim 90)] [] None (\<lambda>_. True) (\<lambda>_. [])
     (restore_snapshot (snapshot sample_ledger) (set_window_v2_activation 0 ServiceLedger_default))
   = Some (restore_snapshot (snapshot sample_ledger1) (set_window_v2_activation 0 ServiceLedger_default),
       FoldOutcome_default\<lparr>misses := [sample_miss1], sightings := [7]\<rparr>)"
proof -
  have wf: "bases_wf sample_ledger"
    and cfg: "ledger_config (set_window_v2_activation 0 ServiceLedger_default) = ledger_config sample_ledger"
    by (simp_all add: bases_wf_def ledger_config_def sample_ledger_def set_window_v2_activation_def
        ServiceLedger_default_def)
  show ?thesis unfolding restored_ledger_folds_alike [OF wf cfg] sample_fold1 by simp
qed

section \<open>Audits and rewards\<close>

definition sample_responded :: ServiceLedger where
  "sample_responded = sample_ledger\<lparr>
     pending := [(1, (sample_request 10)\<lparr>req_reward := 25\<rparr>), (2, sample_request 40000)],
     reward_routing_daa := Some 1\<rparr>"

lemma sample_pending_wf: "pending_wf (pending sample_ledger)" "pending_wf (pending sample_responded)"
  by (auto simp: pending_wf_def sample_ledger_def sample_responded_def sample_request_def request_wf_def
      audit_wf_def split: if_splits)

text \<open>
  C11: Every reported miss is a real one.  A miss of a live fold names a request whose audit was armed by
  an earlier block and whose window has closed, and a member of that audit's cohort who had not
  responded and to whom no response of this block is delegated.
\<close>

theorem misses_are_silent:
  assumes "pending_wf (pending L)"
    and "fold_inner daa requests request_rewards responses escrows producers None
           is_established cohort_of L = Some (L', out)"
    and "miss \<in> set (misses out)"
  shows "\<exists>r a. bt_get (pending L) (miss_request miss) = Some r \<and> audit r = Some a \<and> window_end_daa a < daa
     \<and> miss_miner miss \<in> set (cohort a) \<and> miss_miner miss \<notin> set (responded a)
     \<and> (\<forall>key. (miss_request miss, Some key) \<in> set responses \<longrightarrow> (key, miss_miner miss) \<notin> set (delegations a))"
  using misses_silent [OF assms] by (auto simp: closed_audit_eq_Some silent_def)

theorem misses_are_silent_witness:
  "\<exists>r a. bt_get (pending sample_ledger) 1 = Some r \<and> audit r = Some a \<and> window_end_daa a < 100
     \<and> 7 \<in> set (cohort a) \<and> 7 \<notin> set (responded a)"
  using misses_are_silent [OF sample_pending_wf(1) sample_fold1, of sample_miss1]
  by (auto simp: FoldOutcome_default_def sample_miss1_def)

text \<open>
  C12: Silence is never overlooked.  When a block is folded after the window of a pending audit has closed
  and before the request falls out of the ledger's horizon, the request leaves the ledger, and each
  cohort member that neither had responded nor is answered for in this block is struck in this
  fold, unless the rate limit already protects it.
\<close>

theorem silence_is_struck:
  assumes "pending_wf (pending L)"
    and "fold_inner daa requests request_rewards responses escrows producers None
           is_established cohort_of L = Some (L', out)"
    and "bt_get (pending L) rh = Some r" and "audit r = Some a" and "window_end_daa a < daa"
    and "unat daa < unat (accepted_daa r) + 72000"
    and "m \<in> set (cohort a)" and "m \<notin> set (responded a)"
    and "\<forall>key. (rh, Some key) \<in> set responses \<longrightarrow> (key, m) \<notin> set (delegations a)"
  shows "bt_get (pending L') rh = None
    \<and> ((\<exists>miss\<in>set (misses out). miss_miner miss = m) \<or> rate_limited daa L m)"
  using silence_struck [OF assms(1-5)] assms(6-9)
  by (auto simp: SERVICE_LEDGER_HORIZON_DAA_def silent_def marked_def)

theorem silence_is_struck_witness:
  "bt_get (pending sample_ledger1) 1 = None \<and> \<not> rate_limited 100 sample_ledger 7"
proof -
  have "bt_get (pending sample_ledger1) 1 = None
    \<and> ((\<exists>miss\<in>set (misses (FoldOutcome_default\<lparr>misses := [sample_miss1], sightings := [7]\<rparr>)). miss_miner miss = 7)
       \<or> rate_limited 100 sample_ledger 7)"
    by (rule silence_is_struck [OF sample_pending_wf(1) sample_fold1, where r = "sample_request 10"
          and a = "\<lparr>cohort = [7], delegations = [(8, 7)], responded = [], window_end_daa = 10\<rparr>"])
      (simp_all add: sample_ledger_def sample_request_def)
  then show ?thesis by (simp add: rate_limited_def strike_state_def sample_ledger_def ServiceLedger_default_def)
qed

text \<open>
  C13: A request is rewarded once, to a responder.  The rewards of a live fold are for distinct requests and
  never zero; a request that already has a winner is not rewarded again while it is pending; the
  amount is the one locked by the request; and as long as the request stays pending, its recorded
  winner is the rewarded identity, a member of the audited cohort that has responded.
\<close>

theorem rewarded_once:
  assumes "pending_wf (pending L)"
    and "fold_inner daa requests request_rewards responses escrows producers None
           is_established cohort_of L = Some (L', out)"
  shows "distinct (map reward_request (rewards out)) \<and> (\<forall>w\<in>set (rewards out). reward_amount w \<noteq> 0
      \<and> (\<forall>r. bt_get (pending L) (reward_request w) = Some r \<and> unat daa < unat (accepted_daa r) + 72000 \<longrightarrow>
            winner r = None \<and> reward_amount w = req_reward r)
      \<and> (\<forall>r. bt_get (pending L') (reward_request w) = Some r \<longrightarrow> winner r = Some (reward_winner w)
            \<and> (\<exists>a. audit r = Some a \<and> reward_winner w \<in> set (cohort a) \<and> reward_winner w \<in> set (responded a))))"
  using fold_rewards [OF assms] by (simp add: SERVICE_LEDGER_HORIZON_DAA_def)

definition sample_reward :: ServiceReward where
  "sample_reward = \<lparr>reward_request = 1, reward_winner = 7, reward_amount = 25, reward_spk = None\<rparr>"

lemma sample_fold3:
  "\<exists>L'. fold_inner 9 [] [] [(1, Some 8)] [] [] None (\<lambda>_. True) (\<lambda>_. []) sample_responded
     = Some (L', FoldOutcome_default\<lparr>rewards := [sample_reward]\<rparr>)"
  by (simp add: fold_eval sample_eval sample_responded_def sample_reward_def)

theorem rewarded_once_witness:
  "winner ((sample_request 10)\<lparr>req_reward := 25\<rparr>) = None \<and> reward_amount sample_reward = 25"
proof -
  obtain L' where fold: "fold_inner 9 [] [] [(1, Some 8)] [] [] None (\<lambda>_. True) (\<lambda>_. []) sample_responded
     = Some (L', FoldOutcome_default\<lparr>rewards := [sample_reward]\<rparr>)" using sample_fold3 by blast
  from rewarded_once [OF sample_pending_wf(2) fold] show ?thesis
    by (auto simp: sample_responded_def sample_reward_def sample_request_def FoldOutcome_default_def)
qed

end
