(* ===== verification/Script_Num.thy ===== *)
theory Script_Num
  imports Rust_Prelude
begin

unbundle bit_operations_syntax

text \<open>
  The numbers of the script language: \<^verbatim>\<open>src/crypto/txscript/src/data_stack.rs\<close>, lines 87 to 224,
  and the errors of \<^verbatim>\<open>src/crypto/txscript/errors/src/lib.rs\<close>.

  A script number is a byte string, least significant byte first, whose top bit is the sign.  An
  \<^verbatim>\<open>i64\<close> is an \<open>int\<close> here and every operation of the source that leaves the 64-bit range is
  written out: it panics (\<open>None\<close>) or is checked.  The error variants that carry a formatted message
  have no argument: the message is only displayed.
\<close>

section \<open>Errors\<close>

datatype SerializationError = NumberTooLong int

datatype TxScriptError =
    MalformedPushSize "u8 list"
  | MalformedPush nat nat
  | InvalidInputIndex int nat
  | StackSizeExceeded nat nat
  | InvalidOpcode
  | OpcodeReserved
  | OpcodeDisabled
  | EmptyStack
  | CleanStack nat
  | EvalFalse
  | EarlyReturn
  | VerifyError
  | InvalidState
  | InvalidSignature
  | SigcacheSignatureInvalid
  | TooManyOperations int
  | NotATransactionInput
  | ElementTooBig nat nat
  | NotMinimalData
  | InvalidSource
  | UnsatisfiedLockTime
  | NumberTooBig
  | NullFail
  | InvalidSignatureCount
  | InvalidPubKeyCount
  | InvalidSigHashType u8
  | PubKeyFormat
  | SigLength nat
  | NoScripts
  | SignatureScriptNotPushOnly
  | ErrUnbalancedConditional
  | InvalidStackOperation nat nat
  | ScriptSize nat nat
  | InvalidOutputIndex int nat
  | Serialization SerializationError
  | ExceededSigOpLimit u8

type_synonym 'a script_result = "(TxScriptError, 'a) outcome"

section \<open>Signed integers\<close>

definition in_i64 :: "int \<Rightarrow> bool" where
  "in_i64 x = (- (2 ^ 63) \<le> x \<and> x < 2 ^ 63)"

definition in_i32 :: "int \<Rightarrow> bool" where
  "in_i32 x = (- (2 ^ 31) \<le> x \<and> x < 2 ^ 31)"

text \<open>\<open>checked_add\<close> and its relatives on \<^verbatim>\<open>i64\<close>: the exact result when it fits.\<close>

definition i64_checked :: "int \<Rightarrow> int option" where
  "i64_checked x = (if in_i64 x then Some x else None)"

text \<open>\<open><<\<close> drops the bits that leave the word.\<close>

definition i64_shl8 :: "int \<Rightarrow> int" where
  "i64_shl8 x = signed_take_bit 63 (x * 256)"

section \<open>Encoding and decoding\<close>

definition check_minimal_data_encoding :: "u8 list \<Rightarrow> unit script_result" where
  "check_minimal_data_encoding v =
     (if v = [] then Ok ()
      else if v ! (length v - 1) AND 0x7f = 0
           \<and> (length v = 1 \<or> v ! (length v - 2) AND 0x80 = 0)
      then Err NotMinimalData
      else Ok ())"

text \<open>The generator of \<open>serialize_i64\<close>: its state is \<open>positive\<close> and \<open>last_saturated\<close>.\<close>

function number_bytes :: "u64 \<Rightarrow> bool \<Rightarrow> u8 list" where
  "number_bytes positive last_saturated =
     (if positive = 0 then (if last_saturated then [0] else [])
      else (let value = positive AND 0xff
            in ucast value # number_bytes (drop_bit 8 positive) (value AND 0x80 \<noteq> 0)))"
  by pat_completeness auto

termination
proof (relation "measure (\<lambda>(p, s). unat p)")
  fix positive :: u64
  assume "positive \<noteq> 0"
  then have "0 < unat positive" by (simp add: unat_gt_0)
  then show "((drop_bit 8 positive, s'), positive, s) \<in> measure (\<lambda>(p, s). unat p)" for s s'
    by (simp add: drop_bit_eq_div unat_div)
qed simp

declare number_bytes.simps [simp del]

definition serialize_i64 :: "int \<Rightarrow> u8 list option" where
  "serialize_i64 from =
     (let number_vec = number_bytes (word_of_int \<bar>from\<bar>) False
      in if sgn from = - 1
         then (if number_vec = [] then None
               else Some (number_vec[length number_vec - 1 := last number_vec OR 0x80]))
         else Some number_vec)"

definition deserialize_i64 :: "u8 list \<Rightarrow> int script_result" where
  "deserialize_i64 v =
     (if length v > 8 then Err NotMinimalData
      else if v = [] then Ok 0
      else try_bind (check_minimal_data_encoding v) (\<lambda>_.
        let msb = v ! (length v - 1);
            sign = 1 - 2 * uint (drop_bit 7 msb);
            first_byte = uint (msb AND 0x7f)
        in case foldM (\<lambda>accum item. i64_checked (i64_shl8 accum + uint item)) first_byte
                  (rev (take (length v - 1) v)) of
             None \<Rightarrow> None
           | Some n \<Rightarrow> (case i64_checked (n * sign) of None \<Rightarrow> None | Some r \<Rightarrow> Ok r)))"

text \<open>\<open>OpcodeData\<close> for \<open>SizedEncodeInt<LEN>\<close>, \<^verbatim>\<open>i64\<close>, \<^verbatim>\<open>i32\<close> and \<^verbatim>\<open>bool\<close>.\<close>

definition deserialize_sized :: "nat \<Rightarrow> u8 list \<Rightarrow> int script_result" where
  "deserialize_sized LEN v = (if length v > LEN then Err NumberTooBig else deserialize_i64 v)"

definition serialize_sized :: "nat \<Rightarrow> int \<Rightarrow> (SerializationError, u8 list) outcome" where
  "serialize_sized LEN from =
     (case serialize_i64 from of
        None \<Rightarrow> None
      | Some bytes \<Rightarrow> if length bytes > LEN then Err (NumberTooLong from) else Ok bytes)"

definition deserialize_num :: "u8 list \<Rightarrow> int script_result" where
  "deserialize_num v = deserialize_sized 8 v"

definition serialize_num :: "int \<Rightarrow> (SerializationError, u8 list) outcome" where
  "serialize_num from = serialize_sized 8 from"

definition deserialize_i32 :: "u8 list \<Rightarrow> int script_result" where
  "deserialize_i32 v =
     try_bind (deserialize_sized 4 v) (\<lambda>x. if in_i32 x then Ok x else None)"

definition serialize_i32 :: "int \<Rightarrow> (SerializationError, u8 list) outcome" where
  "serialize_i32 from = serialize_sized 4 from"

definition deserialize_bool :: "u8 list \<Rightarrow> bool script_result" where
  "deserialize_bool v =
     (if v = [] then Ok False
      else Ok (v ! (length v - 1) AND 0x7f \<noteq> 0 \<or> list_ex (\<lambda>b. b \<noteq> 0) (take (length v - 1) v)))"

definition serialize_bool :: "bool \<Rightarrow> u8 list" where
  "serialize_bool b = (if b then [1] else [])"

section \<open>Readings of the bit operations\<close>

lemma unat_u8_lt [simp]: "unat (b :: u8) < 256"
  using unat_lt [of b] by simp

lemma unat_and_7f: "unat (b AND 0x7f :: u8) = unat b mod 128"
proof -
  have "b AND 0x7f = take_bit 7 b" by (simp add: take_bit_eq_mask mask_eq_exp_minus_1)
  then show ?thesis by (simp add: take_bit_eq_mod unat_mod)
qed

lemma div_128: "n < 256 \<Longrightarrow> n div 128 = (if 128 \<le> n then 1 else 0 :: nat)"
  by (cases "128 \<le> n") (simp_all add: le_div_geq)

lemma bit_7_iff: "bit (b :: u8) 7 \<longleftrightarrow> 128 \<le> unat b"
proof -
  have "bit b 7 \<longleftrightarrow> odd (unat b div 128)"
    by (simp add: bit_iff_odd even_drop_bit_iff_not_bit flip: unat_div) (simp add: word_unat_eq_iff even_iff_mod_2_eq_zero unat_mod unat_div)
  moreover have "unat b div 128 = (if 128 \<le> unat b then 1 else 0)"
    by (rule div_128) simp
  ultimately show ?thesis by simp
qed

lemma and_80_eq_0: "(b AND 0x80 :: u8) = 0 \<longleftrightarrow> unat b < 128"
  using and_exp_eq_0_iff_not_bit [of b 7] by (simp add: bit_7_iff not_le)

lemma unat_drop_7: "unat (drop_bit 7 b :: u8) = unat b div 128"
  by (simp add: drop_bit_eq_div unat_div)

lemma unat_or_80: "unat b < 128 \<Longrightarrow> unat (b OR 0x80 :: u8) = unat b + 128"
proof -
  assume b: "unat b < 128"
  then have "b AND 0x80 = 0" by (simp add: and_80_eq_0)
  then have "b OR 0x80 = b + 0x80" by (simp add: disjunctive_add_eq_or)
  with b show ?thesis by (simp add: unat_word_ariths)
qed

section \<open>The generator\<close>

text \<open>A minimal magnitude: no top byte that only repeats a zero sign.\<close>

definition minimal :: "u8 list \<Rightarrow> bool" where
  "minimal w = (w \<noteq> [] \<and> unat (last w) < 128
     \<and> (last w = 0 \<longrightarrow> butlast w \<noteq> [] \<and> 128 \<le> unat (last (butlast w))))"

lemma number_bytes_zero [simp]: "number_bytes 0 s = (if s then [0] else [])"
  by (subst number_bytes.simps) simp

lemma number_bytes_pos:
  assumes "p \<noteq> 0"
  shows "number_bytes p s =
    word_of_nat (unat p mod 256) # number_bytes (p div 256) (128 \<le> unat p mod 256)"
proof -
  have v: "p AND 0xff = p mod 256"
    using take_bit_eq_mask [of 8 p] by (simp add: take_bit_eq_mod mask_eq_exp_minus_1)
  have u: "unat (p mod 256) = unat p mod 256" by (simp add: unat_mod)
  have "ucast (p mod 256) = (word_of_nat (unat p mod 256) :: u8)"
    by (simp flip: u)
  moreover have "((p mod 256) AND 0x80 \<noteq> 0) = (128 \<le> unat p mod 256)"
  proof -
    have "(p mod 256) AND 0x80 = 0 \<longleftrightarrow> \<not> bit (p mod 256) 7"
      using and_exp_eq_0_iff_not_bit [of "p mod 256" 7] by simp
    moreover have "bit (p mod 256) 7 \<longleftrightarrow> odd (unat (p mod 256) div 128)"
      by (simp add: bit_iff_odd word_unat_eq_iff even_iff_mod_2_eq_zero unat_mod unat_div)
    moreover have "unat (p mod 256) div 128 = (if 128 \<le> unat p mod 256 then 1 else 0)"
      using div_128 [of "unat p mod 256"] u by simp
    ultimately show ?thesis by simp
  qed
  ultimately show ?thesis
    using assms by (subst number_bytes.simps) (simp add: v drop_bit_eq_div Let_def)
qed

lemma le_number_bytes:
  "p \<noteq> 0 \<Longrightarrow> le_to_nat (number_bytes p s) = unat p \<and> minimal (number_bytes p s)"
proof (induction "unat p" arbitrary: p s rule: less_induct)
  case less
  define q sat and d :: u8
    where "q = p div 256" and "sat = (128 \<le> unat p mod 256)" and "d = word_of_nat (unat p mod 256)"
  then have step: "number_bytes p s = d # number_bytes q sat"
    using less.prems by (simp add: number_bytes_pos)
  have d: "unat d = unat p mod 256" unfolding d_def by (simp only: unat_of_nat) simp
  have q: "unat q = unat p div 256" by (simp add: q_def unat_div)
  have p: "0 < unat p" using less.prems by (simp add: unat_gt_0)
  show ?case
  proof (cases "q = 0")
    case True
    then have "unat p mod 256 = unat p" using q by simp
    with True p d show ?thesis unfolding step
      by (auto simp: sat_def minimal_def)
  next
    case False
    let ?r = "number_bytes q sat"
    have "unat q < unat p" using p q by simp
    then have "le_to_nat ?r = unat q" "minimal ?r" using less.hyps False by auto
    then show ?thesis using d q unfolding step
      by (auto simp: minimal_def)
  qed
qed

text \<open>A minimal magnitude is what the generator emits for its value.\<close>

lemma number_bytes_le_to_nat:
  "minimal w \<Longrightarrow> le_to_nat w < 2 ^ 64 \<Longrightarrow> number_bytes (word_of_nat (le_to_nat w)) False = w"
proof -
  have "minimal w \<Longrightarrow> le_to_nat w < 2 ^ 64 \<Longrightarrow> le_to_nat w \<noteq> 0 \<and>
      number_bytes (word_of_nat (le_to_nat w)) s = w" for s
  proof (induction w arbitrary: s)
    case Nil
    then show ?case by (simp add: minimal_def)
  next
    case (Cons b w)
    define n where "n = le_to_nat (b # w)"
    have lt: "n < 2 ^ 64" using Cons.prems(2) by (simp only: n_def)
    then have n: "unat (word_of_nat n :: u64) = n" by (simp add: unat_of_nat)
    have dv: "n div 256 = le_to_nat w" and md: "n mod 256 = unat b" by (simp_all add: n_def)
    have shape: "(w = [0] \<longrightarrow> 128 \<le> unat b) \<and> (w \<noteq> [] \<longrightarrow> w \<noteq> [0] \<longrightarrow> minimal w)
        \<and> (w = [] \<longrightarrow> unat b < 128 \<and> unat b \<noteq> 0)"
      using Cons.prems(1) by (cases w rule: rev_cases) (auto simp: minimal_def word_unat_eq_iff)
    have pos: "n \<noteq> 0"
      using shape Cons.IH lt by (cases "w = []"; cases "w = [0]") (auto simp: n_def)
    have "word_of_nat n div 256 = (word_of_nat (le_to_nat w) :: u64)"
      using n dv lt by (simp add: word_unat_eq_iff unat_div unat_of_nat)
    moreover have "word_of_nat n \<noteq> (0 :: u64)" using n pos by (metis unat_0)
    ultimately have step: "number_bytes (word_of_nat n) s =
        b # number_bytes (word_of_nat (le_to_nat w)) (128 \<le> unat b)"
      using n md by (simp add: number_bytes_pos)
    consider "w = []" | "w = [0]" | "w \<noteq> []" "w \<noteq> [0]" by blast
    then show ?case
    proof cases
      case 1
      with step shape pos show ?thesis by (simp add: n_def)
    next
      case 2
      with step shape pos show ?thesis by (simp add: n_def)
    next
      case 3
      moreover have "le_to_nat w < 2 ^ 64" using Cons.prems(2) by simp
      ultimately show ?thesis using step pos shape Cons.IH by (simp add: n_def)
    qed
  qed
  then show "minimal w \<Longrightarrow> le_to_nat w < 2 ^ 64 \<Longrightarrow> number_bytes (word_of_nat (le_to_nat w)) False = w"
    by blast
qed

section \<open>Closed forms\<close>

text \<open>The magnitude bytes and the value of a script number, written without the loop.\<close>

definition magnitude :: "u8 list \<Rightarrow> u8 list" where
  "magnitude v = butlast v @ [last v AND 0x7f]"

definition num_value :: "u8 list \<Rightarrow> int" where
  "num_value v = (if v = [] then 0
     else (if 128 \<le> unat (last v) then - 1 else 1) * int (le_to_nat (magnitude v)))"

lemma last_nth: "v \<noteq> [] \<Longrightarrow> v ! (length v - 1) = last v"
  by (simp add: last_conv_nth)

lemma check_minimal_iff:
  "check_minimal_data_encoding v = (if v = [] \<or> minimal (magnitude v) then Ok () else Err NotMinimalData)"
proof (cases v rule: rev_cases)
  case Nil
  then show ?thesis by (simp add: check_minimal_data_encoding_def)
next
  case (snoc w m)
  have z: "m AND 0x7f = 0 \<longleftrightarrow> unat m mod 128 = 0"
    by (simp add: word_unat_eq_iff unat_and_7f)
  show ?thesis
  proof (cases w rule: rev_cases)
    case Nil
    with snoc z show ?thesis
      by (auto simp: check_minimal_data_encoding_def minimal_def magnitude_def unat_and_7f)
  next
    case (snoc u b)
    with \<open>v = w @ [m]\<close> z show ?thesis
      by (auto simp: check_minimal_data_encoding_def minimal_def magnitude_def unat_and_7f
          and_80_eq_0 nth_append butlast_append)
  qed
qed

lemma fold_bytes:
  assumes "0 \<le> f" and "(f + 1) * 256 ^ length w \<le> 2 ^ 63"
  shows "foldM (\<lambda>accum item. i64_checked (i64_shl8 accum + uint item)) f (rev w)
    = Some (f * 256 ^ length w + int (le_to_nat w))"
  using assms
proof (induction w arbitrary: f rule: rev_induct)
  case Nil
  then show ?case by simp
next
  case (snoc b w)
  have b: "0 \<le> uint b" "uint b < 256"
    using unsigned_less [of b, where ?'a = int] by simp_all
  have one: "(1 :: int) \<le> 256 ^ length w" by simp
  have "(f * 256 + uint b + 1) * 256 ^ length w \<le> ((f + 1) * 256) * 256 ^ length w"
    using b by (intro mult_right_mono) auto
  also have "\<dots> \<le> 2 ^ 63" using snoc.prems(2) by (simp add: algebra_simps)
  finally have next_ok: "(f * 256 + uint b + 1) * 256 ^ length w \<le> 2 ^ 63" .
  have "(f * 256 + uint b + 1) * 1 \<le> (f * 256 + uint b + 1) * 256 ^ length w"
    using one snoc.prems(1) by (intro mult_left_mono) auto
  then have "f * 256 + uint b + 1 \<le> 2 ^ 63" using order_trans [OF _ next_ok] by simp
  then have lt: "f * 256 + uint b < 2 ^ 63" by linarith
  have "f * 256 < 2 ^ 63" using lt b(1) by linarith
  then have "i64_shl8 f = f * 256" unfolding i64_shl8_def
    using snoc.prems(1) by (intro signed_take_bit_int_eq_self) auto
  moreover have "0 \<le> f * 256 + uint b" using snoc.prems(1) by simp
  ultimately have "i64_checked (i64_shl8 f + uint b) = Some (f * 256 + uint b)"
    using lt by (simp add: i64_checked_def in_i64_def)
  then show ?case
    using snoc.IH [OF _ next_ok] snoc.prems(1) b
    by (simp add: le_to_nat_snoc algebra_simps)
qed

lemma le_magnitude_lt: "v \<noteq> [] \<Longrightarrow> le_to_nat (magnitude v) < 128 * 256 ^ (length v - 1)"
proof -
  assume "v \<noteq> []"
  have m: "unat (last v AND 0x7f) \<le> 127" by (simp add: unat_and_7f)
  have "le_to_nat (butlast v) < 256 ^ (length v - 1)"
    using le_to_nat_lt [of "butlast v"] by simp
  moreover have "256 ^ (length v - 1) * unat (last v AND 0x7f) \<le> 256 ^ (length v - 1) * 127"
    using m by (intro mult_left_mono) auto
  moreover have "le_to_nat (magnitude v)
      = le_to_nat (butlast v) + 256 ^ (length v - 1) * unat (last v AND 0x7f)"
    by (simp add: magnitude_def le_to_nat_snoc)
  ultimately show ?thesis by linarith
qed

lemma magnitude_bound: "v \<noteq> [] \<Longrightarrow> length v \<le> Suc n \<Longrightarrow> le_to_nat (magnitude v) < 128 * 256 ^ n"
proof -
  assume "v \<noteq> []" "length v \<le> Suc n"
  then have "(256 :: nat) ^ (length v - 1) \<le> 256 ^ n" by (intro power_increasing) auto
  with le_magnitude_lt [OF \<open>v \<noteq> []\<close>] show ?thesis by linarith
qed

lemma deserialize_i64_closed:
  "deserialize_i64 v =
     (if length v > 8 then Err NotMinimalData
      else if v = [] \<or> minimal (magnitude v) then Ok (num_value v) else Err NotMinimalData)"
proof (cases "v = [] \<or> length v > 8 \<or> \<not> minimal (magnitude v)")
  case True
  then show ?thesis by (auto simp: deserialize_i64_def check_minimal_iff num_value_def)
next
  case False
  then have v: "v \<noteq> []" "length v \<le> 8" "minimal (magnitude v)" by auto
  let ?f = "uint (last v AND 0x7f)" and ?w = "butlast v"
  have f: "?f = int (unat (last v) mod 128)" by (simp flip: unat_and_7f)
  have fw: "(?f + 1) * 256 ^ length ?w \<le> 128 * 256 ^ 7"
    using v f by (intro mult_mono power_increasing) auto
  have mag: "?f * 256 ^ length ?w + int (le_to_nat ?w) = int (le_to_nat (magnitude v))"
    by (simp add: magnitude_def le_to_nat_snoc)
  have lt: "int (le_to_nat (magnitude v)) < 2 ^ 63"
    using magnitude_bound [of v 7] v by simp
  have sign: "1 - 2 * uint (drop_bit 7 (last v)) = (if 128 \<le> unat (last v) then - 1 else 1)"
  proof -
    have "uint (drop_bit 7 (last v)) = int (unat (last v) div 128)"
      by (simp flip: unat_drop_7)
    then show ?thesis by (simp add: div_128)
  qed
  have nth: "v ! (length v - 1) = last v" "take (length v - 1) v = ?w"
    using v by (simp_all add: last_conv_nth butlast_conv_take)
  have fold: "foldM (\<lambda>accum item. i64_checked (i64_shl8 accum + uint item)) ?f (rev ?w)
      = Some (int (le_to_nat (magnitude v)))"
    using fold_bytes [of ?f ?w] fw mag by simp
  have "i64_checked (int (le_to_nat (magnitude v)) * (if 128 \<le> unat (last v) then - 1 else 1))
      = Some (num_value v)"
    using lt v by (simp add: i64_checked_def in_i64_def num_value_def)
  with v show ?thesis
    unfolding deserialize_i64_def nth Let_def fold sign by (simp add: check_minimal_iff)
qed

section \<open>The encoding is the inverse of the decoding\<close>

lemma serialize_i64_ex:
  assumes "in_i64 x"
  obtains v where "serialize_i64 x = Some v" "num_value v = x" "v = [] \<or> minimal (magnitude v)"
proof (cases "x = 0")
  case True
  then show ?thesis by (intro that [of "[]"]) (simp_all add: serialize_i64_def num_value_def)
next
  case False
  define w where "w = number_bytes (word_of_int \<bar>x\<bar>) False"
  have ab: "unat (word_of_int \<bar>x\<bar> :: u64) = nat \<bar>x\<bar>"
  proof -
    have "uint (word_of_int \<bar>x\<bar> :: u64) = \<bar>x\<bar>"
      using assms by (auto simp: unsigned_of_int in_i64_def intro!: take_bit_int_eq_self)
    then show ?thesis by (metis nat_uint_eq)
  qed
  moreover from this False have "word_of_int \<bar>x\<bar> \<noteq> (0 :: u64)" by auto
  ultimately have w: "le_to_nat w = nat \<bar>x\<bar>" "minimal w"
    using le_number_bytes [of "word_of_int \<bar>x\<bar>" False] by (auto simp: w_def)
  then have wne: "w \<noteq> []" and lw: "unat (last w) < 128" by (auto simp: minimal_def)
  have l7f: "last w AND 0x7f = last w" using lw by (simp add: word_unat_eq_iff unat_and_7f)
  show ?thesis
  proof (cases "x < 0")
    case True
    let ?v = "w[length w - 1 := last w OR 0x80]"
    have v: "?v = butlast w @ [last w OR 0x80]"
      using wne by (cases w rule: rev_cases) auto
    have "(last w OR 0x80) AND 0x7f = last w"
      using lw by (simp add: word_unat_eq_iff unat_and_7f unat_or_80)
    then have mv: "magnitude ?v = w" using wne unfolding v by (simp add: magnitude_def)
    have "num_value ?v = x"
      using w lw True mv unfolding v by (simp add: num_value_def unat_or_80)
    moreover have "serialize_i64 x = Some ?v"
      unfolding serialize_i64_def Let_def w_def [symmetric] using True wne by simp
    ultimately show ?thesis using that [of ?v] mv w by simp
  next
    case False
    with \<open>x \<noteq> 0\<close> have "0 < x" by simp
    then have "serialize_i64 x = Some w"
      unfolding serialize_i64_def Let_def w_def [symmetric] by simp
    moreover have "magnitude w = w" using wne l7f by (simp add: magnitude_def)
    moreover have "num_value w = x"
      using w lw \<open>0 < x\<close> wne calculation by (simp add: num_value_def)
    ultimately show ?thesis using that [of w] w by simp
  qed
qed

lemma le_to_nat_eq_0: "le_to_nat w = 0 \<longleftrightarrow> (\<forall>b \<in> set w. b = 0)"
  by (induction w) (auto simp: unat_eq_zero)

lemma minimal_pos: "minimal w \<Longrightarrow> 0 < le_to_nat w"
proof (rule ccontr)
  assume w: "minimal w" and "\<not> 0 < le_to_nat w"
  then have z: "\<forall>b \<in> set w. b = 0" by (simp add: le_to_nat_eq_0)
  then have "last w = 0" using w by (auto simp: minimal_def)
  with w have "butlast w \<noteq> []" "128 \<le> unat (last (butlast w))" by (auto simp: minimal_def)
  moreover from this have "last (butlast w) \<in> set w" by (meson in_set_butlastD last_in_set)
  ultimately show False using z by auto
qed

lemma mod_128: "128 \<le> n \<Longrightarrow> n < 256 \<Longrightarrow> n mod 128 = (n - 128 :: nat)"
  by (simp add: le_mod_geq)

lemma serialize_num_value:
  assumes "v = [] \<or> minimal (magnitude v)" and "le_to_nat (magnitude v) < 2 ^ 64"
  shows "serialize_i64 (num_value v) = Some v"
proof (cases "v = []")
  case True
  then show ?thesis by (simp add: serialize_i64_def num_value_def)
next
  case False
  let ?w = "magnitude v"
  have w: "minimal ?w" "0 < le_to_nat ?w" using assms(1) False minimal_pos by auto
  have "\<bar>num_value v\<bar> = int (le_to_nat ?w)" using False by (simp add: num_value_def)
  then have nb: "number_bytes (word_of_int \<bar>num_value v\<bar>) False = ?w"
    using number_bytes_le_to_nat w(1) assms(2) by simp
  have wne: "?w \<noteq> []" and bl: "butlast ?w = butlast v" and la: "last ?w = last v AND 0x7f"
    by (simp_all add: magnitude_def)
  have v: "butlast v @ [last v] = v" using False by simp
  show ?thesis
  proof (cases "128 \<le> unat (last v)")
    case True
    have "unat (last v) mod 128 + 128 = unat (last v)"
      using True by (simp add: mod_128)
    then have "(last v AND 0x7f) OR 0x80 = last v"
      by (simp add: word_unat_eq_iff unat_or_80 unat_and_7f)
    then have "?w[length ?w - 1 := last ?w OR 0x80] = v"
      using v list_update_length [of "butlast v" "last v AND 0x7f" "[]"] by (simp add: magnitude_def)
    moreover have "sgn (num_value v) = - 1" using True False w by (simp add: num_value_def)
    ultimately show ?thesis
      unfolding serialize_i64_def Let_def nb using wne by simp
  next
    case low: False
    then have "last v AND 0x7f = last v" by (simp add: word_unat_eq_iff unat_and_7f)
    then have "?w = v" using v by (simp add: magnitude_def)
    moreover have "sgn (num_value v) = 1" using low False w by (simp add: num_value_def)
    ultimately show ?thesis
      unfolding serialize_i64_def Let_def nb by simp
  qed
qed

lemma le_to_nat_append: "le_to_nat (xs @ ys) = le_to_nat xs + 256 ^ length xs * le_to_nat ys"
  by (induction xs) (auto simp: algebra_simps)

lemma minimal_length:
  assumes "minimal w" and "Suc n < length w"
  shows "128 * 256 ^ n \<le> le_to_nat w"
proof (cases w rule: rev_cases)
  case (snoc u m)
  show ?thesis
  proof (cases "m = 0")
    case False
    then have "1 \<le> unat m" by (simp add: Suc_le_eq unat_gt_0)
    have "(128 :: nat) * 256 ^ n \<le> 256 ^ Suc n" by simp
    also have "(256 :: nat) ^ Suc n \<le> 256 ^ length u * 1"
      unfolding mult_1_right using assms(2) snoc by (intro power_increasing) auto
    also have "256 ^ length u * 1 \<le> 256 ^ length u * unat m"
      using \<open>1 \<le> unat m\<close> by (intro mult_left_mono) auto
    finally show ?thesis using snoc by (simp add: le_to_nat_snoc)
  next
    case True
    with assms(1) snoc have "u \<noteq> []" "128 \<le> unat (last u)" by (auto simp: minimal_def)
    then obtain t b where u: "u = t @ [b]" "128 \<le> unat b" by (metis append_butlast_last_id)
    have "(128 :: nat) * 256 ^ n \<le> unat b * 256 ^ length t"
      using u assms(2) snoc by (intro mult_mono power_increasing) auto
    then show ?thesis using snoc u True by (simp add: le_to_nat_append mult.commute)
  qed
qed (use assms in simp)

lemma length_magnitude [simp]: "v \<noteq> [] \<Longrightarrow> length (magnitude v) = length v"
  by (simp add: magnitude_def)

lemma abs_num_value: "v \<noteq> [] \<Longrightarrow> \<bar>num_value v\<bar> = int (le_to_nat (magnitude v))"
  by (simp add: num_value_def)

lemma deserialize_sized_Ok_iff:
  assumes "LEN \<le> 8"
  shows "deserialize_sized LEN v = Ok x \<longleftrightarrow>
    length v \<le> LEN \<and> (v = [] \<or> minimal (magnitude v)) \<and> num_value v = x"
  using assms by (auto simp: deserialize_sized_def deserialize_i64_closed)

lemma serialize_sized_iff:
  assumes "in_i64 x" and "LEN \<le> 8"
  shows "serialize_sized LEN x = Ok v \<longleftrightarrow> deserialize_sized LEN v = Ok x"
proof
  obtain u where u: "serialize_i64 x = Some u" "num_value u = x" "u = [] \<or> minimal (magnitude u)"
    using assms(1) by (rule serialize_i64_ex)
  assume "serialize_sized LEN x = Ok v"
  with u assms(2) show "deserialize_sized LEN v = Ok x"
    by (auto simp: serialize_sized_def deserialize_sized_Ok_iff split: if_splits)
next
  assume "deserialize_sized LEN v = Ok x"
  then have v: "length v \<le> LEN" "v = [] \<or> minimal (magnitude v)" "num_value v = x"
    using assms(2) by (simp_all add: deserialize_sized_Ok_iff)
  have "le_to_nat (magnitude v) < 2 ^ 64"
    using magnitude_bound [of v 7] v(1) assms(2) by (cases "v = []") (auto simp: magnitude_def unat_and_7f)
  then have "serialize_i64 x = Some v" using serialize_num_value v by blast
  with v(1) show "serialize_sized LEN x = Ok v" by (simp add: serialize_sized_def)
qed

lemma serialize_sized_total:
  assumes "\<bar>x\<bar> < 128 * 256 ^ n" and "n \<le> 7"
  obtains v where "serialize_sized (Suc n) x = Ok v"
proof -
  have "(256 :: int) ^ n \<le> 256 ^ 7" using assms(2) by (intro power_increasing) auto
  then have "in_i64 x" using assms(1) by (auto simp: in_i64_def abs_less_iff)
  then obtain v where v: "serialize_i64 x = Some v" "num_value v = x" "v = [] \<or> minimal (magnitude v)"
    by (rule serialize_i64_ex)
  have "length v \<le> Suc n"
  proof (rule ccontr)
    assume len: "\<not> length v \<le> Suc n"
    then have "v \<noteq> []" by auto
    with len v(3) have "128 * 256 ^ n \<le> le_to_nat (magnitude v)"
      by (intro minimal_length) auto
    then have "int (128 * 256 ^ n) \<le> \<bar>num_value v\<bar>"
      unfolding abs_num_value [OF \<open>v \<noteq> []\<close>] of_nat_le_iff .
    with assms(1) v(2) show False by simp
  qed
  with v(1) show thesis by (intro that) (simp add: serialize_sized_def)
qed

lemma num_value_abs_lt:
  assumes "deserialize_sized (Suc n) v = Ok x" and "n \<le> 7"
  shows "\<bar>x\<bar> < 128 * 256 ^ n"
proof (cases "v = []")
  case True
  with assms show ?thesis by (simp add: deserialize_sized_Ok_iff num_value_def)
next
  case False
  from assms have v: "length v \<le> Suc n" "num_value v = x" by (simp_all add: deserialize_sized_Ok_iff)
  have "int (le_to_nat (magnitude v)) < int (128 * 256 ^ n)"
    using magnitude_bound [OF False v(1)] unfolding of_nat_less_iff .
  with abs_num_value [OF False] v(2) show ?thesis by simp
qed

text \<open>No path of the decoders panics.\<close>

lemma deserialize_num_no_panic [simp]: "deserialize_num v \<noteq> None"
  by (simp add: deserialize_num_def deserialize_sized_def deserialize_i64_closed)

lemma deserialize_i32_no_panic [simp]: "deserialize_i32 v \<noteq> None"
proof
  assume "deserialize_i32 v = None"
  then obtain x where x: "deserialize_sized (Suc 3) v = Ok x" "\<not> in_i32 x"
    by (auto simp: deserialize_i32_def try_bind_eq_None deserialize_sized_def
        deserialize_i64_closed split: if_splits)
  then show False using num_value_abs_lt [of 3 v x] by (auto simp: in_i32_def)
qed

lemma deserialize_bool_no_panic [simp]: "deserialize_bool v \<noteq> None"
  by (simp add: deserialize_bool_def)

lemma serialize_num_no_panic: "in_i64 x \<Longrightarrow> serialize_num x \<noteq> None"
  by (erule serialize_i64_ex) (simp add: serialize_num_def serialize_sized_def)

lemma deserialize_num_in_i64: "deserialize_num v = Ok x \<Longrightarrow> \<bar>x\<bar> < 2 ^ 63"
  using num_value_abs_lt [of 7 v x] by (simp add: deserialize_num_def numeral_eq_Suc)

section \<open>The codec property\<close>

text \<open>
  C14: Script numbers have exactly one encoding.  For every 64-bit integer \<open>x\<close> and byte string \<open>v\<close>,
  \<open>v\<close> is the serialization of \<open>x\<close> if and only if \<open>v\<close> decodes to \<open>x\<close>, so decoding inverts encoding and
  the minimality check rejects every other spelling; and a serialization exists for every value
  but \<^verbatim>\<open>i64::MIN\<close>, which needs nine bytes.
\<close>

theorem script_numbers_canonical:
  assumes "in_i64 x"
  shows "(serialize_num x = Ok v \<longleftrightarrow> deserialize_num v = Ok x)
    \<and> ((\<exists>u. serialize_num x = Ok u) \<longleftrightarrow> x \<noteq> - (2 ^ 63))"
proof
  have iff: "serialize_num x = Ok u \<longleftrightarrow> deserialize_num u = Ok x" for u
    using serialize_sized_iff [OF assms, of 8] by (simp add: serialize_num_def deserialize_num_def)
  then show "serialize_num x = Ok v \<longleftrightarrow> deserialize_num v = Ok x" .
  have "\<exists>u. serialize_num x = Ok u" if "x \<noteq> - (2 ^ 63)"
  proof -
    have "\<bar>x\<bar> < 128 * 256 ^ 7" using assms that by (auto simp: in_i64_def)
    then obtain u where "serialize_sized (Suc 7) x = Ok u" by (rule serialize_sized_total) simp
    then show ?thesis by (auto simp: serialize_num_def)
  qed
  moreover have "x \<noteq> - (2 ^ 63)" if "serialize_num x = Ok u" for u
    using that iff deserialize_num_in_i64 [of u x] by auto
  ultimately show "(\<exists>u. serialize_num x = Ok u) \<longleftrightarrow> x \<noteq> - (2 ^ 63)" by blast
qed

theorem script_numbers_canonical_witness:
  "serialize_num (- 255) = Ok [0xff, 0x80] \<and> deserialize_num [0xff, 0x80] = Ok (- 255)"
proof -
  have "deserialize_num [0xff, 0x80] = Ok (- 255)"
    by (simp add: deserialize_num_def deserialize_sized_def deserialize_i64_def
        check_minimal_data_encoding_def i64_checked_def in_i64_def i64_shl8_def)
  with script_numbers_canonical [of "- 255" "[0xff, 0x80]"] show ?thesis
    by (simp add: in_i64_def)
qed

end
