(* ===== verification/Script_Stack.thy ===== *)
theory Script_Stack
  imports Script_Num
begin

text \<open>
  The data stack of \<^verbatim>\<open>src/crypto/txscript/src/data_stack.rs\<close>, lines 226 to 333.  A stack is a
  \<^verbatim>\<open>Vec<Vec<u8>>\<close>: the top is the end of the list, as in the source.  An operation that pops
  returns the remaining stack with its value; on an error the stack is dropped, because every
  caller gives up the whole execution.
\<close>

type_synonym Stack = "u8 list list"

text \<open>\<open>iter().map(|v| v.deserialize()).collect::<Result<Vec<_>, _>>()\<close>: the first error wins.\<close>

fun collect_results :: "('a \<Rightarrow> ('e, 'b) outcome) \<Rightarrow> 'a list \<Rightarrow> ('e, 'b list) outcome" where
  "collect_results f [] = Ok []"
| "collect_results f (x # xs) =
     try_bind (f x) (\<lambda>y. try_bind (collect_results f xs) (\<lambda>ys. Ok (y # ys)))"

definition pop_items ::
    "(u8 list \<Rightarrow> 'b script_result) \<Rightarrow> nat \<Rightarrow> Stack \<Rightarrow> ('b list \<times> Stack) script_result" where
  "pop_items deserialize SIZE s =
     (if length s < SIZE then Err (InvalidStackOperation SIZE (length s))
      else try_bind (collect_results deserialize (drop (length s - SIZE) s))
        (\<lambda>items. Ok (items, take (length s - SIZE) s)))"

definition peek_items ::
    "(u8 list \<Rightarrow> 'b script_result) \<Rightarrow> nat \<Rightarrow> Stack \<Rightarrow> 'b list script_result" where
  "peek_items deserialize SIZE s =
     (if length s < SIZE then Err (InvalidStackOperation SIZE (length s))
      else collect_results deserialize (drop (length s - SIZE) s))"

definition pop_raw :: "nat \<Rightarrow> Stack \<Rightarrow> (u8 list list \<times> Stack) script_result" where
  "pop_raw SIZE s =
     (if length s < SIZE then Err (InvalidStackOperation SIZE (length s))
      else Ok (drop (length s - SIZE) s, take (length s - SIZE) s))"

definition peek_raw :: "nat \<Rightarrow> Stack \<Rightarrow> u8 list list script_result" where
  "peek_raw SIZE s =
     (if length s < SIZE then Err (InvalidStackOperation SIZE (length s))
      else Ok (drop (length s - SIZE) s))"

definition push_item :: "(SerializationError, u8 list) outcome \<Rightarrow> Stack \<Rightarrow> Stack script_result" where
  "push_item serialized s =
     (case serialized of
        None \<Rightarrow> None
      | Some (Inl e) \<Rightarrow> Err (Serialization e)
      | Some (Inr v) \<Rightarrow> Ok (s @ [v]))"

definition drop_items :: "nat \<Rightarrow> Stack \<Rightarrow> Stack script_result" where
  "drop_items SIZE s =
     (if length s \<ge> SIZE then Ok (take (length s - SIZE) s)
      else Err (InvalidStackOperation SIZE (length s)))"

definition dup_items :: "nat \<Rightarrow> Stack \<Rightarrow> Stack script_result" where
  "dup_items SIZE s =
     (if length s \<ge> SIZE then Ok (s @ drop (length s - SIZE) s)
      else Err (InvalidStackOperation SIZE (length s)))"

definition over_items :: "nat \<Rightarrow> Stack \<Rightarrow> Stack script_result" where
  "over_items SIZE s =
     (if length s \<ge> 2 * SIZE
      then Ok (s @ take SIZE (drop (length s - 2 * SIZE) s))
      else Err (InvalidStackOperation (2 * SIZE) (length s)))"

text \<open>\<open>drain(a..b)\<close> followed by \<open>extend\<close>: the drained range moves to the top.\<close>

definition drain_to_top :: "nat \<Rightarrow> nat \<Rightarrow> Stack \<Rightarrow> Stack" where
  "drain_to_top a b s = take a s @ drop b s @ take (b - a) (drop a s)"

definition rot_items :: "nat \<Rightarrow> Stack \<Rightarrow> Stack script_result" where
  "rot_items SIZE s =
     (if length s \<ge> 3 * SIZE
      then Ok (drain_to_top (length s - 3 * SIZE) (length s - 2 * SIZE) s)
      else Err (InvalidStackOperation (3 * SIZE) (length s)))"

definition swap_items :: "nat \<Rightarrow> Stack \<Rightarrow> Stack script_result" where
  "swap_items SIZE s =
     (if length s \<ge> 2 * SIZE
      then Ok (drain_to_top (length s - 2 * SIZE) (length s - SIZE) s)
      else Err (InvalidStackOperation (2 * SIZE) (length s)))"

section \<open>Facts\<close>

named_theorems no_panic \<open>operations of the script engine that cannot panic\<close>

lemma collect_results_no_panic:
  "(\<And>x. f x \<noteq> None) \<Longrightarrow> collect_results f xs \<noteq> None"
  by (induction xs) (auto simp: try_bind_eq_None)

lemma collect_results_length: "collect_results f xs = Ok ys \<Longrightarrow> length ys = length xs"
  by (induction xs arbitrary: ys) (auto simp: try_bind_eq_Ok)

lemma pop_items_no_panic: "(\<And>x. f x \<noteq> None) \<Longrightarrow> pop_items f n s \<noteq> None"
  using collect_results_no_panic [of f "drop (length s - n) s"]
  by (simp add: pop_items_def try_bind_eq_None del: not_None_eq)

lemma pop_num_no_panic [simp, no_panic]: "pop_items deserialize_num n s \<noteq> None"
  by (rule pop_items_no_panic) simp

lemma pop_i32_no_panic [simp, no_panic]: "pop_items deserialize_i32 n s \<noteq> None"
  by (rule pop_items_no_panic) simp

lemma pop_bool_no_panic [simp, no_panic]: "pop_items deserialize_bool n s \<noteq> None"
  by (rule pop_items_no_panic) simp

lemma pop_items_Ok_iff:
  "pop_items f n s = Ok (items, r) \<longleftrightarrow>
     n \<le> length s \<and> collect_results f (drop (length s - n) s) = Ok items \<and> r = take (length s - n) s"
  by (auto simp: pop_items_def try_bind_eq_Ok)

lemma pop_raw_Ok_iff:
  "pop_raw n s = Ok (items, r) \<longleftrightarrow>
     n \<le> length s \<and> items = drop (length s - n) s \<and> r = take (length s - n) s"
  by (auto simp: pop_raw_def)

lemma pop_items_snoc1:
  "pop_items f 1 (s @ [x]) = try_bind (f x) (\<lambda>y. Ok ([y], s))"
  by (auto simp: pop_items_def try_bind_def split: option.splits sum.splits)

lemma pop_raw_snoc1: "pop_raw 1 (s @ [x]) = Ok ([x], s)"
  by (simp add: pop_raw_def)

lemma pop_raw_snoc2: "pop_raw 2 (s @ [x, y]) = Ok ([x, y], s)"
  by (simp add: pop_raw_def)

lemma stack_op_lengths:
  "drop_items n s = Ok t \<Longrightarrow> length s = length t + n"
  "dup_items n s = Ok t \<Longrightarrow> length t = length s + n"
  "over_items n s = Ok t \<Longrightarrow> length t = length s + n"
  "rot_items n s = Ok t \<Longrightarrow> length t = length s"
  "swap_items n s = Ok t \<Longrightarrow> length t = length s"
  by (auto simp: drop_items_def dup_items_def over_items_def rot_items_def swap_items_def
      drain_to_top_def split: if_splits)

end
