(* ===== verification/Sighash.thy ===== *)
theory Sighash
  imports Tx_Model
begin

unbundle bit_operations_syntax

text \<open>
  Signature hashes: \<^verbatim>\<open>src/consensus/core/src/hashing/sighash.rs\<close>, \<^verbatim>\<open>sighash_type.rs\<close> and the
  writers of \<^verbatim>\<open>hashing/mod.rs\<close>.  A hasher that receives writes and is then finalized is the byte
  string of the writes and one application of a hash function; the keyed BLAKE2b and SHA-256
  functions come from external crates and are the parameters \<open>H\<close> and \<open>H\<^sub>E\<close>.

  The values reused between the inputs of a transaction are a record of optional hashes that each
  computation may read and fill; the lemmas show that filling them never changes a hash.
\<close>

section \<open>Hash types\<close>

type_synonym SigHashType = u8

definition SIG_HASH_ALL :: SigHashType where
  "SIG_HASH_ALL = 0b00000001"
definition SIG_HASH_NONE :: SigHashType where
  "SIG_HASH_NONE = 0b00000010"
definition SIG_HASH_SINGLE :: SigHashType where
  "SIG_HASH_SINGLE = 0b00000100"
definition SIG_HASH_ANY_ONE_CAN_PAY :: SigHashType where
  "SIG_HASH_ANY_ONE_CAN_PAY = 0b10000000"
definition SIG_HASH_MASK :: u8 where
  "SIG_HASH_MASK = 0b00000111"

definition ALLOWED_SIG_HASH_TYPES_VALUES :: "u8 list" where
  "ALLOWED_SIG_HASH_TYPES_VALUES =
     [SIG_HASH_ALL, SIG_HASH_NONE, SIG_HASH_SINGLE,
      SIG_HASH_ALL OR SIG_HASH_ANY_ONE_CAN_PAY,
      SIG_HASH_NONE OR SIG_HASH_ANY_ONE_CAN_PAY,
      SIG_HASH_SINGLE OR SIG_HASH_ANY_ONE_CAN_PAY]"

lemmas sighash_types = SIG_HASH_ALL_def SIG_HASH_NONE_def SIG_HASH_SINGLE_def
  SIG_HASH_ANY_ONE_CAN_PAY_def SIG_HASH_MASK_def

definition is_sighash_all :: "SigHashType \<Rightarrow> bool" where
  "is_sighash_all t = (t AND SIG_HASH_MASK = SIG_HASH_ALL)"
definition is_sighash_none :: "SigHashType \<Rightarrow> bool" where
  "is_sighash_none t = (t AND SIG_HASH_MASK = SIG_HASH_NONE)"
definition is_sighash_single :: "SigHashType \<Rightarrow> bool" where
  "is_sighash_single t = (t AND SIG_HASH_MASK = SIG_HASH_SINGLE)"
definition is_sighash_anyone_can_pay :: "SigHashType \<Rightarrow> bool" where
  "is_sighash_anyone_can_pay t = (t AND SIG_HASH_ANY_ONE_CAN_PAY = SIG_HASH_ANY_ONE_CAN_PAY)"

definition SigHashType_from_u8 :: "u8 \<Rightarrow> SigHashType option" where
  "SigHashType_from_u8 val = (if val \<in> set ALLOWED_SIG_HASH_TYPES_VALUES then Some val else None)"

section \<open>Writers\<close>

definition write_len :: "nat \<Rightarrow> u8 list" where
  "write_len len = to_le 8 (word_of_nat len :: u64)"
definition write_u8 :: "u8 \<Rightarrow> u8 list" where
  "write_u8 x = to_le 1 x"
definition write_u16 :: "u16 \<Rightarrow> u8 list" where
  "write_u16 x = to_le 2 x"
definition write_u32 :: "u32 \<Rightarrow> u8 list" where
  "write_u32 x = to_le 4 x"
definition write_u64 :: "u64 \<Rightarrow> u8 list" where
  "write_u64 x = to_le 8 x"
definition write_var_bytes :: "u8 list \<Rightarrow> u8 list" where
  "write_var_bytes bytes = write_len (length bytes) @ bytes"

definition hash_outpoint :: "TransactionOutpoint \<Rightarrow> u8 list" where
  "hash_outpoint p = hash_bytes (transaction_id p) @ write_u32 (outpoint_index p)"

definition hash_script_public_key :: "ScriptPublicKey \<Rightarrow> u8 list" where
  "hash_script_public_key spk = write_u16 (spk_version spk) @ write_var_bytes (spk_script spk)"

definition hash_output :: "TransactionOutput \<Rightarrow> u8 list" where
  "hash_output out = write_u64 (out_value out) @ hash_script_public_key (out_spk out)"

section \<open>Reused values\<close>

definition ZERO_HASH :: hash where
  "ZERO_HASH = 0"

record SigHashReusedValues =
  rv_previous_outputs :: "hash option"
  rv_sequences :: "hash option"
  rv_sig_op_counts :: "hash option"
  rv_outputs :: "hash option"
  rv_payload :: "hash option"

definition SigHashReusedValues_new :: SigHashReusedValues where
  "SigHashReusedValues_new = \<lparr>rv_previous_outputs = None, rv_sequences = None,
     rv_sig_op_counts = None, rv_outputs = None, rv_payload = None\<rparr>"

definition reuse_previous_outputs_hash ::
    "SigHashReusedValues \<Rightarrow> hash \<Rightarrow> hash \<times> SigHashReusedValues" where
  "reuse_previous_outputs_hash rv h = (case rv_previous_outputs rv of
     Some x \<Rightarrow> (x, rv) | None \<Rightarrow> (h, rv\<lparr>rv_previous_outputs := Some h\<rparr>))"

definition reuse_sequences_hash ::
    "SigHashReusedValues \<Rightarrow> hash \<Rightarrow> hash \<times> SigHashReusedValues" where
  "reuse_sequences_hash rv h = (case rv_sequences rv of
     Some x \<Rightarrow> (x, rv) | None \<Rightarrow> (h, rv\<lparr>rv_sequences := Some h\<rparr>))"

definition reuse_sig_op_counts_hash ::
    "SigHashReusedValues \<Rightarrow> hash \<Rightarrow> hash \<times> SigHashReusedValues" where
  "reuse_sig_op_counts_hash rv h = (case rv_sig_op_counts rv of
     Some x \<Rightarrow> (x, rv) | None \<Rightarrow> (h, rv\<lparr>rv_sig_op_counts := Some h\<rparr>))"

definition reuse_outputs_hash ::
    "SigHashReusedValues \<Rightarrow> hash \<Rightarrow> hash \<times> SigHashReusedValues" where
  "reuse_outputs_hash rv h = (case rv_outputs rv of
     Some x \<Rightarrow> (x, rv) | None \<Rightarrow> (h, rv\<lparr>rv_outputs := Some h\<rparr>))"

definition reuse_payload_hash ::
    "SigHashReusedValues \<Rightarrow> hash \<Rightarrow> hash \<times> SigHashReusedValues" where
  "reuse_payload_hash rv h = (case rv_payload rv of
     Some x \<Rightarrow> (x, rv) | None \<Rightarrow> (h, rv\<lparr>rv_payload := Some h\<rparr>))"

lemmas reuse_defs = reuse_previous_outputs_hash_def reuse_sequences_hash_def
  reuse_sig_op_counts_hash_def reuse_outputs_hash_def reuse_payload_hash_def

section \<open>The signature hash\<close>

definition previous_outputs_hash ::
    "(u8 list \<Rightarrow> hash) \<Rightarrow> Transaction \<Rightarrow> SigHashType \<Rightarrow> SigHashReusedValues
      \<Rightarrow> hash \<times> SigHashReusedValues" where
  "previous_outputs_hash H tx t rv =
     (if is_sighash_anyone_can_pay t then (ZERO_HASH, rv)
      else reuse_previous_outputs_hash rv
        (H (concat (map (\<lambda>i. hash_bytes (transaction_id (previous_outpoint i))
              @ write_u32 (outpoint_index (previous_outpoint i))) (tx_inputs tx)))))"

definition sequences_hash ::
    "(u8 list \<Rightarrow> hash) \<Rightarrow> Transaction \<Rightarrow> SigHashType \<Rightarrow> SigHashReusedValues
      \<Rightarrow> hash \<times> SigHashReusedValues" where
  "sequences_hash H tx t rv =
     (if is_sighash_single t \<or> is_sighash_anyone_can_pay t \<or> is_sighash_none t then (ZERO_HASH, rv)
      else reuse_sequences_hash rv
        (H (concat (map (\<lambda>i. write_u64 (input_sequence i)) (tx_inputs tx)))))"

definition sig_op_counts_hash ::
    "(u8 list \<Rightarrow> hash) \<Rightarrow> Transaction \<Rightarrow> SigHashType \<Rightarrow> SigHashReusedValues
      \<Rightarrow> hash \<times> SigHashReusedValues" where
  "sig_op_counts_hash H tx t rv =
     (if is_sighash_anyone_can_pay t then (ZERO_HASH, rv)
      else reuse_sig_op_counts_hash rv
        (H (concat (map (\<lambda>i. write_u8 (sig_op_count i)) (tx_inputs tx)))))"

definition payload_hash ::
    "(u8 list \<Rightarrow> hash) \<Rightarrow> Transaction \<Rightarrow> SigHashReusedValues \<Rightarrow> hash \<times> SigHashReusedValues" where
  "payload_hash H tx rv =
     (if is_native (subnetwork_id tx) \<and> tx_payload tx = [] then (ZERO_HASH, rv)
      else reuse_payload_hash rv (H (write_var_bytes (tx_payload tx))))"

definition outputs_hash ::
    "(u8 list \<Rightarrow> hash) \<Rightarrow> Transaction \<Rightarrow> SigHashType \<Rightarrow> SigHashReusedValues \<Rightarrow> nat
      \<Rightarrow> hash \<times> SigHashReusedValues" where
  "outputs_hash H tx t rv input_index =
     (if is_sighash_none t then (ZERO_HASH, rv)
      else if is_sighash_single t
      then (if input_index \<ge> length (tx_outputs tx) then (ZERO_HASH, rv)
            else (H (hash_output (tx_outputs tx ! input_index)), rv))
      else reuse_outputs_hash rv (H (concat (map hash_output (tx_outputs tx)))))"

text \<open>\<open>VerifiableTransaction::populated_input\<close>: two array reads, which panic out of range.\<close>

definition populated_input ::
    "PopulatedTransaction \<Rightarrow> nat \<Rightarrow> (TransactionInput \<times> UtxoEntry) option" where
  "populated_input p index =
     (if index < length (tx_inputs (ptx p)) \<and> index < length (entries p)
      then Some (tx_inputs (ptx p) ! index, entries p ! index) else None)"

definition calc_schnorr_signature_hash ::
    "(u8 list \<Rightarrow> hash) \<Rightarrow> PopulatedTransaction \<Rightarrow> nat \<Rightarrow> SigHashType \<Rightarrow> SigHashReusedValues
      \<Rightarrow> (hash \<times> SigHashReusedValues) option" where
  "calc_schnorr_signature_hash H verifiable_tx input_index t rv0 =
     do {
       (input, entry) \<leftarrow> populated_input verifiable_tx input_index;
       let tx = ptx verifiable_tx;
       let (prevs, rv1) = previous_outputs_hash H tx t rv0;
       let (seqs, rv2) = sequences_hash H tx t rv1;
       let (counts, rv3) = sig_op_counts_hash H tx t rv2;
       let (outs, rv4) = outputs_hash H tx t rv3 input_index;
       let (payload, rv5) = payload_hash H tx rv4;
       Some (H (write_u16 (tx_version tx) @ hash_bytes prevs @ hash_bytes seqs @ hash_bytes counts
          @ hash_outpoint (previous_outpoint input)
          @ hash_script_public_key (entry_spk entry)
          @ write_u64 (amount entry) @ write_u64 (input_sequence input)
          @ write_u8 (sig_op_count input)
          @ hash_bytes outs @ write_u64 (lock_time tx) @ subnetwork_id tx
          @ write_u64 (tx_gas tx) @ hash_bytes payload @ write_u8 t), rv5)
     }"

definition calc_ecdsa_signature_hash ::
    "(u8 list \<Rightarrow> hash) \<Rightarrow> (u8 list \<Rightarrow> hash) \<Rightarrow> PopulatedTransaction \<Rightarrow> nat \<Rightarrow> SigHashType
      \<Rightarrow> SigHashReusedValues \<Rightarrow> (hash \<times> SigHashReusedValues) option" where
  "calc_ecdsa_signature_hash H H\<^sub>E tx input_index t rv =
     do {
       (h, rv') \<leftarrow> calc_schnorr_signature_hash H tx input_index t rv;
       Some (H\<^sub>E (hash_bytes h), rv')
     }"

section \<open>The reused values never change a hash\<close>

definition outpoints_message :: "Transaction \<Rightarrow> u8 list" where
  "outpoints_message tx = concat (map (\<lambda>i. hash_outpoint (previous_outpoint i)) (tx_inputs tx))"
definition sequences_message :: "Transaction \<Rightarrow> u8 list" where
  "sequences_message tx = concat (map (\<lambda>i. write_u64 (input_sequence i)) (tx_inputs tx))"
definition sig_op_counts_message :: "Transaction \<Rightarrow> u8 list" where
  "sig_op_counts_message tx = concat (map (\<lambda>i. write_u8 (sig_op_count i)) (tx_inputs tx))"
definition outputs_message :: "Transaction \<Rightarrow> u8 list" where
  "outputs_message tx = concat (map hash_output (tx_outputs tx))"
definition payload_message :: "Transaction \<Rightarrow> u8 list" where
  "payload_message tx = write_var_bytes (tx_payload tx)"

text \<open>The stored values, if any, are those of the transaction at hand.\<close>

definition reused_ok :: "(u8 list \<Rightarrow> hash) \<Rightarrow> Transaction \<Rightarrow> SigHashReusedValues \<Rightarrow> bool" where
  "reused_ok H tx rv =
     (rv_previous_outputs rv \<in> {None, Some (H (outpoints_message tx))}
      \<and> rv_sequences rv \<in> {None, Some (H (sequences_message tx))}
      \<and> rv_sig_op_counts rv \<in> {None, Some (H (sig_op_counts_message tx))}
      \<and> rv_outputs rv \<in> {None, Some (H (outputs_message tx))}
      \<and> rv_payload rv \<in> {None, Some (H (payload_message tx))})"

lemma reused_ok_new [simp]: "reused_ok H tx SigHashReusedValues_new"
  by (simp add: reused_ok_def SigHashReusedValues_new_def)

text \<open>The reference: the five part hashes and the message, computed from scratch.\<close>

definition ref_previous_outputs :: "(u8 list \<Rightarrow> hash) \<Rightarrow> Transaction \<Rightarrow> SigHashType \<Rightarrow> hash" where
  "ref_previous_outputs H tx t =
     (if is_sighash_anyone_can_pay t then ZERO_HASH else H (outpoints_message tx))"
definition ref_sequences :: "(u8 list \<Rightarrow> hash) \<Rightarrow> Transaction \<Rightarrow> SigHashType \<Rightarrow> hash" where
  "ref_sequences H tx t =
     (if is_sighash_single t \<or> is_sighash_anyone_can_pay t \<or> is_sighash_none t
      then ZERO_HASH else H (sequences_message tx))"
definition ref_sig_op_counts :: "(u8 list \<Rightarrow> hash) \<Rightarrow> Transaction \<Rightarrow> SigHashType \<Rightarrow> hash" where
  "ref_sig_op_counts H tx t =
     (if is_sighash_anyone_can_pay t then ZERO_HASH else H (sig_op_counts_message tx))"
definition ref_outputs :: "(u8 list \<Rightarrow> hash) \<Rightarrow> Transaction \<Rightarrow> SigHashType \<Rightarrow> nat \<Rightarrow> hash" where
  "ref_outputs H tx t i =
     (if is_sighash_none t then ZERO_HASH
      else if is_sighash_single t
      then (if i < length (tx_outputs tx) then H (hash_output (tx_outputs tx ! i)) else ZERO_HASH)
      else H (outputs_message tx))"
definition ref_payload :: "(u8 list \<Rightarrow> hash) \<Rightarrow> Transaction \<Rightarrow> hash" where
  "ref_payload H tx =
     (if is_native (subnetwork_id tx) \<and> tx_payload tx = [] then ZERO_HASH else H (payload_message tx))"

definition sighash_message ::
    "(u8 list \<Rightarrow> hash) \<Rightarrow> Transaction \<Rightarrow> nat \<Rightarrow> TransactionInput \<Rightarrow> UtxoEntry \<Rightarrow> SigHashType
      \<Rightarrow> u8 list" where
  "sighash_message H tx i input entry t =
     write_u16 (tx_version tx) @ hash_bytes (ref_previous_outputs H tx t)
     @ hash_bytes (ref_sequences H tx t) @ hash_bytes (ref_sig_op_counts H tx t)
     @ hash_outpoint (previous_outpoint input) @ hash_script_public_key (entry_spk entry)
     @ write_u64 (amount entry) @ write_u64 (input_sequence input) @ write_u8 (sig_op_count input)
     @ hash_bytes (ref_outputs H tx t i) @ write_u64 (lock_time tx) @ subnetwork_id tx
     @ write_u64 (tx_gas tx) @ hash_bytes (ref_payload H tx) @ write_u8 t"

lemma part_hashes:
  assumes "reused_ok H tx rv"
  shows "\<exists>rv'. previous_outputs_hash H tx t rv = (ref_previous_outputs H tx t, rv') \<and> reused_ok H tx rv'"
    and "\<exists>rv'. sequences_hash H tx t rv = (ref_sequences H tx t, rv') \<and> reused_ok H tx rv'"
    and "\<exists>rv'. sig_op_counts_hash H tx t rv = (ref_sig_op_counts H tx t, rv') \<and> reused_ok H tx rv'"
    and "\<exists>rv'. outputs_hash H tx t rv i = (ref_outputs H tx t i, rv') \<and> reused_ok H tx rv'"
    and "\<exists>rv'. payload_hash H tx rv = (ref_payload H tx, rv') \<and> reused_ok H tx rv'"
proof -
  note defs = reused_ok_def reuse_defs outpoints_message_def sequences_message_def hash_outpoint_def
    sig_op_counts_message_def outputs_message_def payload_message_def
  show "\<exists>rv'. previous_outputs_hash H tx t rv = (ref_previous_outputs H tx t, rv') \<and> reused_ok H tx rv'"
    using assms by (auto simp: defs previous_outputs_hash_def ref_previous_outputs_def)
  show "\<exists>rv'. sequences_hash H tx t rv = (ref_sequences H tx t, rv') \<and> reused_ok H tx rv'"
    using assms by (auto simp: defs sequences_hash_def ref_sequences_def)
  show "\<exists>rv'. sig_op_counts_hash H tx t rv = (ref_sig_op_counts H tx t, rv') \<and> reused_ok H tx rv'"
    using assms by (auto simp: defs sig_op_counts_hash_def ref_sig_op_counts_def)
  show "\<exists>rv'. outputs_hash H tx t rv i = (ref_outputs H tx t i, rv') \<and> reused_ok H tx rv'"
    using assms by (auto simp: defs outputs_hash_def ref_outputs_def)
  show "\<exists>rv'. payload_hash H tx rv = (ref_payload H tx, rv') \<and> reused_ok H tx rv'"
    using assms by (auto simp: defs payload_hash_def ref_payload_def)
qed

lemma calc_schnorr_signature_hash_ref:
  assumes "reused_ok H (ptx p) rv" and "populated_input p i = Some (input, entry)"
  obtains rv' where
    "calc_schnorr_signature_hash H p i t rv
       = Some (H (sighash_message H (ptx p) i input entry t), rv')"
    "reused_ok H (ptx p) rv'"
proof -
  obtain r1 where r1: "previous_outputs_hash H (ptx p) t rv = (ref_previous_outputs H (ptx p) t, r1)"
    "reused_ok H (ptx p) r1" using part_hashes(1) [OF assms(1)] by blast
  obtain r2 where r2: "sequences_hash H (ptx p) t r1 = (ref_sequences H (ptx p) t, r2)"
    "reused_ok H (ptx p) r2" using part_hashes(2) [OF r1(2)] by blast
  obtain r3 where r3: "sig_op_counts_hash H (ptx p) t r2 = (ref_sig_op_counts H (ptx p) t, r3)"
    "reused_ok H (ptx p) r3" using part_hashes(3) [OF r2(2)] by blast
  obtain r4 where r4: "outputs_hash H (ptx p) t r3 i = (ref_outputs H (ptx p) t i, r4)"
    "reused_ok H (ptx p) r4" using part_hashes(4) [OF r3(2)] by blast
  obtain r5 where r5: "payload_hash H (ptx p) r4 = (ref_payload H (ptx p), r5)"
    "reused_ok H (ptx p) r5" using part_hashes(5) [OF r4(2)] by blast
  show thesis
    by (rule that [OF _ r5(2)])
      (simp add: calc_schnorr_signature_hash_def assms(2) r1 r2 r3 r4 r5 sighash_message_def Let_def)
qed

section \<open>What a signature commits to\<close>

lemma to_le_inject: "LENGTH('a::len) \<le> 8 * k \<Longrightarrow> to_le k (x :: 'a word) = to_le k y \<longleftrightarrow> x = y"
  by (metis from_le_to_le)

lemma hash_bytes_inject [simp]: "hash_bytes a = hash_bytes b \<longleftrightarrow> a = b"
  by (metis hash_of_bytes_hash_bytes)

lemma write_inject [simp]:
  "write_u8 a = write_u8 b \<longleftrightarrow> a = b"
  "write_u16 c = write_u16 d \<longleftrightarrow> c = d"
  "write_u32 e = write_u32 f \<longleftrightarrow> e = f"
  "write_u64 g = write_u64 h \<longleftrightarrow> g = h"
  by (simp_all add: write_u8_def write_u16_def write_u32_def write_u64_def to_le_inject)

lemma length_write [simp]:
  "length (write_u8 a) = 1" "length (write_u16 b) = 2" "length (write_u32 c) = 4"
  "length (write_u64 d) = 8" "length (write_len n) = 8" "length (hash_outpoint q) = 36"
  by (simp_all add: write_u8_def write_u16_def write_u32_def write_u64_def write_len_def
      hash_outpoint_def)

lemma write_nonempty [simp]:
  "write_u8 a \<noteq> []" "write_u16 b \<noteq> []" "write_u32 c \<noteq> []" "write_u64 d \<noteq> []"
  "hash_outpoint q \<noteq> []"
  by (metis length_write list.size(3) zero_neq_numeral zero_neq_one)+

lemma hash_outpoint_inject [simp]: "hash_outpoint a = hash_outpoint b \<longleftrightarrow> a = b"
  by (auto simp: hash_outpoint_def)

text \<open>Lengths are 64-bit on every supported platform.\<close>

definition short :: "u8 list \<Rightarrow> bool" where
  "short bytes = (length bytes < 2 ^ 64)"

lemma write_len_inject: "m < 2 ^ 64 \<Longrightarrow> n < 2 ^ 64 \<Longrightarrow> write_len m = write_len n \<longleftrightarrow> m = n"
  by (auto simp: write_len_def to_le_inject word_unat_eq_iff unat_of_nat)

lemma write_var_bytes_prefix:
  "short a \<Longrightarrow> short b \<Longrightarrow> write_var_bytes a @ r = write_var_bytes b @ s \<longleftrightarrow> a = b \<and> r = s"
  by (auto simp: write_var_bytes_def short_def write_len_inject)

lemma hash_spk_prefix:
  "short (spk_script a) \<Longrightarrow> short (spk_script b) \<Longrightarrow>
   hash_script_public_key a @ r = hash_script_public_key b @ s \<longleftrightarrow> a = b \<and> r = s"
  by (auto simp: hash_script_public_key_def write_var_bytes_prefix)

lemma hash_spk_inject:
  "short (spk_script a) \<Longrightarrow> short (spk_script b) \<Longrightarrow>
   hash_script_public_key a = hash_script_public_key b \<longleftrightarrow> a = b"
  using hash_spk_prefix [of a b "[]" "[]"] by simp

lemma hash_output_prefix:
  "short (spk_script (out_spk a)) \<Longrightarrow> short (spk_script (out_spk b)) \<Longrightarrow>
   hash_output a @ r = hash_output b @ s \<longleftrightarrow> a = b \<and> r = s"
  by (auto simp: hash_output_def hash_spk_prefix)

lemma concat_map_prefix_inject:
  assumes "\<And>x y r s. x \<in> A \<Longrightarrow> y \<in> A \<Longrightarrow> f x @ r = f y @ s \<Longrightarrow> x = y \<and> r = s"
    and "\<And>x. x \<in> A \<Longrightarrow> f x \<noteq> []"
    and "set xs \<subseteq> A" "set ys \<subseteq> A" and "concat (map f xs) = concat (map f ys)"
  shows "xs = ys"
  using assms(3-5)
proof (induction xs arbitrary: ys)
  case Nil
  then show ?case using assms(2) by (cases ys) auto
next
  case (Cons x xs)
  show ?case
  proof (cases ys)
    case Nil
    with Cons.prems(1,3) assms(2) [of x] show ?thesis by simp
  next
    case ys: (Cons y ys')
    have "f x @ concat (map f xs) = f y @ concat (map f ys')" using Cons.prems(3) ys by simp
    moreover have "x \<in> A" "y \<in> A" "set xs \<subseteq> A" "set ys' \<subseteq> A" using Cons.prems ys by simp_all
    ultimately have "x = y \<and> xs = ys'" using assms(1) Cons.IH by blast
    then show ?thesis using ys by simp
  qed
qed

lemma outpoints_message_inject:
  "outpoints_message a = outpoints_message b \<Longrightarrow>
   map previous_outpoint (tx_inputs a) = map previous_outpoint (tx_inputs b)"
  by (rule concat_map_prefix_inject [where A = UNIV and f = hash_outpoint])
    (auto simp: outpoints_message_def comp_def)

lemma sequences_message_inject:
  "sequences_message a = sequences_message b \<Longrightarrow>
   map input_sequence (tx_inputs a) = map input_sequence (tx_inputs b)"
  by (rule concat_map_prefix_inject [where A = UNIV and f = write_u64])
    (auto simp: sequences_message_def comp_def)

lemma sig_op_counts_message_inject:
  "sig_op_counts_message a = sig_op_counts_message b \<Longrightarrow>
   map sig_op_count (tx_inputs a) = map sig_op_count (tx_inputs b)"
  by (rule concat_map_prefix_inject [where A = UNIV and f = write_u8])
    (auto simp: sig_op_counts_message_def comp_def)

lemma hash_output_nonempty [simp]: "hash_output out \<noteq> []"
  by (simp add: hash_output_def)

lemma outputs_message_inject:
  assumes "\<forall>out \<in> set (tx_outputs a). short (spk_script (out_spk out))"
    and "\<forall>out \<in> set (tx_outputs b). short (spk_script (out_spk out))"
    and "outputs_message a = outputs_message b"
  shows "tx_outputs a = tx_outputs b"
proof (rule concat_map_prefix_inject [where f = hash_output
      and A = "{out. short (spk_script (out_spk out))}"])
  show "concat (map hash_output (tx_outputs a)) = concat (map hash_output (tx_outputs b))"
    using assms(3) by (simp add: outputs_message_def)
qed (use assms(1,2) in \<open>auto simp: hash_output_prefix\<close>)

text \<open>The output that \<open>SINGLE\<close> signs with an input: the one with the index of the input, if there is one.\<close>

definition paired_output :: "Transaction \<Rightarrow> nat \<Rightarrow> TransactionOutput option" where
  "paired_output tx i = (if i < length (tx_outputs tx) then Some (tx_outputs tx ! i) else None)"

text \<open>The messages that the computation of one signature hash feeds to the hash function.\<close>

definition hashed :: "(u8 list \<Rightarrow> hash) \<Rightarrow> PopulatedTransaction \<Rightarrow> nat \<Rightarrow> SigHashType \<Rightarrow> u8 list set" where
  "hashed H p i t =
     {outpoints_message (ptx p), sequences_message (ptx p), sig_op_counts_message (ptx p),
      outputs_message (ptx p), payload_message (ptx p)}
     \<union> (if is_sighash_single t \<and> i < length (tx_outputs (ptx p)) then {hash_output (tx_outputs (ptx p) ! i)} else {})
     \<union> (case populated_input p i of None \<Rightarrow> {}
        | Some (input, entry) \<Rightarrow> {sighash_message H (ptx p) i input entry t})"

definition wire_sizes :: "PopulatedTransaction \<Rightarrow> bool" where
  "wire_sizes p =
     (short (tx_payload (ptx p)) \<and> length (subnetwork_id (ptx p)) = SUBNETWORK_ID_SIZE
      \<and> (\<forall>out \<in> set (tx_outputs (ptx p)). short (spk_script (out_spk out)))
      \<and> (\<forall>e \<in> set (entries p). short (spk_script (entry_spk e))))"

lemma sighash_message_inject:
  assumes "sighash_message H a i x e t = sighash_message H b j y f u"
    and "short (spk_script (entry_spk e))" "short (spk_script (entry_spk f))"
    and "length (subnetwork_id a) = length (subnetwork_id b)"
  shows "t = u \<and> previous_outpoint x = previous_outpoint y \<and> input_sequence x = input_sequence y
    \<and> sig_op_count x = sig_op_count y \<and> amount e = amount f \<and> entry_spk e = entry_spk f
    \<and> tx_version a = tx_version b \<and> lock_time a = lock_time b
    \<and> subnetwork_id a = subnetwork_id b \<and> tx_gas a = tx_gas b
    \<and> ref_previous_outputs H a t = ref_previous_outputs H b u
    \<and> ref_sequences H a t = ref_sequences H b u
    \<and> ref_sig_op_counts H a t = ref_sig_op_counts H b u
    \<and> ref_outputs H a t i = ref_outputs H b u j
    \<and> ref_payload H a = ref_payload H b"
  using assms unfolding sighash_message_def by (auto simp: hash_spk_prefix hash_spk_inject)

lemma inj_on_union_eq:
  "inj_on H (A \<union> B) \<Longrightarrow> x \<in> A \<Longrightarrow> y \<in> B \<Longrightarrow> H x = H y \<Longrightarrow> x = y"
  by (simp add: inj_on_eq_iff)

lemma ref_payload_inject:
  assumes "ref_payload H a = ref_payload H b" and "subnetwork_id a = subnetwork_id b"
    and "H (payload_message a) = H (payload_message b) \<Longrightarrow> payload_message a = payload_message b"
    and "H (payload_message a) \<noteq> ZERO_HASH" "H (payload_message b) \<noteq> ZERO_HASH"
    and "short (tx_payload a)" "short (tx_payload b)"
  shows "tx_payload a = tx_payload b"
proof (cases "is_native (subnetwork_id b) \<and> (tx_payload a = [] \<or> tx_payload b = [])")
  case True
  with assms(1,2,4,5) show ?thesis by (auto simp: ref_payload_def split: if_splits)
next
  case False
  with assms(1,2) have "H (payload_message a) = H (payload_message b)"
    by (auto simp: ref_payload_def)
  with assms(3) have "write_var_bytes (tx_payload a) @ [] = write_var_bytes (tx_payload b) @ []"
    by (simp add: payload_message_def)
  then show ?thesis using assms(6,7) by (simp only: write_var_bytes_prefix)
qed

lemma ref_single_inject:
  assumes "ref_outputs H a t i = ref_outputs H b t j" and "is_sighash_single t" "\<not> is_sighash_none t"
    and "i < length (tx_outputs a) \<Longrightarrow> H (hash_output (tx_outputs a ! i)) \<noteq> ZERO_HASH"
    and "j < length (tx_outputs b) \<Longrightarrow> H (hash_output (tx_outputs b ! j)) \<noteq> ZERO_HASH"
    and "i < length (tx_outputs a) \<Longrightarrow> j < length (tx_outputs b) \<Longrightarrow>
      H (hash_output (tx_outputs a ! i)) = H (hash_output (tx_outputs b ! j)) \<Longrightarrow>
      hash_output (tx_outputs a ! i) = hash_output (tx_outputs b ! j)"
    and "\<forall>out \<in> set (tx_outputs a). short (spk_script (out_spk out))"
    and "\<forall>out \<in> set (tx_outputs b). short (spk_script (out_spk out))"
  shows "paired_output a i = paired_output b j"
proof (cases "i < length (tx_outputs a) \<and> j < length (tx_outputs b)")
  case True
  then have "hash_output (tx_outputs a ! i) @ [] = hash_output (tx_outputs b ! j) @ []"
    using assms(1-3,6) by (simp add: ref_outputs_def)
  moreover have "short (spk_script (out_spk (tx_outputs a ! i)))" "short (spk_script (out_spk (tx_outputs b ! j)))"
    using True assms(7,8) by simp_all
  ultimately show ?thesis using True by (simp only: hash_output_prefix paired_output_def if_True)
next
  case False
  then show ?thesis using assms(1-5) by (auto simp: ref_outputs_def paired_output_def split: if_splits)
qed

lemma single_not_none: "is_sighash_single t \<Longrightarrow> \<not> is_sighash_none t"
  by (simp add: is_sighash_single_def is_sighash_none_def sighash_types)

lemma same_message:
  assumes "calc_schnorr_signature_hash H p i t rv = Some (h, rv')" "reused_ok H (ptx p) rv"
    and "calc_schnorr_signature_hash H q j u sv = Some (h, sv')" "reused_ok H (ptx q) sv"
    and "populated_input p i = Some (x, e)" "populated_input q j = Some (y, f)"
    and "inj_on H (hashed H p i t \<union> hashed H q j u)"
  shows "sighash_message H (ptx p) i x e t = sighash_message H (ptx q) j y f u"
proof -
  have "H (sighash_message H (ptx p) i x e t) = h"
    using calc_schnorr_signature_hash_ref [OF assms(2,5), of t] assms(1) by auto
  moreover have "H (sighash_message H (ptx q) j y f u) = h"
    using calc_schnorr_signature_hash_ref [OF assms(4,6), of u] assms(3) by auto
  moreover have "sighash_message H (ptx p) i x e t \<in> hashed H p i t"
    "sighash_message H (ptx q) j y f u \<in> hashed H q j u"
    using assms(5,6) by (simp_all add: hashed_def)
  ultimately show ?thesis
    by (intro inj_on_union_eq [OF assms(7)]) simp_all
qed

text \<open>
  C15: A signature commits to what it authorizes.  If two computations of a signature hash, each
  with reused values that belong to its own transaction, return the same hash, and the hash
  function has no collision and no zero value on the messages the two of them hash, then they
  agree on the hash type, on the spent outpoint, its amount and script, on the sequence and the
  signature operation count of the input, on version, lock time, subnetwork, gas and payload; without
  \<open>ANYONE_CAN_PAY\<close> also on the outpoints and signature operation counts of all inputs, with the
  plain \<open>ALL\<close> type on all sequences; for \<open>ALL\<close> on all outputs, and for \<open>SINGLE\<close> on the output with the
  index of the input, or on its absence.
\<close>

theorem signature_hash_binds:
  assumes "calc_schnorr_signature_hash H p i t rv = Some (h, rv')" "reused_ok H (ptx p) rv"
    and "calc_schnorr_signature_hash H q j u sv = Some (h, sv')" "reused_ok H (ptx q) sv"
    and "populated_input p i = Some (x, e)" "populated_input q j = Some (y, f)"
    and "inj_on H (hashed H p i t \<union> hashed H q j u)"
    and "ZERO_HASH \<notin> H ` (hashed H p i t \<union> hashed H q j u)"
    and "wire_sizes p" "wire_sizes q"
  shows "t = u \<and> previous_outpoint x = previous_outpoint y \<and> input_sequence x = input_sequence y
    \<and> sig_op_count x = sig_op_count y \<and> amount e = amount f \<and> entry_spk e = entry_spk f
    \<and> tx_version (ptx p) = tx_version (ptx q) \<and> lock_time (ptx p) = lock_time (ptx q)
    \<and> subnetwork_id (ptx p) = subnetwork_id (ptx q) \<and> tx_gas (ptx p) = tx_gas (ptx q)
    \<and> tx_payload (ptx p) = tx_payload (ptx q)
    \<and> (\<not> is_sighash_anyone_can_pay t \<longrightarrow>
        map previous_outpoint (tx_inputs (ptx p)) = map previous_outpoint (tx_inputs (ptx q))
        \<and> map sig_op_count (tx_inputs (ptx p)) = map sig_op_count (tx_inputs (ptx q)))
    \<and> (\<not> is_sighash_anyone_can_pay t \<and> \<not> is_sighash_single t \<and> \<not> is_sighash_none t \<longrightarrow>
        map input_sequence (tx_inputs (ptx p)) = map input_sequence (tx_inputs (ptx q)))
    \<and> (\<not> is_sighash_single t \<and> \<not> is_sighash_none t \<longrightarrow>
        tx_outputs (ptx p) = tx_outputs (ptx q))
    \<and> (is_sighash_single t \<longrightarrow> paired_output (ptx p) i = paired_output (ptx q) j)"
proof -
  let ?a = "ptx p" and ?b = "ptx q"
  have msg: "sighash_message H ?a i x e t = sighash_message H ?b j y f u"
    by (rule same_message [OF assms(1-7)])
  have "e \<in> set (entries p)" "f \<in> set (entries q)"
    using assms(5,6) by (auto simp: populated_input_def split: if_splits)
  then have "short (spk_script (entry_spk e))" "short (spk_script (entry_spk f))"
    "length (subnetwork_id ?a) = length (subnetwork_id ?b)"
    using assms(9,10) by (auto simp: wire_sizes_def)
  note eqs = sighash_message_inject [OF msg this]
  have inj: "H m = H n \<Longrightarrow> m = n" if "m \<in> hashed H p i t" "n \<in> hashed H q j u" for m n
    using inj_on_union_eq [OF assms(7)] that by blast
  have tu: "u = t" using eqs by simp
  have prevs: "map previous_outpoint (tx_inputs ?a) = map previous_outpoint (tx_inputs ?b)"
    if "\<not> is_sighash_anyone_can_pay t"
    using eqs that by (intro outpoints_message_inject inj)
      (simp_all add: tu ref_previous_outputs_def hashed_def)
  have counts: "map sig_op_count (tx_inputs ?a) = map sig_op_count (tx_inputs ?b)"
    if "\<not> is_sighash_anyone_can_pay t"
    using eqs that by (intro sig_op_counts_message_inject inj)
      (simp_all add: tu ref_sig_op_counts_def hashed_def)
  have seqs: "map input_sequence (tx_inputs ?a) = map input_sequence (tx_inputs ?b)"
    if "\<not> is_sighash_anyone_can_pay t \<and> \<not> is_sighash_single t \<and> \<not> is_sighash_none t"
    using eqs that by (intro sequences_message_inject inj)
      (simp_all add: tu ref_sequences_def hashed_def)
  have outs: "tx_outputs ?a = tx_outputs ?b"
    if "\<not> is_sighash_single t \<and> \<not> is_sighash_none t"
  proof (rule outputs_message_inject)
    show "outputs_message ?a = outputs_message ?b"
      using eqs that by (intro inj) (simp_all add: tu ref_outputs_def hashed_def)
  qed (use assms(9,10) in \<open>simp_all add: wire_sizes_def\<close>)
  have "tx_payload ?a = tx_payload ?b"
  proof (rule ref_payload_inject [of H])
    show "payload_message ?a = payload_message ?b" if "H (payload_message ?a) = H (payload_message ?b)"
      using that by (intro inj) (simp_all add: hashed_def)
    show "H (payload_message ?a) \<noteq> ZERO_HASH" "H (payload_message ?b) \<noteq> ZERO_HASH"
      using assms(8) by (auto simp: hashed_def)
  qed (use eqs assms(9,10) in \<open>simp_all add: wire_sizes_def\<close>)
  moreover have "paired_output ?a i = paired_output ?b j" if single: "is_sighash_single t"
  proof (rule ref_single_inject [of H _ t])
    show "hash_output (tx_outputs ?a ! i) = hash_output (tx_outputs ?b ! j)"
      if "i < length (tx_outputs ?a)" "j < length (tx_outputs ?b)"
        "H (hash_output (tx_outputs ?a ! i)) = H (hash_output (tx_outputs ?b ! j))"
      using that single by (intro inj) (simp_all add: tu hashed_def)
  qed (use eqs assms(8-10) single tu in \<open>auto simp: hashed_def wire_sizes_def single_not_none\<close>)
  ultimately show ?thesis using eqs prevs counts seqs outs by blast
qed

text \<open>A spend with one input and one output, and the same spend with another signature script.\<close>

definition sample_hash :: "u8 list \<Rightarrow> hash" where
  "sample_hash m = word_of_nat (Suc (length m))"

definition sample_spend :: "u8 list \<Rightarrow> PopulatedTransaction" where
  "sample_spend script =
     \<lparr>ptx = \<lparr>tx_version = 0,
        tx_inputs = [\<lparr>previous_outpoint = TransactionOutpoint_new 7 0, signature_script = script,
                      input_sequence = 5, sig_op_count = 1\<rparr>],
        tx_outputs = [TransactionOutput_new 90 (ScriptPublicKey_from_vec 0 [])],
        lock_time = 0, subnetwork_id = SUBNETWORK_ID_NATIVE, tx_gas = 0, tx_payload = [1, 2, 3, 4],
        tx_mass = 0, tx_id = 9\<rparr>,
      entries = [UtxoEntry_new 100 (ScriptPublicKey_from_vec 0 [0x51]) 3 False]\<rparr>"

lemmas sample_spend_simps = sample_spend_def TransactionOutput_new_def TransactionOutpoint_new_def
  UtxoEntry_new_def ScriptPublicKey_from_vec_def

lemma sample_spend_input:
  "populated_input (sample_spend s) 0 =
     Some (hd (tx_inputs (ptx (sample_spend s))), UtxoEntry_new 100 (ScriptPublicKey_from_vec 0 [0x51]) 3 False)"
  by (simp add: populated_input_def sample_spend_def)

lemma sample_spend_messages:
  "outpoints_message (ptx (sample_spend s)) = hash_outpoint (TransactionOutpoint_new 7 0)"
  "sequences_message (ptx (sample_spend s)) = write_u64 5"
  "sig_op_counts_message (ptx (sample_spend s)) = write_u8 1"
  "outputs_message (ptx (sample_spend s))
     = hash_output (TransactionOutput_new 90 (ScriptPublicKey_from_vec 0 []))"
  "payload_message (ptx (sample_spend s)) = write_var_bytes [1, 2, 3, 4]"
  by (simp_all add: outpoints_message_def sequences_message_def sig_op_counts_message_def
      outputs_message_def payload_message_def sample_spend_def)

lemma sample_spend_outputs:
  "tx_outputs (ptx (sample_spend s)) = [TransactionOutput_new 90 (ScriptPublicKey_from_vec 0 [])]"
  by (simp add: sample_spend_def)

lemma sample_sighash_message:
  "sighash_message sample_hash (ptx (sample_spend s)) 0 (hd (tx_inputs (ptx (sample_spend s)))) e t =
   sighash_message sample_hash (ptx (sample_spend [])) 0 (hd (tx_inputs (ptx (sample_spend [])))) e t"
  by (simp add: sighash_message_def ref_previous_outputs_def ref_sequences_def
      ref_sig_op_counts_def ref_outputs_def ref_payload_def sample_spend_messages)
    (simp add: sample_spend_def)

lemma sample_hashed: "hashed sample_hash (sample_spend s) 0 t = hashed sample_hash (sample_spend []) 0 t"
  unfolding hashed_def sample_spend_input sample_spend_messages sample_spend_outputs
  using sample_sighash_message [of s] by simp

lemma length_sample_sighash:
  "length (sighash_message sample_hash (ptx (sample_spend [])) 0
     (hd (tx_inputs (ptx (sample_spend []))))
     (UtxoEntry_new 100 (ScriptPublicKey_from_vec 0 [0x51]) 3 False) t) = 263"
  by (simp add: sighash_message_def hash_script_public_key_def write_var_bytes_def
      UtxoEntry_new_def ScriptPublicKey_from_vec_def)
    (simp add: sample_spend_def SUBNETWORK_ID_NATIVE_def SubnetworkId_from_byte_def SUBNETWORK_ID_SIZE_def)

lemma unat_sample_hash: "length m < 1000 \<Longrightarrow> unat (sample_hash m) = Suc (length m)"
  unfolding sample_hash_def by (subst unat_of_nat) (simp del: of_nat_Suc)

lemma sample_hashed_ok:
  "inj_on sample_hash (hashed sample_hash (sample_spend []) 0 t)"
  "ZERO_HASH \<notin> sample_hash ` hashed sample_hash (sample_spend []) 0 t"
proof -
  let ?M = "hashed sample_hash (sample_spend []) 0 t"
  have lens: "length (hash_output (TransactionOutput_new 90 (ScriptPublicKey_from_vec 0 []))) = 18"
    "length (write_var_bytes [1, 2, 3, 4]) = 12"
    by (simp_all add: hash_output_def hash_script_public_key_def write_var_bytes_def
        TransactionOutput_new_def ScriptPublicKey_from_vec_def)
  have mem: "m \<in> ?M \<Longrightarrow> length m < 1000"
    and inj: "m \<in> ?M \<Longrightarrow> n \<in> ?M \<Longrightarrow> length m = length n \<Longrightarrow> m = n" for m n
    unfolding hashed_def sample_spend_input sample_spend_messages sample_spend_outputs
    using length_sample_sighash lens by (auto split: if_splits)
  show "inj_on sample_hash ?M"
    by (rule inj_onI) (metis inj mem unat_sample_hash Suc_inject)
  show "ZERO_HASH \<notin> sample_hash ` ?M"
    using mem unat_sample_hash by (auto simp: ZERO_HASH_def) (metis unat_0 nat.distinct(1))
qed

theorem signature_hash_binds_witness:
  "map_option fst (calc_schnorr_signature_hash sample_hash (sample_spend [1]) 0 SIG_HASH_SINGLE
       SigHashReusedValues_new)
     = map_option fst (calc_schnorr_signature_hash sample_hash (sample_spend []) 0 SIG_HASH_SINGLE
       SigHashReusedValues_new)
   \<and> paired_output (ptx (sample_spend [1])) 0 = paired_output (ptx (sample_spend [])) 0
   \<and> tx_outputs (ptx (sample_spend [1])) = tx_outputs (ptx (sample_spend []))
   \<and> signature_script (hd (tx_inputs (ptx (sample_spend [1]))))
     \<noteq> signature_script (hd (tx_inputs (ptx (sample_spend []))))"
proof -
  let ?e = "UtxoEntry_new 100 (ScriptPublicKey_from_vec 0 [0x51]) 3 False"
    and ?calc = "\<lambda>s t. calc_schnorr_signature_hash sample_hash (sample_spend s) 0 t SigHashReusedValues_new"
  let ?h = "\<lambda>t. sample_hash (sighash_message sample_hash (ptx (sample_spend [])) 0
      (hd (tx_inputs (ptx (sample_spend [])))) ?e t)"
  have wire: "wire_sizes (sample_spend s)" for s
    by (simp add: wire_sizes_def sample_spend_simps short_def SUBNETWORK_ID_NATIVE_def
        SubnetworkId_from_byte_def SUBNETWORK_ID_SIZE_def)
  have ref: "\<exists>rv. ?calc s t = Some (sample_hash (sighash_message sample_hash (ptx (sample_spend s)) 0
      (hd (tx_inputs (ptx (sample_spend s)))) ?e t), rv)" for s t
    using calc_schnorr_signature_hash_ref [OF reused_ok_new sample_spend_input] by metis
  have calc: "\<exists>rv. ?calc [1] t = Some (?h t, rv)" "\<exists>rv. ?calc [] t = Some (?h t, rv)" for t
    using ref [of "[1]"] ref [of "[]"] unfolding sample_sighash_message [of "[1]"] by blast+
  have ok: "inj_on sample_hash (hashed sample_hash (sample_spend [1]) 0 t \<union> hashed sample_hash (sample_spend []) 0 t)"
    "ZERO_HASH \<notin> sample_hash ` (hashed sample_hash (sample_spend [1]) 0 t \<union> hashed sample_hash (sample_spend []) 0 t)" for t
    unfolding sample_hashed [of "[1]"] Un_absorb by (rule sample_hashed_ok)+
  obtain r r' where r: "?calc [1] SIG_HASH_SINGLE = Some (?h SIG_HASH_SINGLE, r)"
    "?calc [] SIG_HASH_SINGLE = Some (?h SIG_HASH_SINGLE, r')" using calc by blast
  obtain q q' where q: "?calc [1] SIG_HASH_ALL = Some (?h SIG_HASH_ALL, q)"
    "?calc [] SIG_HASH_ALL = Some (?h SIG_HASH_ALL, q')" using calc by blast
  have "paired_output (ptx (sample_spend [1])) 0 = paired_output (ptx (sample_spend [])) 0"
    using signature_hash_binds [OF r(1) reused_ok_new r(2) reused_ok_new sample_spend_input
        sample_spend_input ok wire wire]
    by (simp add: is_sighash_single_def sighash_types)
  moreover have "tx_outputs (ptx (sample_spend [1])) = tx_outputs (ptx (sample_spend []))"
    using signature_hash_binds [OF q(1) reused_ok_new q(2) reused_ok_new sample_spend_input
        sample_spend_input ok wire wire]
    by (simp add: is_sighash_single_def is_sighash_none_def sighash_types)
  ultimately show ?thesis using r by (simp add: sample_spend_def)
qed

text \<open>
  Reusing the part hashes of a transaction between its inputs is sound.  From values that
  belong to the transaction (or none), the signature hash of any input and hash type is the one
  computed from scratch, and the values left behind belong to the transaction again.
\<close>

theorem reused_values_transparent:
  assumes "reused_ok H (ptx p) rv"
  shows "map_option fst (calc_schnorr_signature_hash H p i t rv)
      = map_option fst (calc_schnorr_signature_hash H p i t SigHashReusedValues_new)
    \<and> pred_option (\<lambda>(h, rv'). reused_ok H (ptx p) rv') (calc_schnorr_signature_hash H p i t rv)"
proof (cases "populated_input p i")
  case None
  then show ?thesis by (simp add: calc_schnorr_signature_hash_def)
next
  case (Some xe)
  obtain x e where xe: "xe = (x, e)" by fastforce
  obtain r where "calc_schnorr_signature_hash H p i t rv
      = Some (H (sighash_message H (ptx p) i x e t), r)" "reused_ok H (ptx p) r"
    using calc_schnorr_signature_hash_ref [OF assms Some [unfolded xe]] by blast
  moreover obtain s where "calc_schnorr_signature_hash H p i t SigHashReusedValues_new
      = Some (H (sighash_message H (ptx p) i x e t), s)"
    using calc_schnorr_signature_hash_ref [OF reused_ok_new Some [unfolded xe]] by blast
  ultimately show ?thesis by simp
qed

theorem reused_values_transparent_witness:
  "map_option fst (calc_schnorr_signature_hash sample_hash (sample_spend []) 0 SIG_HASH_ALL
       (SigHashReusedValues_new\<lparr>rv_sequences := Some 9, rv_sig_op_counts := Some 2\<rparr>))
     = map_option fst (calc_schnorr_signature_hash sample_hash (sample_spend []) 0 SIG_HASH_ALL
       SigHashReusedValues_new)"
proof -
  have "reused_ok sample_hash (ptx (sample_spend []))
      (SigHashReusedValues_new\<lparr>rv_sequences := Some 9, rv_sig_op_counts := Some 2\<rparr>)"
    by (simp add: reused_ok_def SigHashReusedValues_new_def sample_spend_messages sample_hash_def)
  then show ?thesis
    using reused_values_transparent [of sample_hash "sample_spend []" _ 0 SIG_HASH_ALL] by blast
qed

end
