(* ===== verification/Sig_Cache.thy ===== *)
theory Sig_Cache
  imports Rust_Maps
begin

text \<open>
  The signature cache, \<^verbatim>\<open>src/crypto/txscript/src/caches.rs\<close>.  An \<^verbatim>\<open>IndexMap\<close> is the association
  list of its entries in insertion order.  The random generator is the parameter \<open>gen_range\<close>: the
  draw in \<open>0..size\<close> made when the counter of insertions has a given value.  The lock and the
  reference counts around the map have no effect on one caller and are not modelled.
\<close>

record ('k, 'v) Cache =
  cache_map :: "('k \<times> 'v) list"
  cache_size :: nat
  insert_counts :: u64
  get_counts :: u64

definition Cache_new :: "u64 \<Rightarrow> ('k, 'v) Cache" where
  "Cache_new sz =
     \<lparr>cache_map = [], cache_size = unat sz, insert_counts = 0, get_counts = 0\<rparr>"

definition cache_clear :: "('k, 'v) Cache \<Rightarrow> ('k, 'v) Cache" where
  "cache_clear c = c\<lparr>cache_map := []\<rparr>"

definition cache_get :: "'k \<Rightarrow> ('k, 'v) Cache \<Rightarrow> 'v option \<times> ('k, 'v) Cache" where
  "cache_get key c = (case map_of (cache_map c) key of
     None \<Rightarrow> (None, c)
   | Some data \<Rightarrow> (Some data, c\<lparr>get_counts := get_counts c + 1\<rparr>))"

text \<open>\<open>IndexMap::swap_remove_index\<close>: the last entry takes the place of the removed one.\<close>

definition swap_remove_index :: "nat \<Rightarrow> 'a list \<Rightarrow> 'a list" where
  "swap_remove_index i xs = (if i < length xs then butlast (xs[i := last xs]) else xs)"

definition cache_insert ::
    "(u64 \<Rightarrow> nat \<Rightarrow> nat) \<Rightarrow> 'k \<Rightarrow> 'v \<Rightarrow> ('k, 'v) Cache \<Rightarrow> ('k, 'v) Cache" where
  "cache_insert gen_range key data c =
     (if cache_size c = 0 then c
      else let m = (if length (cache_map c) = cache_size c
                    then swap_remove_index (gen_range (insert_counts c) (cache_size c)) (cache_map c)
                    else cache_map c)
           in c\<lparr>cache_map := AList.update key data m, insert_counts := insert_counts c + 1\<rparr>)"

section \<open>The cache is a bounded memory of what was put in\<close>

definition cache_wf :: "('k, 'v) Cache \<Rightarrow> bool" where
  "cache_wf c = (distinct (map fst (cache_map c)) \<and> length (cache_map c) \<le> cache_size c)"

lemma swap_remove_snoc:
  "i < length xs \<Longrightarrow> swap_remove_index i (xs @ [x]) = xs[i := x]"
  by (simp add: swap_remove_index_def list_update_append butlast_append)

lemma length_swap_remove [simp]:
  "i < length xs \<Longrightarrow> length (swap_remove_index i xs) = length xs - 1"
  by (simp add: swap_remove_index_def)

lemma set_swap_remove: "set (swap_remove_index i xs) \<subseteq> set xs"
proof (cases "i < length xs")
  case True
  then have "set (butlast (xs[i := last xs])) \<subseteq> insert (last xs) (set xs)"
    using set_update_subset_insert [of xs i "last xs"] by (auto dest: in_set_butlastD)
  moreover have "last xs \<in> set xs" using True by (intro last_in_set) auto
  ultimately show ?thesis using True by (auto simp: swap_remove_index_def)
qed (simp add: swap_remove_index_def)

lemma distinct_swap_remove:
  assumes "distinct (map fst xs)"
  shows "distinct (map fst (swap_remove_index i xs))"
proof (cases "i < length xs")
  case True
  then obtain ys y where xs: "xs = ys @ [y]" by (cases xs rule: rev_cases) auto
  show ?thesis
  proof (cases "i < length ys")
    case True
    then show ?thesis using assms
      by (auto simp: xs swap_remove_snoc map_update intro!: distinct_list_update)
  next
    case False
    with \<open>i < length xs\<close> have "i = length ys" by (simp add: xs)
    then show ?thesis using assms by (simp add: xs swap_remove_index_def)
  qed
qed (use assms in \<open>simp add: swap_remove_index_def\<close>)

lemma length_update_le: "length (AList.update k v xs) \<le> Suc (length xs)"
  by (induction xs) auto

lemma cache_insert_wf:
  assumes "cache_wf c" and "\<And>n s. 0 < s \<Longrightarrow> gen_range n s < s"
  shows "cache_wf (cache_insert gen_range k v c)"
proof (cases "cache_size c = 0 \<or> length (cache_map c) \<noteq> cache_size c")
  case True
  then show ?thesis
    using assms(1) length_update_le [of k v "cache_map c"]
    by (auto simp: cache_insert_def cache_wf_def Let_def distinct_update)
next
  case False
  then have d: "gen_range (insert_counts c) (cache_size c) < length (cache_map c)"
    using assms(2) by simp
  let ?m = "swap_remove_index (gen_range (insert_counts c) (cache_size c)) (cache_map c)"
  have "length ?m = cache_size c - 1" using d False by simp
  moreover have "distinct (map fst ?m)"
    using assms(1) by (intro distinct_swap_remove) (simp add: cache_wf_def)
  ultimately show ?thesis
    using False length_update_le [of k v ?m]
    by (auto simp: cache_insert_def cache_wf_def Let_def distinct_update)
qed

text \<open>Every entry after an insertion was there before or is the new one.\<close>

lemma cache_insert_entries:
  assumes "distinct (map fst (cache_map c))"
    and "map_of (cache_map (cache_insert gen_range k v c)) k' = Some v'"
  shows "(k' = k \<and> v' = v) \<or> map_of (cache_map c) k' = Some v'"
proof -
  let ?m = "if length (cache_map c) = cache_size c
    then swap_remove_index (gen_range (insert_counts c) (cache_size c)) (cache_map c)
    else cache_map c"
  have "map_of (cache_map c) k' = Some v'" if "map_of ?m k' = Some v'"
    using that assms(1) set_swap_remove by (fastforce dest!: map_of_SomeD split: if_splits)
  then show ?thesis
    using assms(2) by (auto simp: cache_insert_def Let_def update_conv' split: if_splits)
qed

end
