(* ===== verification/Script_Opcodes.thy ===== *)
theory Script_Opcodes
  imports Script_Stack Sighash Sig_Cache
begin

unbundle bit_operations_syntax

text \<open>
  The opcodes of the script language: \<^verbatim>\<open>src/crypto/txscript/src/opcodes/mod.rs\<close> and
  \<^verbatim>\<open>opcodes/macros.rs\<close>, the engine state and the signature checks of
  \<^verbatim>\<open>src/crypto/txscript/src/lib.rs\<close> and \<^verbatim>\<open>runtime_sig_op_counter.rs\<close>.

  An opcode of the source is a struct \<^verbatim>\<open>OpCode<CODE>\<close> with its data; here it is a record of the code
  and the data, and \<open>OpCode_execute\<close> is the dispatch that the macro \<^verbatim>\<open>opcode_list!\<close> expands to.  Each
  opcode with a body of its own has a definition of its name.  The cryptographic crates and the
  random generator of the signature cache are the fields of the record \<open>script_env\<close>.  The log
  buffer of the engine is not modelled.
\<close>

section \<open>Constants\<close>

definition MAX_STACK_SIZE :: nat where
  "MAX_STACK_SIZE = 244"
definition MAX_SCRIPTS_SIZE :: nat where
  "MAX_SCRIPTS_SIZE = 10000"
definition MAX_SCRIPT_ELEMENT_SIZE :: nat where
  "MAX_SCRIPT_ELEMENT_SIZE = 520"
definition MAX_OPS_PER_SCRIPT :: int where
  "MAX_OPS_PER_SCRIPT = 201"
definition MAX_TX_IN_SEQUENCE_NUM :: u64 where
  "MAX_TX_IN_SEQUENCE_NUM = - 1"
definition SEQUENCE_LOCK_TIME_DISABLED :: u64 where
  "SEQUENCE_LOCK_TIME_DISABLED = 0x8000000000000000"
definition SEQUENCE_LOCK_TIME_MASK :: u64 where
  "SEQUENCE_LOCK_TIME_MASK = 0x00000000ffffffff"
definition LOCK_TIME_THRESHOLD :: u64 where
  "LOCK_TIME_THRESHOLD = 500000000000"
definition MAX_PUB_KEYS_PER_MUTLTISIG :: int where
  "MAX_PUB_KEYS_PER_MUTLTISIG = 20"
definition NO_COST_OPCODE :: u8 where
  "NO_COST_OPCODE = 0x60"
definition OP_SMALL_INT_MIN_VAL :: u8 where
  "OP_SMALL_INT_MIN_VAL = 1"
definition OP_SMALL_INT_MAX_VAL :: u8 where
  "OP_SMALL_INT_MAX_VAL = 16"
definition OP_DATA_MIN_VAL :: u8 where
  "OP_DATA_MIN_VAL = 0x01"
definition OP_DATA_MAX_VAL :: u8 where
  "OP_DATA_MAX_VAL = 0x4b"
definition OP_1_NEGATE_VAL :: u8 where
  "OP_1_NEGATE_VAL = 0x81"

lemmas script_constants = MAX_STACK_SIZE_def MAX_SCRIPTS_SIZE_def MAX_SCRIPT_ELEMENT_SIZE_def
  MAX_OPS_PER_SCRIPT_def MAX_TX_IN_SEQUENCE_NUM_def SEQUENCE_LOCK_TIME_DISABLED_def
  SEQUENCE_LOCK_TIME_MASK_def LOCK_TIME_THRESHOLD_def MAX_PUB_KEYS_PER_MUTLTISIG_def
  NO_COST_OPCODE_def OP_SMALL_INT_MIN_VAL_def OP_SMALL_INT_MAX_VAL_def OP_DATA_MIN_VAL_def
  OP_DATA_MAX_VAL_def OP_1_NEGATE_VAL_def

section \<open>Opcodes and their serialization\<close>

record OpCode =
  op_code :: u8
  op_data :: "u8 list"

text \<open>The length specification of an opcode: a fixed number, or the width of a length prefix.\<close>

datatype OpLength = Fixed nat | Prefixed nat

definition op_length :: "u8 \<Rightarrow> OpLength" where
  "op_length c =
     (if 0x01 \<le> c \<and> c \<le> 0x4b then Fixed (unat c + 1)
      else if c = 0x4c then Prefixed 1
      else if c = 0x4d then Prefixed 2
      else if c = 0x4e then Prefixed 4
      else Fixed 1)"

definition opcode_serialize :: "OpCode \<Rightarrow> u8 list" where
  "opcode_serialize op = (case op_length (op_code op) of
     Fixed _ \<Rightarrow> op_code op # op_data op
   | Prefixed w \<Rightarrow> op_code op # nat_to_le w (length (op_data op)) @ op_data op)"

definition opcode_new :: "u8 \<Rightarrow> u8 list \<Rightarrow> TxScriptError + OpCode" where
  "opcode_new c data = (case op_length c of
     Fixed n \<Rightarrow> if length data \<noteq> n - 1 then Inl (MalformedPush (n - 1) (length data))
                else Inr \<lparr>op_code = c, op_data = data\<rparr>
   | Prefixed w \<Rightarrow> if length data > 256 ^ w - 1 then Inl (MalformedPush (256 ^ w - 1) (length data))
                else Inr \<lparr>op_code = c, op_data = data\<rparr>)"

text \<open>\<open>deserialize\<close>: the result and what is left of the iterator.\<close>

definition opcode_deserialize :: "u8 \<Rightarrow> u8 list \<Rightarrow> (TxScriptError + OpCode) \<times> u8 list" where
  "opcode_deserialize c it = (case op_length c of
     Fixed n \<Rightarrow> (opcode_new c (take (n - 1) it), drop (n - 1) it)
   | Prefixed w \<Rightarrow>
       (let bytes = take w it; rest = drop w it
        in if length bytes = w
           then let len = le_to_nat bytes; data = take len rest
                in (if length data \<noteq> len then Inl (MalformedPush len (length data))
                    else Inr \<lparr>op_code = c, op_data = data\<rparr>, drop len rest)
           else (Inl (MalformedPushSize bytes), rest)))"

definition deserialize_next_opcode ::
    "u8 list \<Rightarrow> ((TxScriptError + OpCode) \<times> u8 list) option" where
  "deserialize_next_opcode it = (case it of
     [] \<Rightarrow> None
   | opcode_num # rest \<Rightarrow> Some (opcode_deserialize opcode_num rest))"

lemma opcode_deserialize_shorter: "opcode_deserialize c it = (r, rest) \<Longrightarrow> length rest \<le> length it"
  by (auto simp: opcode_deserialize_def Let_def split: OpLength.splits if_splits)

text \<open>\<open>parse_script\<close>: the results in order, until the iterator is exhausted.\<close>

function parse_script :: "u8 list \<Rightarrow> (TxScriptError + OpCode) list" where
  "parse_script script = (case deserialize_next_opcode script of
     None \<Rightarrow> []
   | Some (r, rest) \<Rightarrow> r # parse_script rest)"
  by pat_completeness auto

termination
  by (relation "measure length")
    (auto simp: deserialize_next_opcode_def split: list.splits dest!: opcode_deserialize_shorter)

declare parse_script.simps [simp del]

section \<open>Metadata\<close>

definition is_disabled :: "OpCode \<Rightarrow> bool" where
  "is_disabled op = (op_code op \<in> {0x7e, 0x7f, 0x80, 0x81, 0x83, 0x84, 0x85, 0x86,
     0x8d, 0x8e, 0x95, 0x96, 0x97, 0x98, 0x99})"

definition always_illegal :: "OpCode \<Rightarrow> bool" where
  "always_illegal op = (op_code op \<in> {0x65, 0x66})"

definition is_push_opcode :: "OpCode \<Rightarrow> bool" where
  "is_push_opcode op = (op_code op \<le> NO_COST_OPCODE)"

definition is_conditional :: "OpCode \<Rightarrow> bool" where
  "is_conditional op = (0x63 \<le> op_code op \<and> op_code op \<le> 0x68)"

definition check_minimal_data_push :: "OpCode \<Rightarrow> unit script_result" where
  "check_minimal_data_push op =
     (let data_len = length (op_data op); opcode = op_code op; first = op_data op ! 0
      in if data_len = 0 then (if opcode \<noteq> 0x00 then Err NotMinimalData else Ok ())
         else if data_len = 1 \<and> OP_SMALL_INT_MIN_VAL \<le> first \<and> first \<le> OP_SMALL_INT_MAX_VAL
         then (if opcode \<noteq> 0x51 + first - 1 then Err NotMinimalData else Ok ())
         else if data_len = 1 \<and> first = OP_1_NEGATE_VAL
         then (if opcode \<noteq> 0x4f then Err NotMinimalData else Ok ())
         else if data_len \<le> unat OP_DATA_MAX_VAL
         then (if unat opcode \<noteq> data_len then Err NotMinimalData else Ok ())
         else if data_len \<le> 255 then (if opcode \<noteq> 0x4c then Err NotMinimalData else Ok ())
         else if data_len < 65535 \<and> opcode \<noteq> 0x4d then Err NotMinimalData
         else Ok ())"

text \<open>\<open>to_small_int\<close>: the range of the assertion is half open, so \<^verbatim>\<open>Op16\<close> fails it.\<close>

definition to_small_int :: "OpCode \<Rightarrow> u8 option" where
  "to_small_int op =
     (let value = op_code op
      in if value = 0x00 then Some 0
         else if 0x51 \<le> value \<and> value < 0x60 then Some (value - (0x51 - 1))
         else None)"

section \<open>The engine state\<close>

record script_env =
  sha256 :: "u8 list \<Rightarrow> u8 list"
  blake2b :: "u8 list \<Rightarrow> u8 list"
  signing_hash :: "u8 list \<Rightarrow> hash"
  signing_hash_ecdsa :: "u8 list \<Rightarrow> hash"
  xonly_key_from_slice :: "u8 list \<Rightarrow> u8 list option"
  schnorr_signature_from_slice :: "u8 list \<Rightarrow> u8 list option"
  schnorr_verify :: "u8 list \<Rightarrow> u8 list \<Rightarrow> u8 list \<Rightarrow> bool"
  ecdsa_key_from_slice :: "u8 list \<Rightarrow> u8 list option"
  ecdsa_signature_from_compact :: "u8 list \<Rightarrow> u8 list option"
  ecdsa_verify :: "u8 list \<Rightarrow> u8 list \<Rightarrow> u8 list \<Rightarrow> bool"
  gen_range :: "u64 \<Rightarrow> nat \<Rightarrow> nat"

datatype Signature = Secp256k1 "u8 list" | Ecdsa "u8 list"
datatype PublicKey = SchnorrKey "u8 list" | EcdsaKey "u8 list"

record SigCacheKey =
  signature :: Signature
  pub_key :: PublicKey
  message :: "u8 list"

datatype ScriptSource =
    TxInput PopulatedTransaction TransactionInput nat UtxoEntry bool
  | StandAloneScripts "u8 list list"

datatype OpCond = CondFalse | CondTrue | CondSkip

fun negate :: "OpCond \<Rightarrow> OpCond" where
  "negate CondTrue = CondFalse"
| "negate CondFalse = CondTrue"
| "negate CondSkip = CondSkip"

record RuntimeSigOpCounter =
  sig_op_limit :: u8
  sig_op_remaining :: u8

definition RuntimeSigOpCounter_new :: "u8 \<Rightarrow> RuntimeSigOpCounter" where
  "RuntimeSigOpCounter_new limit = \<lparr>sig_op_limit = limit, sig_op_remaining = limit\<rparr>"

definition consume_sig_op :: "RuntimeSigOpCounter \<Rightarrow> RuntimeSigOpCounter script_result" where
  "consume_sig_op c = (case checked_sub (sig_op_remaining c) 1 of
     None \<Rightarrow> Err (ExceededSigOpLimit (sig_op_limit c))
   | Some r \<Rightarrow> Ok (c\<lparr>sig_op_remaining := r\<rparr>))"

definition counter_used_sig_ops :: "RuntimeSigOpCounter \<Rightarrow> u8 option" where
  "counter_used_sig_ops c = checked_sub (sig_op_limit c) (sig_op_remaining c)"

record TxScriptEngine =
  dstack :: Stack
  astack :: Stack
  script_source :: ScriptSource
  reused_values :: SigHashReusedValues
  sig_cache :: "(SigCacheKey, bool) Cache"
  cond_stack :: "OpCond list"
  num_ops :: int
  runtime_sig_op_counter :: RuntimeSigOpCounter

type_synonym handler = "TxScriptEngine \<Rightarrow> TxScriptEngine script_result"

definition is_executing :: "TxScriptEngine \<Rightarrow> bool" where
  "is_executing vm = (cond_stack vm = [] \<or> last (cond_stack vm) = CondTrue)"

text \<open>\<open>num_ops\<close> is an \<^verbatim>\<open>i32\<close>: an addition that leaves its range panics.\<close>

definition add_ops_count :: "int \<Rightarrow> handler" where
  "add_ops_count n vm =
     (if in_i32 (num_ops vm + n) then Ok (vm\<lparr>num_ops := num_ops vm + n\<rparr>) else None)"

section \<open>Stack access of the handlers\<close>

definition on_dstack :: "(Stack \<Rightarrow> Stack script_result) \<Rightarrow> handler" where
  "on_dstack f vm = try_bind (f (dstack vm)) (\<lambda>s. Ok (vm\<lparr>dstack := s\<rparr>))"

definition push_data :: "u8 list \<Rightarrow> handler" where
  "push_data data vm = Ok (vm\<lparr>dstack := dstack vm @ [data]\<rparr>)"

definition push_number :: "int \<Rightarrow> handler" where
  "push_number n vm = on_dstack (push_item (serialize_num n)) vm"

definition push_bool :: "bool \<Rightarrow> handler" where
  "push_bool b vm = on_dstack (push_item (Ok (serialize_bool b))) vm"

text \<open>
  \<open>let [a, ..]: [T; n] = vm.dstack.pop_items()?\<close>: the number of items is exact, so the last case,
  which stands for the \<open>expect\<close> of the source, is not reached.
\<close>

definition with_num1 :: "(int \<Rightarrow> handler) \<Rightarrow> handler" where
  "with_num1 k vm = try_bind (pop_items deserialize_num 1 (dstack vm)) (\<lambda>(items, s).
     case items of [a] \<Rightarrow> k a (vm\<lparr>dstack := s\<rparr>) | _ \<Rightarrow> None)"

definition with_num2 :: "(int \<Rightarrow> int \<Rightarrow> handler) \<Rightarrow> handler" where
  "with_num2 k vm = try_bind (pop_items deserialize_num 2 (dstack vm)) (\<lambda>(items, s).
     case items of [a, b] \<Rightarrow> k a b (vm\<lparr>dstack := s\<rparr>) | _ \<Rightarrow> None)"

definition with_num3 :: "(int \<Rightarrow> int \<Rightarrow> int \<Rightarrow> handler) \<Rightarrow> handler" where
  "with_num3 k vm = try_bind (pop_items deserialize_num 3 (dstack vm)) (\<lambda>(items, s).
     case items of [a, b, c] \<Rightarrow> k a b c (vm\<lparr>dstack := s\<rparr>) | _ \<Rightarrow> None)"

definition with_i32 :: "(int \<Rightarrow> handler) \<Rightarrow> handler" where
  "with_i32 k vm = try_bind (pop_items deserialize_i32 1 (dstack vm)) (\<lambda>(items, s).
     case items of [a] \<Rightarrow> k a (vm\<lparr>dstack := s\<rparr>) | _ \<Rightarrow> None)"

definition with_bool :: "(bool \<Rightarrow> handler) \<Rightarrow> handler" where
  "with_bool k vm = try_bind (pop_items deserialize_bool 1 (dstack vm)) (\<lambda>(items, s).
     case items of [a] \<Rightarrow> k a (vm\<lparr>dstack := s\<rparr>) | _ \<Rightarrow> None)"

definition with_raw1 :: "(u8 list \<Rightarrow> handler) \<Rightarrow> handler" where
  "with_raw1 k vm = try_bind (pop_raw 1 (dstack vm)) (\<lambda>(items, s).
     case items of [a] \<Rightarrow> k a (vm\<lparr>dstack := s\<rparr>) | _ \<Rightarrow> None)"

definition with_raw2 :: "(u8 list \<Rightarrow> u8 list \<Rightarrow> handler) \<Rightarrow> handler" where
  "with_raw2 k vm = try_bind (pop_raw 2 (dstack vm)) (\<lambda>(items, s).
     case items of [a, b] \<Rightarrow> k a b (vm\<lparr>dstack := s\<rparr>) | _ \<Rightarrow> None)"

text \<open>\<open>usize as i64\<close>.\<close>

definition usize_as_i64 :: "nat \<Rightarrow> int" where
  "usize_as_i64 n = signed_take_bit 63 (int n)"

section \<open>Push opcodes\<close>

definition OpFalse :: handler where
  "OpFalse vm = Ok (vm\<lparr>dstack := dstack vm @ [[]]\<rparr>)"

definition OpData :: "OpCode \<Rightarrow> handler" where
  "OpData self vm = push_data (op_data self) vm"

definition Op1Negate :: handler where
  "Op1Negate vm = push_number (- 1) vm"

definition OpReserved :: handler where
  "OpReserved vm = Err OpcodeReserved"

text \<open>\<^verbatim>\<open>OpTrue\<close> and \<^verbatim>\<open>Op2\<close> to \<^verbatim>\<open>Op16\<close>.\<close>

definition OpSmall :: "OpCode \<Rightarrow> handler" where
  "OpSmall self vm = push_number (uint (op_code self) - 0x50) vm"

section \<open>Control opcodes\<close>

definition OpNop :: handler where
  "OpNop vm = Ok vm"

definition OpVer :: handler where
  "OpVer vm = Err OpcodeReserved"

definition OpIf :: handler where
  "OpIf vm =
     (if is_executing vm
      then (if dstack vm = [] then Err EmptyStack
            else let cond_buf = last (dstack vm); vm' = vm\<lparr>dstack := butlast (dstack vm)\<rparr>
                 in if length cond_buf > 1 then Err InvalidState
                    else if cond_buf = [] then Ok (vm'\<lparr>cond_stack := cond_stack vm' @ [CondFalse]\<rparr>)
                    else if last cond_buf = 1 then Ok (vm'\<lparr>cond_stack := cond_stack vm' @ [CondTrue]\<rparr>)
                    else Err InvalidState)
      else Ok (vm\<lparr>cond_stack := cond_stack vm @ [CondSkip]\<rparr>))"

definition OpNotIf :: handler where
  "OpNotIf vm =
     (if is_executing vm
      then (if dstack vm = [] then Err EmptyStack
            else let cond_buf = last (dstack vm); vm' = vm\<lparr>dstack := butlast (dstack vm)\<rparr>
                 in if length cond_buf > 1 then Err InvalidState
                    else if cond_buf = [] then Ok (vm'\<lparr>cond_stack := cond_stack vm' @ [CondTrue]\<rparr>)
                    else if last cond_buf = 1 then Ok (vm'\<lparr>cond_stack := cond_stack vm' @ [CondFalse]\<rparr>)
                    else Err InvalidState)
      else Ok (vm\<lparr>cond_stack := cond_stack vm @ [CondSkip]\<rparr>))"

definition OpVerIf :: handler where
  "OpVerIf vm = Err OpcodeReserved"

definition OpElse :: handler where
  "OpElse vm =
     (if cond_stack vm = [] then Err InvalidState
      else Ok (vm\<lparr>cond_stack := butlast (cond_stack vm) @ [negate (last (cond_stack vm))]\<rparr>))"

definition OpEndIf :: handler where
  "OpEndIf vm =
     (if cond_stack vm = [] then Err InvalidState
      else Ok (vm\<lparr>cond_stack := butlast (cond_stack vm)\<rparr>))"

definition OpVerify :: handler where
  "OpVerify = with_bool (\<lambda>result vm. if result then Ok vm else Err VerifyError)"

definition OpReturn :: handler where
  "OpReturn vm = Err EarlyReturn"

section \<open>Stack opcodes\<close>

definition OpToAltStack :: handler where
  "OpToAltStack = with_raw1 (\<lambda>item vm. Ok (vm\<lparr>astack := astack vm @ [item]\<rparr>))"

definition OpFromAltStack :: handler where
  "OpFromAltStack vm =
     (if astack vm = [] then Err EmptyStack
      else Ok (vm\<lparr>astack := butlast (astack vm), dstack := dstack vm @ [last (astack vm)]\<rparr>))"

definition Op2Drop :: handler where
  "Op2Drop = on_dstack (drop_items 2)"
definition Op2Dup :: handler where
  "Op2Dup = on_dstack (dup_items 2)"
definition Op3Dup :: handler where
  "Op3Dup = on_dstack (dup_items 3)"
definition Op2Over :: handler where
  "Op2Over = on_dstack (over_items 2)"
definition Op2Rot :: handler where
  "Op2Rot = on_dstack (rot_items 2)"
definition Op2Swap :: handler where
  "Op2Swap = on_dstack (swap_items 2)"

definition OpIfDup :: handler where
  "OpIfDup vm = try_bind (peek_raw 1 (dstack vm)) (\<lambda>items.
     case items of
       [result] \<Rightarrow> try_bind (deserialize_bool result) (\<lambda>b.
          Ok (if b then vm\<lparr>dstack := dstack vm @ [result]\<rparr> else vm))
     | _ \<Rightarrow> None)"

definition OpDepth :: handler where
  "OpDepth vm = push_number (usize_as_i64 (length (dstack vm))) vm"

definition OpDrop :: handler where
  "OpDrop = on_dstack (drop_items 1)"
definition OpDup :: handler where
  "OpDup = on_dstack (dup_items 1)"

text \<open>\<open>Vec::remove\<close>.\<close>

definition remove_nth :: "nat \<Rightarrow> 'a list \<Rightarrow> 'a list" where
  "remove_nth i xs = take i xs @ drop (Suc i) xs"

definition OpNip :: handler where
  "OpNip vm =
     (if length (dstack vm) \<ge> 2
      then Ok (vm\<lparr>dstack := remove_nth (length (dstack vm) - 2) (dstack vm)\<rparr>)
      else Err (InvalidStackOperation 2 (length (dstack vm))))"

definition OpOver :: handler where
  "OpOver = on_dstack (over_items 1)"

definition OpPick :: handler where
  "OpPick = with_i32 (\<lambda>loc vm.
     if loc < 0 \<or> nat loc \<ge> length (dstack vm) then Err InvalidState
     else Ok (vm\<lparr>dstack := dstack vm @ [dstack vm ! (length (dstack vm) - nat loc - 1)]\<rparr>))"

definition OpRoll :: handler where
  "OpRoll = with_i32 (\<lambda>loc vm.
     if loc < 0 \<or> nat loc \<ge> length (dstack vm) then Err InvalidState
     else let i = length (dstack vm) - nat loc - 1
          in Ok (vm\<lparr>dstack := remove_nth i (dstack vm) @ [dstack vm ! i]\<rparr>))"

definition OpRot :: handler where
  "OpRot = on_dstack (rot_items 1)"
definition OpSwap :: handler where
  "OpSwap = on_dstack (swap_items 1)"

definition OpTuck :: handler where
  "OpTuck vm =
     (let s = dstack vm; n = length s
      in if n \<ge> 2 then Ok (vm\<lparr>dstack := take (n - 2) s @ [last s] @ drop (n - 2) s\<rparr>)
         else Err (InvalidStackOperation 2 n))"

section \<open>Splice and bitwise opcodes\<close>

text \<open>\<^verbatim>\<open>OpCat\<close>, \<^verbatim>\<open>OpSubStr\<close>, \<^verbatim>\<open>OpLeft\<close> and \<^verbatim>\<open>OpRight\<close>.\<close>

definition OpSplice :: handler where
  "OpSplice vm = Err OpcodeDisabled"

definition OpSize :: handler where
  "OpSize vm =
     (if dstack vm = [] then Err (InvalidStackOperation 1 0)
      else if in_i64 (int (length (last (dstack vm))))
      then push_number (int (length (last (dstack vm)))) vm
      else Err NumberTooBig)"

text \<open>\<^verbatim>\<open>OpInvert\<close>, \<^verbatim>\<open>OpAnd\<close>, \<^verbatim>\<open>OpOr\<close> and \<^verbatim>\<open>OpXor\<close>.\<close>

definition OpBitwise :: handler where
  "OpBitwise vm = Err OpcodeDisabled"

definition OpEqual :: handler where
  "OpEqual vm =
     (let s = dstack vm; n = length s
      in if n \<ge> 2
         then (let pair = drop (n - 2) s; rest = take (n - 2) s
               in Ok (vm\<lparr>dstack := rest @ [if pair ! 0 = pair ! 1 then [1] else []]\<rparr>))
         else Err (InvalidStackOperation 2 n))"

definition OpEqualVerify :: handler where
  "OpEqualVerify vm =
     (let s = dstack vm; n = length s
      in if n \<ge> 2
         then (let pair = drop (n - 2) s; rest = take (n - 2) s
               in if pair ! 0 = pair ! 1 then Ok (vm\<lparr>dstack := rest\<rparr>) else Err VerifyError)
         else Err (InvalidStackOperation 2 n))"

text \<open>\<^verbatim>\<open>OpReserved1\<close> and \<^verbatim>\<open>OpReserved2\<close>.\<close>

definition OpReserved12 :: handler where
  "OpReserved12 vm = Err OpcodeReserved"

section \<open>Numeric opcodes\<close>

text \<open>\<open>checked_op(..).ok_or_else(|| NumberTooBig(..))?\<close> followed by the push of the result.\<close>

definition push_checked :: "int \<Rightarrow> handler" where
  "push_checked r vm = (case i64_checked r of None \<Rightarrow> Err NumberTooBig | Some n \<Rightarrow> push_number n vm)"

definition push_flag :: "bool \<Rightarrow> handler" where
  "push_flag b vm = push_number (if b then 1 else 0) vm"

definition Op1Add :: handler where
  "Op1Add = with_num1 (\<lambda>value. push_checked (value + 1))"
definition Op1Sub :: handler where
  "Op1Sub = with_num1 (\<lambda>value. push_checked (value - 1))"

text \<open>\<^verbatim>\<open>Op2Mul\<close> and \<^verbatim>\<open>Op2Div\<close>.\<close>

definition Op2MulDiv :: handler where
  "Op2MulDiv vm = Err OpcodeDisabled"

definition OpNegate :: handler where
  "OpNegate = with_num1 (\<lambda>value. push_checked (- value))"
definition OpAbs :: handler where
  "OpAbs = with_num1 (\<lambda>value. push_checked \<bar>value\<bar>)"
definition OpNot :: handler where
  "OpNot = with_num1 (\<lambda>m. push_flag (m = 0))"
definition Op0NotEqual :: handler where
  "Op0NotEqual = with_num1 (\<lambda>m. push_flag (m \<noteq> 0))"
definition OpAdd :: handler where
  "OpAdd = with_num2 (\<lambda>a b. push_checked (a + b))"
definition OpSub :: handler where
  "OpSub = with_num2 (\<lambda>a b. push_checked (a - b))"

text \<open>\<^verbatim>\<open>OpMul\<close>, \<^verbatim>\<open>OpDiv\<close>, \<^verbatim>\<open>OpMod\<close>, \<^verbatim>\<open>OpLShift\<close> and \<^verbatim>\<open>OpRShift\<close>.\<close>

definition OpMulDivMod :: handler where
  "OpMulDivMod vm = Err OpcodeDisabled"

definition OpBoolAnd :: handler where
  "OpBoolAnd = with_num2 (\<lambda>a b. push_flag (a \<noteq> 0 \<and> b \<noteq> 0))"
definition OpBoolOr :: handler where
  "OpBoolOr = with_num2 (\<lambda>a b. push_flag (a \<noteq> 0 \<or> b \<noteq> 0))"
definition OpNumEqual :: handler where
  "OpNumEqual = with_num2 (\<lambda>a b. push_flag (a = b))"
definition OpNumEqualVerify :: handler where
  "OpNumEqualVerify = with_num2 (\<lambda>a b vm. if a = b then Ok vm else Err VerifyError)"
definition OpNumNotEqual :: handler where
  "OpNumNotEqual = with_num2 (\<lambda>a b. push_flag (a \<noteq> b))"
definition OpLessThan :: handler where
  "OpLessThan = with_num2 (\<lambda>a b. push_flag (a < b))"
definition OpGreaterThan :: handler where
  "OpGreaterThan = with_num2 (\<lambda>a b. push_flag (a > b))"
definition OpLessThanOrEqual :: handler where
  "OpLessThanOrEqual = with_num2 (\<lambda>a b. push_flag (a \<le> b))"
definition OpGreaterThanOrEqual :: handler where
  "OpGreaterThanOrEqual = with_num2 (\<lambda>a b. push_flag (a \<ge> b))"
definition OpMin :: handler where
  "OpMin = with_num2 (\<lambda>a b. push_number (min a b))"
definition OpMax :: handler where
  "OpMax = with_num2 (\<lambda>a b. push_number (max a b))"
definition OpWithin :: handler where
  "OpWithin = with_num3 (\<lambda>x l u. push_flag (x \<ge> l \<and> x < u))"

text \<open>\<^verbatim>\<open>OpUnknown166\<close> and \<^verbatim>\<open>OpUnknown167\<close>.\<close>

definition OpUnknown166_167 :: handler where
  "OpUnknown166_167 vm = Err InvalidOpcode"

section \<open>Signature checks\<close>

definition check_pub_key_encoding :: "u8 list \<Rightarrow> unit script_result" where
  "check_pub_key_encoding key = (if length key = 32 then Ok () else Err PubKeyFormat)"

definition check_pub_key_encoding_ecdsa :: "u8 list \<Rightarrow> unit script_result" where
  "check_pub_key_encoding_ecdsa key = (if length key = 33 then Ok () else Err PubKeyFormat)"

text \<open>The cache lookup, and on a miss the verification and the insertion of its verdict.\<close>

definition verify_cached ::
    "script_env \<Rightarrow> SigCacheKey \<Rightarrow> bool \<Rightarrow> TxScriptEngine \<Rightarrow> bool \<times> TxScriptEngine" where
  "verify_cached env key verdict vm = (case cache_get key (sig_cache vm) of
     (Some valid, c) \<Rightarrow> (valid, vm\<lparr>sig_cache := c\<rparr>)
   | (None, c) \<Rightarrow> (verdict, vm\<lparr>sig_cache := cache_insert (gen_range env) key verdict c\<rparr>))"

definition take_sig_op :: handler where
  "take_sig_op vm = try_bind (consume_sig_op (runtime_sig_op_counter vm))
     (\<lambda>c. Ok (vm\<lparr>runtime_sig_op_counter := c\<rparr>))"

definition check_schnorr_signature ::
    "script_env \<Rightarrow> SigHashType \<Rightarrow> u8 list \<Rightarrow> u8 list \<Rightarrow> TxScriptEngine
      \<Rightarrow> (bool \<times> TxScriptEngine) script_result" where
  "check_schnorr_signature env hash_type key sig vm0 =
     try_bind (take_sig_op vm0) (\<lambda>vm.
     case script_source vm of
       StandAloneScripts _ \<Rightarrow> Err NotATransactionInput
     | TxInput tx _ idx _ _ \<Rightarrow>
         if length sig \<noteq> 64 then Err (SigLength (length sig))
         else try_bind (check_pub_key_encoding key) (\<lambda>_.
         case xonly_key_from_slice env key of
           None \<Rightarrow> Err InvalidSignature
         | Some pk \<Rightarrow>
         case schnorr_signature_from_slice env sig of
           None \<Rightarrow> Err InvalidSignature
         | Some sg \<Rightarrow>
         case calc_schnorr_signature_hash (signing_hash env) tx idx hash_type (reused_values vm) of
           None \<Rightarrow> None
         | Some (sig_hash, rv) \<Rightarrow>
             let msg = hash_bytes sig_hash;
                 key = \<lparr>signature = Secp256k1 sg, pub_key = SchnorrKey pk, message = msg\<rparr>
             in Ok (verify_cached env key (schnorr_verify env sg msg pk)
                  (vm\<lparr>reused_values := rv\<rparr>))))"

definition check_ecdsa_signature ::
    "script_env \<Rightarrow> SigHashType \<Rightarrow> u8 list \<Rightarrow> u8 list \<Rightarrow> TxScriptEngine
      \<Rightarrow> (bool \<times> TxScriptEngine) script_result" where
  "check_ecdsa_signature env hash_type key sig vm0 =
     try_bind (take_sig_op vm0) (\<lambda>vm.
     case script_source vm of
       StandAloneScripts _ \<Rightarrow> Err NotATransactionInput
     | TxInput tx _ idx _ _ \<Rightarrow>
         if length sig \<noteq> 64 then Err (SigLength (length sig))
         else try_bind (check_pub_key_encoding_ecdsa key) (\<lambda>_.
         case ecdsa_key_from_slice env key of
           None \<Rightarrow> Err InvalidSignature
         | Some pk \<Rightarrow>
         case ecdsa_signature_from_compact env sig of
           None \<Rightarrow> Err InvalidSignature
         | Some sg \<Rightarrow>
         case calc_ecdsa_signature_hash (signing_hash env) (signing_hash_ecdsa env)
                tx idx hash_type (reused_values vm) of
           None \<Rightarrow> None
         | Some (sig_hash, rv) \<Rightarrow>
             let msg = hash_bytes sig_hash;
                 key = \<lparr>signature = Ecdsa sg, pub_key = EcdsaKey pk, message = msg\<rparr>
             in Ok (verify_cached env key (ecdsa_verify env sg msg pk)
                  (vm\<lparr>reused_values := rv\<rparr>))))"

definition check_signature ::
    "script_env \<Rightarrow> bool \<Rightarrow> SigHashType \<Rightarrow> u8 list \<Rightarrow> u8 list \<Rightarrow> TxScriptEngine
      \<Rightarrow> (bool \<times> TxScriptEngine) script_result" where
  "check_signature env ecdsa hash_type key sig vm =
     (if ecdsa then check_ecdsa_signature env hash_type key sig vm
      else check_schnorr_signature env hash_type key sig vm)"

section \<open>Multiple signatures\<close>

text \<open>
  The inner loop: keys are consumed until one verifies the signature (the rest of the keys is
  returned) or fewer keys than signatures remain (\<open>None\<close>, the outer loop fails).
\<close>

fun match_signature ::
    "script_env \<Rightarrow> bool \<Rightarrow> SigHashType \<Rightarrow> u8 list \<Rightarrow> nat \<Rightarrow> u8 list list \<Rightarrow> TxScriptEngine
      \<Rightarrow> (u8 list list option \<times> TxScriptEngine) script_result" where
  "match_signature env ecdsa hash_type sig remaining [] vm =
     (if 0 < remaining then Ok (None, vm) else None)"
| "match_signature env ecdsa hash_type sig remaining (key # keys) vm =
     (if length (key # keys) < remaining then Ok (None, vm)
      else try_bind (check_signature env ecdsa hash_type key sig vm) (\<lambda>(valid, vm').
        if valid then Ok (Some keys, vm')
        else match_signature env ecdsa hash_type sig remaining keys vm'))"

text \<open>The outer loop over the signatures; the result is the flag \<open>failed\<close>.\<close>

fun match_signatures ::
    "script_env \<Rightarrow> bool \<Rightarrow> nat \<Rightarrow> nat \<Rightarrow> u8 list list \<Rightarrow> u8 list list \<Rightarrow> TxScriptEngine
      \<Rightarrow> (bool \<times> TxScriptEngine) script_result" where
  "match_signatures env ecdsa num_sigs sig_idx [] keys vm = Ok (False, vm)"
| "match_signatures env ecdsa num_sigs sig_idx (sg # sigs) keys vm =
     (if sg = [] then Ok (True, vm)
      else case SigHashType_from_u8 (last sg) of
        None \<Rightarrow> Err (InvalidSigHashType (last sg))
      | Some hash_type \<Rightarrow>
          try_bind (match_signature env ecdsa hash_type (butlast sg) (num_sigs - sig_idx) keys vm)
            (\<lambda>(rest, vm'). case rest of
               None \<Rightarrow> Ok (True, vm')
             | Some keys' \<Rightarrow> match_signatures env ecdsa num_sigs (Suc sig_idx) sigs keys' vm'))"

text \<open>\<open>split_off\<close> of the last \<open>n\<close> items, or the error of the source.\<close>

definition split_off_items :: "nat \<Rightarrow> TxScriptEngine \<Rightarrow> (u8 list list \<times> TxScriptEngine) script_result" where
  "split_off_items n vm =
     (let s = dstack vm
      in if length s \<ge> n
         then Ok (drop (length s - n) s, vm\<lparr>dstack := take (length s - n) s\<rparr>)
         else Err (InvalidStackOperation n (length s)))"

definition op_check_multisig_schnorr_or_ecdsa :: "script_env \<Rightarrow> bool \<Rightarrow> handler" where
  "op_check_multisig_schnorr_or_ecdsa env ecdsa = with_i32 (\<lambda>num_keys vm.
     if num_keys < 0 then Err InvalidPubKeyCount
     else if num_keys > MAX_PUB_KEYS_PER_MUTLTISIG then Err InvalidPubKeyCount
     else try_bind (add_ops_count num_keys vm) (\<lambda>vm.
       if num_ops vm > MAX_OPS_PER_SCRIPT then Err (TooManyOperations MAX_OPS_PER_SCRIPT)
       else try_bind (split_off_items (nat num_keys) vm) (\<lambda>(pub_keys, vm).
         with_i32 (\<lambda>num_sigs vm.
           if num_sigs < 0 then Err InvalidSignatureCount
           else if num_sigs > num_keys then Err InvalidSignatureCount
           else try_bind (split_off_items (nat num_sigs) vm) (\<lambda>(signatures, vm).
             try_bind (match_signatures env ecdsa (nat num_sigs) 0 signatures pub_keys vm)
               (\<lambda>(failed, vm).
                 if failed \<and> list_ex (\<lambda>sg. sg \<noteq> []) signatures then Err NullFail
                 else push_bool (\<not> failed) vm))) vm)))"

section \<open>Crypto opcodes\<close>

definition OpSHA256 :: "script_env \<Rightarrow> handler" where
  "OpSHA256 env = with_raw1 (\<lambda>x vm. Ok (vm\<lparr>dstack := dstack vm @ [sha256 env x]\<rparr>))"

definition OpCheckMultiSigECDSA :: "script_env \<Rightarrow> handler" where
  "OpCheckMultiSigECDSA env = op_check_multisig_schnorr_or_ecdsa env True"

definition OpBlake2b :: "script_env \<Rightarrow> handler" where
  "OpBlake2b env = with_raw1 (\<lambda>x vm. Ok (vm\<lparr>dstack := dstack vm @ [blake2b env x]\<rparr>))"

definition OpCheckSigECDSA :: "script_env \<Rightarrow> handler" where
  "OpCheckSigECDSA env = with_raw2 (\<lambda>sig key vm.
     if sig = [] then push_bool False vm
     else case SigHashType_from_u8 (last sig) of
       None \<Rightarrow> Err (InvalidSigHashType (last sig))
     | Some hash_type \<Rightarrow>
         try_bind (check_ecdsa_signature env hash_type key (butlast sig) vm)
           (\<lambda>(valid, vm). push_bool valid vm))"

definition OpCheckSig :: "script_env \<Rightarrow> handler" where
  "OpCheckSig env = with_raw2 (\<lambda>sig key vm.
     if sig = [] then push_bool False vm
     else case SigHashType_from_u8 (last sig) of
       None \<Rightarrow> Err (InvalidSigHashType (last sig))
     | Some hash_type \<Rightarrow>
         try_bind (check_schnorr_signature env hash_type key (butlast sig) vm)
           (\<lambda>(valid, vm). push_bool valid vm))"

definition OpCheckSigVerify :: "script_env \<Rightarrow> handler" where
  "OpCheckSigVerify env vm0 = try_bind (OpCheckSig env vm0)
     (with_bool (\<lambda>valid vm. if valid then Ok vm else Err VerifyError))"

definition OpCheckMultiSig :: "script_env \<Rightarrow> handler" where
  "OpCheckMultiSig env = op_check_multisig_schnorr_or_ecdsa env False"

definition OpCheckMultiSigVerify :: "script_env \<Rightarrow> handler" where
  "OpCheckMultiSigVerify env vm0 = try_bind (OpCheckMultiSig env vm0)
     (with_bool (\<lambda>valid vm. if valid then Ok vm else Err VerifyError))"

section \<open>Lock times\<close>

text \<open>\<open>resize(8, 0)\<close> and \<open>u64::from_le_bytes\<close> on at most eight bytes.\<close>

definition padded_u64 :: "u8 list \<Rightarrow> u64" where
  "padded_u64 bytes = from_le (bytes @ replicate (8 - length bytes) 0)"

definition OpCheckLockTimeVerify :: handler where
  "OpCheckLockTimeVerify vm0 = (case script_source vm0 of
     StandAloneScripts _ \<Rightarrow> Err InvalidSource
   | TxInput tx input _ _ _ \<Rightarrow> with_raw1 (\<lambda>lock_time_bytes vm.
       if length lock_time_bytes > 8 then Err NumberTooBig
       else let stack_lock_time = padded_u64 lock_time_bytes; tx_lock_time = lock_time (ptx tx)
       in if \<not> ((tx_lock_time < LOCK_TIME_THRESHOLD \<and> stack_lock_time < LOCK_TIME_THRESHOLD)
               \<or> (tx_lock_time \<ge> LOCK_TIME_THRESHOLD \<and> stack_lock_time \<ge> LOCK_TIME_THRESHOLD))
          then Err UnsatisfiedLockTime
          else if stack_lock_time > tx_lock_time then Err UnsatisfiedLockTime
          else if input_sequence input = MAX_TX_IN_SEQUENCE_NUM then Err UnsatisfiedLockTime
          else Ok vm) vm0)"

definition OpCheckSequenceVerify :: handler where
  "OpCheckSequenceVerify vm0 = (case script_source vm0 of
     StandAloneScripts _ \<Rightarrow> Err InvalidSource
   | TxInput tx input _ _ _ \<Rightarrow> with_raw1 (\<lambda>sequence_bytes vm.
       if length sequence_bytes > 8 then Err NumberTooBig
       else let stack_sequence = padded_u64 sequence_bytes
       in if stack_sequence AND SEQUENCE_LOCK_TIME_DISABLED \<noteq> 0 then Ok vm
          else if input_sequence input AND SEQUENCE_LOCK_TIME_DISABLED \<noteq> 0
          then Err UnsatisfiedLockTime
          else if stack_sequence AND SEQUENCE_LOCK_TIME_MASK
                  > input_sequence input AND SEQUENCE_LOCK_TIME_MASK
          then Err UnsatisfiedLockTime
          else Ok vm) vm0)"

section \<open>Introspection opcodes\<close>

definition OpTxVersion :: handler where
  "OpTxVersion vm = Err OpcodeReserved"

definition OpTxInputCount :: handler where
  "OpTxInputCount vm = (case script_source vm of
     TxInput tx _ _ _ _ \<Rightarrow> push_number (usize_as_i64 (length (tx_inputs (ptx tx)))) vm
   | StandAloneScripts _ \<Rightarrow> Err InvalidSource)"

definition OpTxOutputCount :: handler where
  "OpTxOutputCount vm = (case script_source vm of
     TxInput tx _ _ _ _ \<Rightarrow> push_number (usize_as_i64 (length (tx_outputs (ptx tx)))) vm
   | StandAloneScripts _ \<Rightarrow> Err InvalidSource)"

text \<open>\<^verbatim>\<open>OpTxLockTime\<close>, \<^verbatim>\<open>OpTxSubnetId\<close>, \<^verbatim>\<open>OpTxGas\<close> and \<^verbatim>\<open>OpTxPayload\<close>.\<close>

definition OpTxReserved :: handler where
  "OpTxReserved vm = Err OpcodeReserved"

definition OpTxInputIndex :: handler where
  "OpTxInputIndex vm = (case script_source vm of
     TxInput _ _ idx _ _ \<Rightarrow> push_number (usize_as_i64 idx) vm
   | StandAloneScripts _ \<Rightarrow> Err InvalidSource)"

text \<open>\<^verbatim>\<open>OpOutpointTxId\<close>, \<^verbatim>\<open>OpOutpointIndex\<close>, \<^verbatim>\<open>OpTxInputScriptSig\<close> and \<^verbatim>\<open>OpTxInputSeq\<close>.\<close>

definition OpInputReserved :: handler where
  "OpInputReserved vm = Err OpcodeReserved"

text \<open>\<open>usize::try_from(idx).ok().and_then(|idx| xs.get(idx))\<close>.\<close>

definition get_i32 :: "int \<Rightarrow> 'a list \<Rightarrow> 'a option" where
  "get_i32 idx xs = (if 0 \<le> idx \<and> nat idx < length xs then Some (xs ! nat idx) else None)"

text \<open>\<open>ScriptPublicKey::to_bytes\<close> of the trait \<open>SpkEncoding\<close>: the version is big endian.\<close>

definition spk_to_bytes :: "ScriptPublicKey \<Rightarrow> u8 list" where
  "spk_to_bytes spk = rev (to_le 2 (spk_version spk)) @ spk_script spk"

definition push_amount :: "u64 \<Rightarrow> handler" where
  "push_amount v vm = (if in_i64 (uint v) then push_number (uint v) vm else Err NumberTooBig)"

definition OpTxInputAmount :: handler where
  "OpTxInputAmount vm0 = (case script_source vm0 of
     TxInput tx _ _ _ _ \<Rightarrow> with_i32 (\<lambda>idx vm. case get_i32 idx (entries tx) of
       None \<Rightarrow> Err (InvalidInputIndex idx (length (tx_inputs (ptx tx))))
     | Some utxo \<Rightarrow> push_amount (amount utxo) vm) vm0
   | StandAloneScripts _ \<Rightarrow> Err InvalidSource)"

definition OpTxInputSpk :: handler where
  "OpTxInputSpk vm0 = (case script_source vm0 of
     TxInput tx _ _ _ _ \<Rightarrow> with_i32 (\<lambda>idx vm. case get_i32 idx (entries tx) of
       None \<Rightarrow> Err (InvalidInputIndex idx (length (tx_inputs (ptx tx))))
     | Some utxo \<Rightarrow> push_data (spk_to_bytes (entry_spk utxo)) vm) vm0
   | StandAloneScripts _ \<Rightarrow> Err InvalidSource)"

text \<open>\<^verbatim>\<open>OpTxInputBlockDaaScore\<close> and \<^verbatim>\<open>OpTxInputIsCoinbase\<close>.\<close>

definition OpUtxoReserved :: handler where
  "OpUtxoReserved vm = Err OpcodeReserved"

text \<open>The bound that the two errors below report is the number of inputs, as in the source.\<close>

definition OpTxOutputAmount :: handler where
  "OpTxOutputAmount vm0 = (case script_source vm0 of
     TxInput tx _ _ _ _ \<Rightarrow> with_i32 (\<lambda>idx vm. case get_i32 idx (tx_outputs (ptx tx)) of
       None \<Rightarrow> Err (InvalidOutputIndex idx (length (tx_inputs (ptx tx))))
     | Some out \<Rightarrow> push_amount (out_value out) vm) vm0
   | StandAloneScripts _ \<Rightarrow> Err InvalidSource)"

definition OpTxOutputSpk :: handler where
  "OpTxOutputSpk vm0 = (case script_source vm0 of
     TxInput tx _ _ _ _ \<Rightarrow> with_i32 (\<lambda>idx vm. case get_i32 idx (tx_outputs (ptx tx)) of
       None \<Rightarrow> Err (InvalidOutputIndex idx (length (tx_inputs (ptx tx))))
     | Some out \<Rightarrow> push_data (spk_to_bytes (out_spk out)) vm) vm0
   | StandAloneScripts _ \<Rightarrow> Err InvalidSource)"

text \<open>\<^verbatim>\<open>OpUnknown196\<close> to \<^verbatim>\<open>OpInvalidOpCode\<close>.\<close>

definition OpUnknown :: handler where
  "OpUnknown vm = Err InvalidOpcode"

section \<open>Dispatch\<close>

text \<open>
  The table of \<^verbatim>\<open>opcode_list!\<close>: the codes ascend, so a range is its upper bound.
\<close>

definition OpCode_execute :: "script_env \<Rightarrow> OpCode \<Rightarrow> handler" where
  "OpCode_execute env self =
     (let c = op_code self in
      if c = 0x00 then OpFalse
      else if c \<le> 0x4e then OpData self
      else if c = 0x4f then Op1Negate
      else if c = 0x50 then OpReserved
      else if c \<le> 0x60 then OpSmall self
      else if c = 0x61 then OpNop
      else if c = 0x62 then OpVer
      else if c = 0x63 then OpIf
      else if c = 0x64 then OpNotIf
      else if c \<le> 0x66 then OpVerIf
      else if c = 0x67 then OpElse
      else if c = 0x68 then OpEndIf
      else if c = 0x69 then OpVerify
      else if c = 0x6a then OpReturn
      else if c = 0x6b then OpToAltStack
      else if c = 0x6c then OpFromAltStack
      else if c = 0x6d then Op2Drop
      else if c = 0x6e then Op2Dup
      else if c = 0x6f then Op3Dup
      else if c = 0x70 then Op2Over
      else if c = 0x71 then Op2Rot
      else if c = 0x72 then Op2Swap
      else if c = 0x73 then OpIfDup
      else if c = 0x74 then OpDepth
      else if c = 0x75 then OpDrop
      else if c = 0x76 then OpDup
      else if c = 0x77 then OpNip
      else if c = 0x78 then OpOver
      else if c = 0x79 then OpPick
      else if c = 0x7a then OpRoll
      else if c = 0x7b then OpRot
      else if c = 0x7c then OpSwap
      else if c = 0x7d then OpTuck
      else if c \<le> 0x81 then OpSplice
      else if c = 0x82 then OpSize
      else if c \<le> 0x86 then OpBitwise
      else if c = 0x87 then OpEqual
      else if c = 0x88 then OpEqualVerify
      else if c \<le> 0x8a then OpReserved12
      else if c = 0x8b then Op1Add
      else if c = 0x8c then Op1Sub
      else if c \<le> 0x8e then Op2MulDiv
      else if c = 0x8f then OpNegate
      else if c = 0x90 then OpAbs
      else if c = 0x91 then OpNot
      else if c = 0x92 then Op0NotEqual
      else if c = 0x93 then OpAdd
      else if c = 0x94 then OpSub
      else if c \<le> 0x99 then OpMulDivMod
      else if c = 0x9a then OpBoolAnd
      else if c = 0x9b then OpBoolOr
      else if c = 0x9c then OpNumEqual
      else if c = 0x9d then OpNumEqualVerify
      else if c = 0x9e then OpNumNotEqual
      else if c = 0x9f then OpLessThan
      else if c = 0xa0 then OpGreaterThan
      else if c = 0xa1 then OpLessThanOrEqual
      else if c = 0xa2 then OpGreaterThanOrEqual
      else if c = 0xa3 then OpMin
      else if c = 0xa4 then OpMax
      else if c = 0xa5 then OpWithin
      else if c \<le> 0xa7 then OpUnknown166_167
      else if c = 0xa8 then OpSHA256 env
      else if c = 0xa9 then OpCheckMultiSigECDSA env
      else if c = 0xaa then OpBlake2b env
      else if c = 0xab then OpCheckSigECDSA env
      else if c = 0xac then OpCheckSig env
      else if c = 0xad then OpCheckSigVerify env
      else if c = 0xae then OpCheckMultiSig env
      else if c = 0xaf then OpCheckMultiSigVerify env
      else if c = 0xb0 then OpCheckLockTimeVerify
      else if c = 0xb1 then OpCheckSequenceVerify
      else if c = 0xb2 then OpTxVersion
      else if c = 0xb3 then OpTxInputCount
      else if c = 0xb4 then OpTxOutputCount
      else if c \<le> 0xb8 then OpTxReserved
      else if c = 0xb9 then OpTxInputIndex
      else if c \<le> 0xbd then OpInputReserved
      else if c = 0xbe then OpTxInputAmount
      else if c = 0xbf then OpTxInputSpk
      else if c \<le> 0xc1 then OpUtxoReserved
      else if c = 0xc2 then OpTxOutputAmount
      else if c = 0xc3 then OpTxOutputSpk
      else OpUnknown)"

end
