(* ===== verification/Script_Builder.thy ===== *)
theory Script_Builder
  imports Script_Opcodes
begin

text \<open>
  The script builder of \<^verbatim>\<open>src/crypto/txscript/src/script_builder.rs\<close>.  A builder is the script
  built so far; each operation returns the longer script or an error that leaves it as it was.
\<close>

section \<open>Operations\<close>

datatype ScriptBuilderError =
    OpCodeRejected u8
  | OpCodesRejected nat
  | DataRejected nat
  | ElementExceedsMaxSize nat
  | IntegerRejected int
  | BuilderSerialization SerializationError

record ScriptBuilder =
  script :: "u8 list"

definition ScriptBuilder_new :: ScriptBuilder where
  "ScriptBuilder_new = \<lparr>script = []\<rparr>"

definition drain :: "ScriptBuilder \<Rightarrow> u8 list \<times> ScriptBuilder" where
  "drain self = (script self, self\<lparr>script := []\<rparr>)"

definition add_op :: "ScriptBuilder \<Rightarrow> u8 \<Rightarrow> ScriptBuilderError + ScriptBuilder" where
  "add_op self opcode =
     (if length (script self) \<ge> MAX_SCRIPTS_SIZE then Inl (OpCodeRejected opcode)
      else Inr (self\<lparr>script := script self @ [opcode]\<rparr>))"

definition add_ops :: "ScriptBuilder \<Rightarrow> u8 list \<Rightarrow> ScriptBuilderError + ScriptBuilder" where
  "add_ops self opcodes =
     (if length (script self) + length opcodes > MAX_SCRIPTS_SIZE
      then Inl (OpCodesRejected (length opcodes))
      else Inr (self\<lparr>script := script self @ opcodes\<rparr>))"

definition canonical_data_size :: "u8 list \<Rightarrow> nat" where
  "canonical_data_size data =
     (let data_len = length data
      in if data_len = 0 \<or> (data_len = 1 \<and> (data ! 0 \<le> OP_SMALL_INT_MAX_VAL \<or> data ! 0 = OP_1_NEGATE_VAL))
         then 1
         else data_len +
           (if data_len \<le> unat OP_DATA_MAX_VAL then 1
            else if data_len \<le> 255 then 2
            else if data_len \<le> 65535 then 3
            else 5))"

definition add_raw_data :: "ScriptBuilder \<Rightarrow> u8 list \<Rightarrow> ScriptBuilder" where
  "add_raw_data self data =
     (let data_len = length data
      in if data_len = 0 then self\<lparr>script := script self @ [0x00]\<rparr>
         else if data_len = 1 \<and> data ! 0 \<ge> OP_SMALL_INT_MIN_VAL \<and> data ! 0 \<le> OP_SMALL_INT_MAX_VAL
         then self\<lparr>script := script self @ [(0x51 - 1) + data ! 0]\<rparr>
         else if data_len = 1 \<and> data ! 0 = OP_1_NEGATE_VAL
         then self\<lparr>script := script self @ [0x4f]\<rparr>
         else let prefix =
                (if data_len \<le> unat OP_DATA_MAX_VAL then [(OP_DATA_MIN_VAL - 1) + word_of_nat data_len]
                 else if data_len \<le> 255 then [0x4c, word_of_nat data_len]
                 else if data_len \<le> 65535 then 0x4d # to_le 2 (word_of_nat data_len :: u16)
                 else 0x4e # to_le 4 (word_of_nat data_len :: u32))
              in self\<lparr>script := script self @ prefix @ data\<rparr>)"

definition add_data :: "ScriptBuilder \<Rightarrow> u8 list \<Rightarrow> ScriptBuilderError + ScriptBuilder" where
  "add_data self data =
     (let data_size = canonical_data_size data
      in if length (script self) + data_size > MAX_SCRIPTS_SIZE then Inl (DataRejected data_size)
         else if length data > MAX_SCRIPT_ELEMENT_SIZE then Inl (ElementExceedsMaxSize (length data))
         else Inr (add_raw_data self data))"

text \<open>\<open>add_i64\<close> may panic only where \<open>serialize_i64\<close> does, which it never does on an \<^verbatim>\<open>i64\<close>.\<close>

definition add_i64 :: "ScriptBuilder \<Rightarrow> int \<Rightarrow> (ScriptBuilderError, ScriptBuilder) outcome" where
  "add_i64 self val =
     (if length (script self) + 1 > MAX_SCRIPTS_SIZE then Err (IntegerRejected val)
      else if val = 0 then Ok (self\<lparr>script := script self @ [0x00]\<rparr>)
      else if val = - 1 \<or> (1 \<le> val \<and> val \<le> 16)
      then Ok (self\<lparr>script := script self @ [word_of_int ((0x51 - 1) + val)]\<rparr>)
      else case serialize_num val of
        None \<Rightarrow> None
      | Some (Inl e) \<Rightarrow> Err (BuilderSerialization e)
      | Some (Inr bytes) \<Rightarrow> Some (add_data self bytes))"

definition add_i64_min :: "ScriptBuilder \<Rightarrow> (ScriptBuilderError, ScriptBuilder) outcome" where
  "add_i64_min self = (case serialize_sized 9 (- (2 ^ 63)) of
     Some (Inr bytes) \<Rightarrow> Some (add_data self bytes)
   | _ \<Rightarrow> None)"

text \<open>The trailing zero bytes of the little-endian form are trimmed.\<close>

definition add_u64 :: "ScriptBuilder \<Rightarrow> u64 \<Rightarrow> ScriptBuilderError + ScriptBuilder" where
  "add_u64 self val =
     (let buffer = to_le 8 val;
          trimmed_size = 8 - length (takeWhile (\<lambda>x. x = 0) (rev buffer));
          trimmed = take trimmed_size buffer
      in add_data self trimmed)"

definition add_lock_time :: "ScriptBuilder \<Rightarrow> u64 \<Rightarrow> ScriptBuilderError + ScriptBuilder" where
  "add_lock_time self t = add_u64 self t"

definition add_sequence :: "ScriptBuilder \<Rightarrow> u64 \<Rightarrow> ScriptBuilderError + ScriptBuilder" where
  "add_sequence self seq = add_u64 self seq"

section \<open>Parsing inverts serialization\<close>

definition opcode_ok :: "OpCode \<Rightarrow> bool" where
  "opcode_ok op = (opcode_new (op_code op) (op_data op) = Inr op)"

lemma parse_script_Nil [simp]: "parse_script [] = []"
  by (subst parse_script.simps) (simp add: deserialize_next_opcode_def)

lemma parse_script_Cons:
  "parse_script (c # it) = (case opcode_deserialize c it of (r, rest) \<Rightarrow> r # parse_script rest)"
  by (subst parse_script.simps) (simp add: deserialize_next_opcode_def)

lemma opcode_deserialize_serialize:
  assumes "opcode_ok op"
  shows "\<exists>bytes. opcode_serialize op = op_code op # bytes
    \<and> opcode_deserialize (op_code op) (bytes @ rest) = (Inr op, rest)"
proof (cases "op_length (op_code op)")
  case (Fixed n)
  with assms have "length (op_data op) = n - 1"
    by (auto simp: opcode_ok_def opcode_new_def split: if_splits)
  with Fixed assms show ?thesis
    by (simp add: opcode_serialize_def opcode_deserialize_def opcode_ok_def)
next
  case (Prefixed w)
  with assms have "length (op_data op) \<le> 256 ^ w - 1"
    by (auto simp: opcode_ok_def opcode_new_def split: if_splits)
  then have "length (op_data op) < 256 ^ w" by (simp add: le_diff_conv2 Suc_le_eq)
  then have "le_to_nat (nat_to_le w (length (op_data op))) = length (op_data op)"
    by (simp add: le_to_nat_nat_to_le)
  with Prefixed show ?thesis
    by (simp add: opcode_serialize_def opcode_deserialize_def Let_def)
qed

lemma parse_serialize:
  assumes "opcode_ok op"
  shows "parse_script (opcode_serialize op @ rest) = Inr op # parse_script rest"
proof -
  obtain bytes where "opcode_serialize op = op_code op # bytes"
    "opcode_deserialize (op_code op) (bytes @ rest) = (Inr op, rest)"
    using opcode_deserialize_serialize [OF assms] by blast
  then show ?thesis by (simp add: parse_script_Cons)
qed

lemma opcode_deserialize_append:
  assumes "opcode_deserialize c it = (Inr op, rest)"
  shows "opcode_deserialize c (it @ ext) = (Inr op, rest @ ext)"
proof (cases "op_length c")
  case (Fixed n)
  with assms have "n - 1 \<le> length it"
    by (auto simp: opcode_deserialize_def opcode_new_def split: if_splits)
  with Fixed assms show ?thesis by (auto simp: opcode_deserialize_def)
next
  case (Prefixed w)
  with assms have "w \<le> length it" "le_to_nat (take w it) \<le> length it - w"
    by (auto simp: opcode_deserialize_def Let_def min_def split: if_splits)
  with Prefixed assms show ?thesis
    by (auto simp: opcode_deserialize_def Let_def)
qed

lemma parse_append:
  "list_all (\<lambda>r. \<not> isl r) (parse_script s) \<Longrightarrow> parse_script (s @ t) = parse_script s @ parse_script t"
proof (induction s rule: parse_script.induct)
  case (1 s)
  show ?case
  proof (cases s)
    case Nil
    then show ?thesis by simp
  next
    case (Cons c it)
    obtain r rest where d: "opcode_deserialize c it = (r, rest)" by fastforce
    with Cons 1(2) obtain op where r: "r = Inr op" and rest: "list_all (\<lambda>r. \<not> isl r) (parse_script rest)"
      by (cases r) (auto simp: parse_script_Cons)
    have "parse_script (rest @ t) = parse_script rest @ parse_script t"
      using 1(1) [of "(r, rest)" r rest] d Cons rest by (simp add: deserialize_next_opcode_def)
    then show ?thesis
      using opcode_deserialize_append [of c it op rest t] d r Cons by (simp add: parse_script_Cons)
  qed
qed

section \<open>The opcode a push becomes\<close>

definition push_op :: "u8 list \<Rightarrow> OpCode" where
  "push_op data =
     (if data = [] then \<lparr>op_code = 0x00, op_data = []\<rparr>
      else if length data = 1 \<and> 1 \<le> data ! 0 \<and> data ! 0 \<le> 16
      then \<lparr>op_code = 0x50 + data ! 0, op_data = []\<rparr>
      else if data = [0x81] then \<lparr>op_code = 0x4f, op_data = []\<rparr>
      else \<lparr>op_code = (if length data \<le> 75 then word_of_nat (length data)
                      else if length data \<le> 255 then 0x4c
                      else if length data \<le> 65535 then 0x4d else 0x4e),
            op_data = data\<rparr>)"

text \<open>The four shapes of a push, as facts on the code of its opcode.\<close>

lemma push_op_cases:
  assumes "length data < 2 ^ 32"
  obtains (Empty) "data = []" "push_op data = \<lparr>op_code = 0x00, op_data = []\<rparr>"
  | (Small) b where "data = [b]" "1 \<le> b" "b \<le> 16" "push_op data = \<lparr>op_code = 0x50 + b, op_data = []\<rparr>"
  | (Negate) "data = [0x81]" "push_op data = \<lparr>op_code = 0x4f, op_data = []\<rparr>"
  | (Short) "data \<noteq> []" "length data \<le> 75" "length data = 1 \<Longrightarrow> \<not> (1 \<le> data ! 0 \<and> data ! 0 \<le> 16)"
      "length data = 1 \<Longrightarrow> data ! 0 \<noteq> 0x81" "push_op data = \<lparr>op_code = word_of_nat (length data), op_data = data\<rparr>"
  | (Push1) "data \<noteq> []" "75 < length data" "length data \<le> 255" "push_op data = \<lparr>op_code = 0x4c, op_data = data\<rparr>"
  | (Push2) "data \<noteq> []" "255 < length data" "length data \<le> 65535" "push_op data = \<lparr>op_code = 0x4d, op_data = data\<rparr>"
  | (Push4) "data \<noteq> []" "65535 < length data" "length data < 2 ^ 32" "push_op data = \<lparr>op_code = 0x4e, op_data = data\<rparr>"
proof -
  consider "data = []" | b where "data = [b]" "1 \<le> b" "b \<le> 16" | "data = [0x81]"
    | "data \<noteq> []" "length data = 1 \<Longrightarrow> data ! 0 \<noteq> 0x81" "length data = 1 \<Longrightarrow> \<not> (1 \<le> data ! 0 \<and> data ! 0 \<le> 16)"
    by (cases data; cases "tl data") auto
  then show thesis
  proof cases
    case 4
    then have "data \<noteq> [0x81]" by auto
    with 4 have op: "push_op data = \<lparr>op_code = (if length data \<le> 75 then word_of_nat (length data)
        else if length data \<le> 255 then 0x4c else if length data \<le> 65535 then 0x4d else 0x4e),
        op_data = data\<rparr>" by (simp add: push_op_def)
    consider "length data \<le> 75" | "75 < length data" "length data \<le> 255"
      | "255 < length data" "length data \<le> 65535" | "65535 < length data" by linarith
    then show thesis
    proof cases
      case 1 with op 4 Short show thesis by simp
    next
      case 2 with op 4(1) Push1 show thesis by simp
    next
      case 3 with op 4(1) Push2 show thesis by simp
    next
      case big: 4 with op 4(1) Push4 assms show thesis by simp
    qed
  qed (use Empty Small Negate in \<open>auto simp: push_op_def\<close>)
qed

lemma unat_small_code: "b \<le> 16 \<Longrightarrow> unat (0x50 + b :: u8) = 80 + unat b"
  by (simp add: unat_word_ariths word_le_nat_alt)

lemma op_length_simps:
  "op_length 0 = Fixed 1" "op_length 0x4f = Fixed 1" "op_length 0x4c = Prefixed 1"
  "op_length 0x4d = Prefixed 2" "op_length 0x4e = Prefixed 4"
  by (simp_all add: op_length_def)

lemma op_length_small: "1 \<le> b \<Longrightarrow> b \<le> 16 \<Longrightarrow> op_length (0x50 + b) = Fixed 1"
  using unat_small_code [of b]
  by (auto simp: op_length_def word_le_nat_alt word_unat_eq_iff)

lemma unat_data_code: "n \<le> 75 \<Longrightarrow> unat (word_of_nat n :: u8) = n"
  by (simp add: unat_of_nat)

lemma op_length_data:
  "0 < n \<Longrightarrow> n \<le> 75 \<Longrightarrow> op_length (word_of_nat n) = Fixed (n + 1)"
  using unat_data_code [of n] by (simp add: op_length_def word_le_nat_alt)

lemmas op_length_push = op_length_simps op_length_small op_length_data

lemma opcode_ok_push: "length data < 2 ^ 32 \<Longrightarrow> opcode_ok (push_op data)"
  by (erule push_op_cases) (simp_all add: opcode_ok_def opcode_new_def op_length_push)

lemma add_raw_data_push:
  "length data < 2 ^ 32 \<Longrightarrow>
   script (add_raw_data self data) = script self @ opcode_serialize (push_op data)"
  by (erule push_op_cases)
    (simp_all add: add_raw_data_def opcode_serialize_def op_length_push script_constants Let_def to_le_def
      unat_of_nat)

lemma check_minimal_push:
  assumes "length data < 65535" "0 < op_code (push_op data)" "op_code (push_op data) \<le> 0x4e"
  shows "check_minimal_data_push (push_op data) = Ok ()"
proof -
  have "length data < 2 ^ 32" using assms(1) by simp
  then show ?thesis
  proof (cases rule: push_op_cases)
    case (Small b)
    then have "op_code (push_op data) > 0x4e"
      using unat_small_code [of b] by (simp add: word_le_nat_alt word_less_nat_alt)
    with assms(3) show ?thesis by simp
  qed (use assms unat_data_code in \<open>auto simp: check_minimal_data_push_def script_constants Let_def\<close>)
qed

lemma in_i64I: "0 \<le> x \<Longrightarrow> x < 2 ^ 63 \<Longrightarrow> in_i64 x"
  by (simp add: in_i64_def)

lemma serialize_small:
  assumes "0 < unat b" "unat b < 128"
  shows "serialize_num (int (unat b)) = Ok [b]"
proof -
  have "deserialize_sized 8 [b] = Ok (int (unat b))"
    using assms by (subst deserialize_sized_Ok_iff)
      (auto simp: minimal_def magnitude_def num_value_def unat_and_7f word_unat_eq_iff)
  moreover have "int (unat b) < 128" using assms(2) by linarith
  then have "in_i64 (int (unat b))" by (intro in_i64I) simp_all
  ultimately show ?thesis by (simp add: serialize_num_def serialize_sized_iff)
qed

lemma serialize_minus_one: "serialize_num (- 1) = Ok [0x81]"
proof -
  have "deserialize_sized 8 [0x81] = Ok (- 1)"
    by (subst deserialize_sized_Ok_iff)
      (auto simp: minimal_def magnitude_def num_value_def unat_and_7f word_unat_eq_iff)
  then show ?thesis by (simp add: serialize_num_def serialize_sized_iff in_i64_def)
qed

lemma execute_push:
  assumes "length data < 2 ^ 32"
  shows "OpCode_execute env (push_op data) vm = push_data data vm"
  using assms
proof (cases rule: push_op_cases)
  case (Small b)
  let ?c = "0x50 + b"
  have c: "unat ?c = 80 + unat b" using unat_small_code Small by simp
  have b: "1 \<le> unat b" "unat b \<le> 16" using Small by (simp_all add: word_le_nat_alt)
  have "OpCode_execute env \<lparr>op_code = ?c, op_data = []\<rparr> = OpSmall \<lparr>op_code = ?c, op_data = []\<rparr>"
    using c b by (simp add: OpCode_execute_def word_le_nat_alt word_unat_eq_iff)
  moreover have "uint ?c - 0x50 = int (unat b)" using arg_cong [OF c, of int] by simp
  moreover have "serialize_num (int (unat b)) = Ok [b]" using b by (intro serialize_small) auto
  ultimately show ?thesis using Small
    by (simp add: OpSmall_def push_number_def on_dstack_def push_item_def push_data_def)
next
  case Negate
  then show ?thesis
    by (simp add: OpCode_execute_def serialize_minus_one Op1Negate_def push_number_def on_dstack_def push_item_def push_data_def)
next
  case Short
  then have "op_code (push_op data) \<noteq> 0" "op_code (push_op data) \<le> 0x4e"
    using unat_data_code [of "length data"] by (auto simp: word_le_nat_alt word_unat_eq_iff)
  with Short show ?thesis by (simp add: OpCode_execute_def OpData_def)
qed (simp_all add: OpCode_execute_def OpFalse_def OpData_def push_data_def)

section \<open>Properties\<close>

lemma add_data_Inr:
  "add_data self data = Inr self' \<Longrightarrow> length data \<le> 520 \<and> self' = add_raw_data self data"
  by (auto simp: add_data_def Let_def script_constants split: if_splits)

lemma is_push_push_op: "length data < 2 ^ 32 \<Longrightarrow> is_push_opcode (push_op data)"
proof (erule push_op_cases)
  fix b assume "1 \<le> b" "b \<le> (16 :: u8)" "push_op data = \<lparr>op_code = 0x50 + b, op_data = []\<rparr>"
  then show "is_push_opcode (push_op data)"
    using unat_small_code [of b] by (simp add: is_push_opcode_def script_constants word_le_nat_alt)
qed (use unat_data_code in \<open>auto simp: is_push_opcode_def script_constants word_le_nat_alt\<close>)

lemma length_push_op_data: "length (op_data (push_op data)) \<le> length data"
  by (simp add: push_op_def)

text \<open>
  C16: What the builder pushes is what the engine reads.  After a successful \<open>add_data\<close> on a script
  that parses, the longer script parses to the same opcodes and one more; that opcode is a push,
  passes the element size limit and the minimal push check, and its execution puts exactly the
  given bytes on the stack.
\<close>

theorem builder_push_executes:
  assumes "add_data self data = Inr self'"
    and "list_all (\<lambda>r. \<not> isl r) (parse_script (script self))"
  shows "\<exists>op. parse_script (script self') = parse_script (script self) @ [Inr op]
    \<and> is_push_opcode op \<and> length (op_data op) \<le> MAX_SCRIPT_ELEMENT_SIZE
    \<and> (0 < op_code op \<and> op_code op \<le> 0x4e \<longrightarrow> check_minimal_data_push op = Ok ())
    \<and> (\<forall>env vm. OpCode_execute env op vm = Ok (vm\<lparr>dstack := dstack vm @ [data]\<rparr>))"
proof (intro exI [of _ "push_op data"] conjI)
  from assms(1) have len: "length data \<le> 520" and self': "self' = add_raw_data self data"
    by (simp_all add: add_data_Inr)
  then have lt: "length data < 2 ^ 32" by simp
  have "parse_script (script self') = parse_script (script self) @ parse_script (opcode_serialize (push_op data))"
    unfolding self' add_raw_data_push [OF lt] using assms(2) by (rule parse_append)
  also have "parse_script (opcode_serialize (push_op data)) = [Inr (push_op data)]"
    using parse_serialize [OF opcode_ok_push [OF lt], of "[]"] by simp
  finally show "parse_script (script self') = parse_script (script self) @ [Inr (push_op data)]" .
  show "is_push_opcode (push_op data)" using lt by (rule is_push_push_op)
  show "length (op_data (push_op data)) \<le> MAX_SCRIPT_ELEMENT_SIZE"
    using length_push_op_data [of data] len by (simp add: MAX_SCRIPT_ELEMENT_SIZE_def)
  show "0 < op_code (push_op data) \<and> op_code (push_op data) \<le> 0x4e \<longrightarrow>
      check_minimal_data_push (push_op data) = Ok ()"
    using check_minimal_push [of data] len by simp
  show "\<forall>env vm. OpCode_execute env (push_op data) vm = Ok (vm\<lparr>dstack := dstack vm @ [data]\<rparr>)"
    by (simp add: execute_push [OF lt] push_data_def)
qed

theorem builder_push_executes_witness:
  "\<exists>op. parse_script [0x51, 0x02, 0xab, 0xcd] = parse_script [0x51] @ [Inr op] \<and> is_push_opcode op"
proof -
  have parse: "parse_script [0x51] = [Inr \<lparr>op_code = 0x51, op_data = []\<rparr>]"
    by (simp add: parse_script_Cons opcode_deserialize_def op_length_def opcode_new_def)
  have "add_data \<lparr>script = [0x51]\<rparr> [0xab, 0xcd] = Inr \<lparr>script = [0x51, 0x02, 0xab, 0xcd]\<rparr>"
    by (simp add: add_data_def add_raw_data_def canonical_data_size_def script_constants)
  from builder_push_executes [OF this] show ?thesis by (auto simp: parse)
qed

text \<open>
  C17: The size estimate of the builder is exact for every data but the single zero byte.  For
  that push \<open>canonical_data_size\<close> answers one byte and the encoding takes two, so a script one byte
  short of the limit accepts it and ends one byte above the limit.
\<close>

theorem canonical_size_exact_but_zero:
  assumes "length data < 2 ^ 32"
  shows "(length (script (add_raw_data self data)) = length (script self) + canonical_data_size data
      \<longleftrightarrow> data \<noteq> [0])
    \<and> add_data \<lparr>script = replicate (MAX_SCRIPTS_SIZE - 1) 0x51\<rparr> [0]
      = Inr \<lparr>script = replicate (MAX_SCRIPTS_SIZE - 1) 0x51 @ [0x01, 0x00]\<rparr>"
proof
  have "length (opcode_serialize (push_op data)) = canonical_data_size data \<longleftrightarrow> data \<noteq> [0]"
    using assms
  proof (cases rule: push_op_cases)
    case Short
    then obtain b ds where data: "data = b # ds" by (cases data) auto
    have "0 < length data" using Short(1) by simp
    show ?thesis
    proof (cases "ds = []")
      case True
      then have "\<not> (1 \<le> b \<and> b \<le> 16)" "b \<noteq> 0x81" using Short(3,4) data by auto
      then have "b \<le> 16 \<longleftrightarrow> b = 0"
        by (auto simp: word_le_nat_alt word_unat_eq_iff)
      then show ?thesis
        using True data Short \<open>b \<noteq> 0x81\<close>
        by (simp add: opcode_serialize_def op_length_def canonical_data_size_def script_constants)
    next
      case False
      then show ?thesis
        using data Short op_length_data [OF \<open>0 < length data\<close>]
        by (simp add: opcode_serialize_def canonical_data_size_def script_constants)
    qed
  qed (auto simp: opcode_serialize_def canonical_data_size_def op_length_push script_constants)
  then show "length (script (add_raw_data self data)) = length (script self) + canonical_data_size data
      \<longleftrightarrow> data \<noteq> [0]"
    by (simp add: add_raw_data_push [OF assms])
  show "add_data \<lparr>script = replicate (MAX_SCRIPTS_SIZE - 1) 0x51\<rparr> [0]
      = Inr \<lparr>script = replicate (MAX_SCRIPTS_SIZE - 1) 0x51 @ [0x01, 0x00]\<rparr>"
    by (simp add: add_data_def add_raw_data_def canonical_data_size_def script_constants)
qed

theorem canonical_size_exact_but_zero_witness:
  "canonical_data_size [0] = 1 \<and> length (script (add_raw_data ScriptBuilder_new [0])) \<noteq> 1
   \<and> length (script (add_raw_data ScriptBuilder_new [0x2a])) = canonical_data_size [0x2a]"
  using canonical_size_exact_but_zero [of "[0]" ScriptBuilder_new]
    canonical_size_exact_but_zero [of "[0x2a]" ScriptBuilder_new]
  by (simp add: ScriptBuilder_new_def canonical_data_size_def script_constants)

end
