(* ===== verification/Addresses.thy ===== *)
theory Addresses
  imports Rust_Prelude
begin

unbundle bit_operations_syntax

text \<open>
  Addresses and their checksummed text form: \<^verbatim>\<open>src/crypto/addresses/src/lib.rs\<close> and
  \<^verbatim>\<open>bech32.rs\<close>.  A \<^verbatim>\<open>str\<close> is its UTF-8 byte string.  The prefixes and the payload check that exist
  only in test builds, serde, borsh and the wasm bindings are not modelled.
\<close>

section \<open>Types\<close>

datatype AddressError =
    InvalidPrefix "u8 list"
  | MissingPrefix
  | InvalidVersion u8
  | InvalidVersionString "u8 list"
  | DecodingError u8
  | BadChecksumSize
  | BadChecksum
  | BadPayload
  | InvalidAddress
  | InvalidAddressArray
  | WASM "u8 list"

datatype Prefix = Mainnet | Testnet | Simnet | Devnet

datatype Version = PubKey | PubKeyECDSA | ScriptHash

record Address =
  addr_prefix :: Prefix
  addr_version :: Version
  addr_payload :: "u8 list"

text \<open>\<^verbatim>\<open>keryx\<close>, \<^verbatim>\<open>keryxtest\<close>, \<^verbatim>\<open>keryxsim\<close>, \<^verbatim>\<open>keryxdev\<close>.\<close>

fun prefix_as_str :: "Prefix \<Rightarrow> u8 list" where
  "prefix_as_str Mainnet = [107, 101, 114, 121, 120]"
| "prefix_as_str Testnet = [107, 101, 114, 121, 120, 116, 101, 115, 116]"
| "prefix_as_str Simnet = [107, 101, 114, 121, 120, 115, 105, 109]"
| "prefix_as_str Devnet = [107, 101, 114, 121, 120, 100, 101, 118]"

definition prefix_try_from :: "u8 list \<Rightarrow> AddressError + Prefix" where
  "prefix_try_from p =
     (if p = prefix_as_str Mainnet then Inr Mainnet
      else if p = prefix_as_str Testnet then Inr Testnet
      else if p = prefix_as_str Simnet then Inr Simnet
      else if p = prefix_as_str Devnet then Inr Devnet
      else Inl (InvalidPrefix p))"

fun public_key_len :: "Version \<Rightarrow> nat" where
  "public_key_len PubKey = 32"
| "public_key_len PubKeyECDSA = 33"
| "public_key_len ScriptHash = 32"

fun version_as_u8 :: "Version \<Rightarrow> u8" where
  "version_as_u8 PubKey = 0"
| "version_as_u8 PubKeyECDSA = 1"
| "version_as_u8 ScriptHash = 8"

definition version_try_from :: "u8 \<Rightarrow> AddressError + Version" where
  "version_try_from v =
     (if v = 0 then Inr PubKey else if v = 1 then Inr PubKeyECDSA
      else if v = 8 then Inr ScriptHash else Inl (InvalidVersion v))"

text \<open>The assertion on the payload length panics.\<close>

definition Address_new :: "Prefix \<Rightarrow> Version \<Rightarrow> u8 list \<Rightarrow> Address option" where
  "Address_new prefix version payload =
     (if length payload = public_key_len version
      then Some \<lparr>addr_prefix = prefix, addr_version = version, addr_payload = payload\<rparr> else None)"

section \<open>The character set\<close>

text \<open>\<^verbatim>\<open>qpzry9x8gf2tvdw0s3jn54khce6mua7l\<close>.\<close>

definition CHARSET :: "u8 list" where
  "CHARSET = [113, 112, 122, 114, 121, 57, 120, 56, 103, 102, 50, 116, 118, 100, 119, 48,
     115, 51, 106, 110, 53, 52, 107, 104, 99, 101, 54, 109, 117, 97, 55, 108]"

definition REV_CHARSET :: "u8 list" where
  "REV_CHARSET = replicate 48 100 @ [15, 100, 10, 17, 21, 20, 26, 30, 7, 5]
     @ replicate 39 100
     @ [29, 100, 24, 13, 25, 9, 8, 23, 100, 18, 22, 31, 27, 19, 100, 1, 0, 3, 16, 11, 28, 12, 14,
        6, 4, 2]"

section \<open>Checksum\<close>

definition polymod_step :: "u64 \<Rightarrow> u8 \<Rightarrow> u64" where
  "polymod_step c d =
     (let c0 = drop_bit 35 c;
          c = push_bit 5 (c AND 0x07ffffffff) XOR ucast d;
          c = (if c0 AND 0x01 \<noteq> 0 then c XOR 0x98f2bc8e61 else c);
          c = (if c0 AND 0x02 \<noteq> 0 then c XOR 0x79b76d99e2 else c);
          c = (if c0 AND 0x04 \<noteq> 0 then c XOR 0xf33e5fb3c4 else c);
          c = (if c0 AND 0x08 \<noteq> 0 then c XOR 0xae2eabe2a8 else c);
          c = (if c0 AND 0x10 \<noteq> 0 then c XOR 0x1e4f43e470 else c)
      in c)"

definition polymod :: "u8 list \<Rightarrow> u64" where
  "polymod vals = foldl polymod_step 1 vals XOR 1"

definition checksum :: "u8 list \<Rightarrow> u8 list \<Rightarrow> u64" where
  "checksum payload prefix = polymod (prefix @ [0] @ payload @ replicate 8 0)"

section \<open>Regrouping bits\<close>

text \<open>
  The two conversions of the source are the same loop with the widths exchanged.  Its state is the
  output array, the next index, the buffer and the number of bits in it; a write past the array
  panics.  The widths are five and eight; the test that a width is positive is there for termination.
\<close>

type_synonym conv_state = "u8 list \<times> nat \<times> u16 \<times> nat"

function conv_emit :: "nat \<Rightarrow> conv_state \<Rightarrow> conv_state option" where
  "conv_emit w (out, idx, buff, bits) =
     (if 0 < w \<and> bits \<ge> w
      then (let bits' = bits - w
            in if idx < length out
               then conv_emit w (out[idx := ucast (drop_bit bits' buff)], idx + 1,
                      buff AND (push_bit bits' 1 - 1), bits')
               else None)
      else Some (out, idx, buff, bits))"
  by pat_completeness auto

termination
  by (relation "measure (\<lambda>(w, _, _, _, bits). bits)") auto

declare conv_emit.simps [simp del]

definition conv_symbol :: "nat \<Rightarrow> nat \<Rightarrow> conv_state \<Rightarrow> u8 \<Rightarrow> conv_state option" where
  "conv_symbol w_in w_out s c = (case s of (out, idx, buff, bits) \<Rightarrow>
     conv_emit w_out (out, idx, push_bit w_in buff OR ucast c, bits + w_in))"

definition conv8to5 :: "u8 list \<Rightarrow> u8 list option" where
  "conv8to5 payload =
     (let padding = (if length payload mod 5 = 0 then 0 else 1)
      in case foldM (conv_symbol 8 5) (replicate (length payload * 8 div 5 + padding) 0, 0, 0, 0)
                payload of
           None \<Rightarrow> None
         | Some (five_bit, current_idx, buff, bits) \<Rightarrow>
             if bits > 0
             then (if current_idx < length five_bit
                   then Some (five_bit[current_idx := ucast (push_bit (5 - bits) buff)])
                   else None)
             else Some five_bit)"

definition conv5to8 :: "u8 list \<Rightarrow> u8 list option" where
  "conv5to8 payload =
     (case foldM (conv_symbol 5 8) (replicate (length payload * 5 div 8) 0, 0, 0, 0) payload of
        None \<Rightarrow> None
      | Some (eight_bit, _, _, _) \<Rightarrow> Some eight_bit)"

section \<open>Text form\<close>

definition fivebit_prefix :: "Prefix \<Rightarrow> u8 list" where
  "fivebit_prefix p = map (\<lambda>c. c AND 0x1f) (prefix_as_str p)"

text \<open>\<open>to_be_bytes()[3..]\<close> of a \<^verbatim>\<open>u64\<close>.\<close>

definition checksum_bytes :: "u64 \<Rightarrow> u8 list" where
  "checksum_bytes c = drop 3 (rev (to_le 8 c))"

definition encode_payload :: "Address \<Rightarrow> u8 list option" where
  "encode_payload a = do {
     fivebit_payload \<leftarrow> conv8to5 (version_as_u8 (addr_version a) # addr_payload a);
     let c = checksum fivebit_payload (fivebit_prefix (addr_prefix a));
     tail \<leftarrow> conv8to5 (checksum_bytes c);
     let symbols = fivebit_payload @ tail;
     if list_all (\<lambda>x. unat x < length CHARSET) symbols
     then Some (map (\<lambda>x. CHARSET ! unat x) symbols) else None
   }"

text \<open>The symbol of a character, \<open>100\<close> for a character outside the set or the table.\<close>

definition rev_char :: "u8 \<Rightarrow> u8" where
  "rev_char b = (if unat b < length REV_CHARSET then REV_CHARSET ! unat b else 100)"

definition decode_payload :: "Prefix \<Rightarrow> u8 list \<Rightarrow> (AddressError, Address) outcome" where
  "decode_payload prefix address =
     (case find (\<lambda>b. rev_char b = 100) address of
        Some b \<Rightarrow> Err (DecodingError b)
      | None \<Rightarrow>
          if length address < 8 then Err BadPayload
          else let address_u5 = map rev_char address;
                   payload_u5 = take (length address - 8) address_u5;
                   checksum_u5 = drop (length address - 8) address_u5
          in case conv5to8 checksum_u5 of
               None \<Rightarrow> None
             | Some bytes \<Rightarrow>
                 if length (replicate 3 0 @ bytes) \<noteq> 8 then Err BadChecksumSize
                 else if checksum payload_u5 (fivebit_prefix prefix)
                         \<noteq> from_le (rev (replicate 3 0 @ bytes))
                 then Err BadChecksum
                 else case conv5to8 payload_u5 of
                        None \<Rightarrow> None
                      | Some [] \<Rightarrow> None
                      | Some (v # payload) \<Rightarrow>
                          (case version_try_from v of
                             Inl e \<Rightarrow> Err e
                           | Inr version \<Rightarrow> map_option Inr (Address_new prefix version payload)))"

text \<open>The string conversions; \<^verbatim>\<open>58\<close> is the colon.\<close>

definition address_to_string :: "Address \<Rightarrow> u8 list option" where
  "address_to_string a =
     map_option (\<lambda>payload. prefix_as_str (addr_prefix a) @ [58] @ payload) (encode_payload a)"

definition split_once :: "u8 \<Rightarrow> u8 list \<Rightarrow> (u8 list \<times> u8 list) option" where
  "split_once c s = (if c \<in> set s
     then Some (takeWhile (\<lambda>b. b \<noteq> c) s, tl (dropWhile (\<lambda>b. b \<noteq> c) s)) else None)"

definition address_try_from :: "u8 list \<Rightarrow> (AddressError, Address) outcome" where
  "address_try_from val = (case split_once 58 val of
     None \<Rightarrow> Err MissingPrefix
   | Some (prefix, payload) \<Rightarrow>
       (case prefix_try_from prefix of
          Inl e \<Rightarrow> Err e
        | Inr p \<Rightarrow> decode_payload p payload))"

end
