(* ===== verification/Script_Class.thy ===== *)
theory Script_Class
  imports Script_Builder Addresses
begin

text \<open>
  The standard scripts: \<^verbatim>\<open>src/crypto/txscript/src/script_class.rs\<close>, \<^verbatim>\<open>standard.rs\<close> and
  \<^verbatim>\<open>standard/multisig.rs\<close>.  The names of two script classes that are also address versions carry a
  prefix.  An \<open>assert_eq!\<close> that fails panics.
\<close>

section \<open>Script classes\<close>

definition MAX_SCRIPT_PUBLIC_KEY_VERSION :: u16 where
  "MAX_SCRIPT_PUBLIC_KEY_VERSION = 0"

datatype ScriptClass = NonStandard | ClassPubKey | ClassPubKeyECDSA | ClassScriptHash | CsvPubKey

definition is_pay_to_pubkey :: "u8 list \<Rightarrow> bool" where
  "is_pay_to_pubkey spk = (length spk = 34 \<and> spk ! 0 = 0x20 \<and> spk ! 33 = 0xac)"

definition is_pay_to_pubkey_ecdsa :: "u8 list \<Rightarrow> bool" where
  "is_pay_to_pubkey_ecdsa spk = (length spk = 35 \<and> spk ! 0 = 0x21 \<and> spk ! 34 = 0xab)"

definition is_pay_to_script_hash :: "u8 list \<Rightarrow> bool" where
  "is_pay_to_script_hash spk =
     (length spk = 35 \<and> spk ! 0 = 0xaa \<and> spk ! 1 = 0x20 \<and> spk ! 34 = 0x87)"

definition is_csv_pay_to_pubkey :: "u8 list \<Rightarrow> bool" where
  "is_csv_pay_to_pubkey spk =
     (let len = length spk
      in if len < 37 \<or> len > 44 then False
         else let seq_len = unat (spk ! 0)
              in if seq_len = 0 \<or> seq_len > 8 then False
                 else if len \<noteq> seq_len + 36 then False
                 else spk ! (seq_len + 1) = 0xb1 \<and> spk ! (seq_len + 2) = 0x20 \<and> spk ! (len - 1) = 0xac)"

definition ScriptClass_from_script :: "ScriptPublicKey \<Rightarrow> ScriptClass" where
  "ScriptClass_from_script spk =
     (if spk_version spk = MAX_SCRIPT_PUBLIC_KEY_VERSION
      then (if is_pay_to_pubkey (spk_script spk) then ClassPubKey
            else if is_pay_to_pubkey_ecdsa (spk_script spk) then ClassPubKeyECDSA
            else if is_pay_to_script_hash (spk_script spk) then ClassScriptHash
            else if is_csv_pay_to_pubkey (spk_script spk) then CsvPubKey
            else NonStandard)
      else NonStandard)"

fun ScriptClass_as_str :: "ScriptClass \<Rightarrow> string" where
  "ScriptClass_as_str NonStandard = ''nonstandard''"
| "ScriptClass_as_str ClassPubKey = ''pubkey''"
| "ScriptClass_as_str ClassPubKeyECDSA = ''pubkeyecdsa''"
| "ScriptClass_as_str ClassScriptHash = ''scripthash''"
| "ScriptClass_as_str CsvPubKey = ''csvpubkey''"

fun ScriptClass_version :: "ScriptClass \<Rightarrow> u16" where
  "ScriptClass_version NonStandard = 0"
| "ScriptClass_version ClassPubKey = MAX_SCRIPT_PUBLIC_KEY_VERSION"
| "ScriptClass_version ClassPubKeyECDSA = MAX_SCRIPT_PUBLIC_KEY_VERSION"
| "ScriptClass_version ClassScriptHash = MAX_SCRIPT_PUBLIC_KEY_VERSION"
| "ScriptClass_version CsvPubKey = MAX_SCRIPT_PUBLIC_KEY_VERSION"

definition ScriptClass_from_str :: "string \<Rightarrow> string + ScriptClass" where
  "ScriptClass_from_str s =
     (if s = ''nonstandard'' then Inr NonStandard
      else if s = ''pubkey'' then Inr ClassPubKey
      else if s = ''pubkeyecdsa'' then Inr ClassPubKeyECDSA
      else if s = ''scripthash'' then Inr ClassScriptHash
      else if s = ''csvpubkey'' then Inr CsvPubKey
      else Inl s)"

fun ScriptClass_from_version :: "Version \<Rightarrow> ScriptClass" where
  "ScriptClass_from_version PubKey = ClassPubKey"
| "ScriptClass_from_version PubKeyECDSA = ClassPubKeyECDSA"
| "ScriptClass_from_version ScriptHash = ClassScriptHash"

section \<open>Standard scripts\<close>

definition pay_to_pub_key :: "u8 list \<Rightarrow> u8 list option" where
  "pay_to_pub_key address_payload =
     (if length address_payload = 32 then Some (0x20 # address_payload @ [0xac]) else None)"

definition pay_to_pub_key_ecdsa :: "u8 list \<Rightarrow> u8 list option" where
  "pay_to_pub_key_ecdsa address_payload =
     (if length address_payload = 33 then Some (0x21 # address_payload @ [0xab]) else None)"

definition pay_to_script_hash :: "u8 list \<Rightarrow> u8 list option" where
  "pay_to_script_hash script_hash =
     (if length script_hash = 32 then Some (0xaa # 0x20 # script_hash @ [0x87]) else None)"

definition pay_to_address_script :: "Address \<Rightarrow> ScriptPublicKey option" where
  "pay_to_address_script a = do {
     s \<leftarrow> (case addr_version a of
             PubKey \<Rightarrow> pay_to_pub_key (addr_payload a)
           | PubKeyECDSA \<Rightarrow> pay_to_pub_key_ecdsa (addr_payload a)
           | ScriptHash \<Rightarrow> pay_to_script_hash (addr_payload a));
     Some (ScriptPublicKey_from_vec (ScriptClass_version (ScriptClass_from_version (addr_version a))) s)
   }"

definition pay_to_script_hash_script :: "script_env \<Rightarrow> u8 list \<Rightarrow> ScriptPublicKey option" where
  "pay_to_script_hash_script env redeem_script =
     map_option (ScriptPublicKey_from_vec (ScriptClass_version ClassScriptHash))
       (pay_to_script_hash (blake2b env redeem_script))"

definition pay_to_script_hash_signature_script ::
    "u8 list \<Rightarrow> u8 list \<Rightarrow> ScriptBuilderError + u8 list" where
  "pay_to_script_hash_signature_script redeem_script sig =
     res_bind (add_data ScriptBuilder_new redeem_script) (\<lambda>b. Inr (sig @ fst (drain b)))"

definition extract_script_pub_key_address ::
    "ScriptPublicKey \<Rightarrow> Prefix \<Rightarrow> (TxScriptError, Address) outcome" where
  "extract_script_pub_key_address spk prefix =
     (let class = ScriptClass_from_script spk; s = spk_script spk
      in if spk_version spk > ScriptClass_version class then Err PubKeyFormat
         else case class of
           NonStandard \<Rightarrow> Err PubKeyFormat
         | ClassPubKey \<Rightarrow> map_option Inr (Address_new prefix PubKey (take 32 (drop 1 s)))
         | ClassPubKeyECDSA \<Rightarrow> map_option Inr (Address_new prefix PubKeyECDSA (take 33 (drop 1 s)))
         | ClassScriptHash \<Rightarrow> map_option Inr (Address_new prefix ScriptHash (take 32 (drop 2 s)))
         | CsvPubKey \<Rightarrow> Err PubKeyFormat)"

section \<open>Multisig redeem scripts\<close>

datatype MultisigCreateError =
    ErrTooManyRequiredSigs
  | MultisigBuilderError ScriptBuilderError
  | EmptyKeys

text \<open>\<open>builder.op(..)?\<close> inside a function that returns a \<open>MultisigCreateError\<close>.\<close>

definition lift_builder ::
    "(ScriptBuilderError, 'a) outcome \<Rightarrow> (MultisigCreateError, 'a) outcome" where
  "lift_builder r = map_option (map_sum MultisigBuilderError id) r"

fun add_keys :: "ScriptBuilder \<Rightarrow> u8 list list \<Rightarrow> (MultisigCreateError, ScriptBuilder) outcome" where
  "add_keys b [] = Ok b"
| "add_keys b (k # ks) = try_bind (lift_builder (Some (add_data b k))) (\<lambda>b'. add_keys b' ks)"

text \<open>
  The keys are an iterator; its \<open>size_hint\<close> upper bound, when it has one, is the parameter \<open>hint\<close>.
  The two functions of the source differ in the key length and the last opcode.
\<close>

definition multisig_script ::
    "u8 \<Rightarrow> nat option \<Rightarrow> u8 list list \<Rightarrow> nat \<Rightarrow> (MultisigCreateError, u8 list) outcome" where
  "multisig_script final_op hint pub_keys required =
     (if pred_option (\<lambda>upper. upper < required) hint \<and> hint \<noteq> None then Err ErrTooManyRequiredSigs
      else try_bind (lift_builder (add_i64 ScriptBuilder_new (usize_as_i64 required))) (\<lambda>b.
        try_bind (add_keys b pub_keys) (\<lambda>b.
        if length pub_keys < required then Err ErrTooManyRequiredSigs
        else if pub_keys = [] then Err EmptyKeys
        else try_bind (lift_builder (add_i64 b (int (length pub_keys)))) (\<lambda>b.
          try_bind (lift_builder (Some (add_op b final_op))) (\<lambda>b. Ok (fst (drain b)))))))"

definition multisig_redeem_script ::
    "nat option \<Rightarrow> u8 list list \<Rightarrow> nat \<Rightarrow> (MultisigCreateError, u8 list) outcome" where
  "multisig_redeem_script hint pub_keys required = multisig_script 0xae hint pub_keys required"

definition multisig_redeem_script_ecdsa ::
    "nat option \<Rightarrow> u8 list list \<Rightarrow> nat \<Rightarrow> (MultisigCreateError, u8 list) outcome" where
  "multisig_redeem_script_ecdsa hint pub_keys required = multisig_script 0xa9 hint pub_keys required"

section \<open>Properties\<close>

lemma length_address_payload:
  "Address_new p v payload = Some a \<Longrightarrow>
   length payload = public_key_len v \<and> a = \<lparr>addr_prefix = p, addr_version = v, addr_payload = payload\<rparr>"
  by (auto simp: Address_new_def split: if_splits)

text \<open>
  C18: Addresses survive the trip through a script.  For every address that \<open>Address::new\<close> builds,
  \<open>pay_to_address_script\<close> returns a script whose class is the class of the address version, and
  extracting the address of that script gives the address back.
\<close>

theorem address_script_roundtrip:
  assumes "Address_new prefix version payload = Some a"
  shows "\<exists>spk. pay_to_address_script a = Some spk
    \<and> ScriptClass_from_script spk = ScriptClass_from_version version
    \<and> extract_script_pub_key_address spk prefix = Ok a"
proof -
  from assms have len: "length payload = public_key_len version"
    and a: "a = \<lparr>addr_prefix = prefix, addr_version = version, addr_payload = payload\<rparr>"
    by (simp_all add: length_address_payload)
  note defs = pay_to_address_script_def pay_to_pub_key_def pay_to_pub_key_ecdsa_def
    pay_to_script_hash_def ScriptClass_from_script_def is_pay_to_pubkey_def
    is_pay_to_pubkey_ecdsa_def is_pay_to_script_hash_def extract_script_pub_key_address_def
    ScriptPublicKey_from_vec_def MAX_SCRIPT_PUBLIC_KEY_VERSION_def Address_new_def
  show ?thesis
    using len by (cases version) (simp_all add: a defs nth_append)
qed

theorem address_script_roundtrip_witness:
  "\<exists>spk. pay_to_address_script
       \<lparr>addr_prefix = Mainnet, addr_version = ScriptHash, addr_payload = replicate 32 7\<rparr> = Some spk
     \<and> ScriptClass_from_script spk = ClassScriptHash
     \<and> extract_script_pub_key_address spk Mainnet
       = Ok \<lparr>addr_prefix = Mainnet, addr_version = ScriptHash, addr_payload = replicate 32 7\<rparr>"
  using address_script_roundtrip [of Mainnet ScriptHash "replicate 32 7"]
  by (simp add: Address_new_def)

end
