(* ===== verification/Script_Engine.thy ===== *)
theory Script_Engine
  imports Script_Class
begin

text \<open>
  The script engine: \<^verbatim>\<open>src/crypto/txscript/src/lib.rs\<close>.  An execution threads the engine record; an
  error drops it, as no caller reads the engine after an error.  The static counters of signature
  operations and the predicates on scripts of the same file are at the end.
\<close>

section \<open>Construction\<close>

definition TxScriptEngine_new ::
    "SigHashReusedValues \<Rightarrow> (SigCacheKey, bool) Cache \<Rightarrow> TxScriptEngine" where
  "TxScriptEngine_new reused cache =
     \<lparr>dstack = [], astack = [], script_source = StandAloneScripts [], reused_values = reused,
      sig_cache = cache, cond_stack = [], num_ops = 0,
      runtime_sig_op_counter = RuntimeSigOpCounter_new (- 1)\<rparr>"

text \<open>The assertion on the input index panics.\<close>

definition from_transaction_input ::
    "PopulatedTransaction \<Rightarrow> TransactionInput \<Rightarrow> nat \<Rightarrow> UtxoEntry \<Rightarrow> SigHashReusedValues
      \<Rightarrow> (SigCacheKey, bool) Cache \<Rightarrow> TxScriptEngine option" where
  "from_transaction_input tx input input_idx utxo_entry reused cache =
     (let is_p2sh = is_pay_to_script_hash (spk_script (entry_spk utxo_entry))
      in if input_idx < length (tx_inputs (ptx tx))
         then Some \<lparr>dstack = [], astack = [],
           script_source = TxInput tx input input_idx utxo_entry is_p2sh, reused_values = reused,
           sig_cache = cache, cond_stack = [], num_ops = 0,
           runtime_sig_op_counter = RuntimeSigOpCounter_new (sig_op_count input)\<rparr>
         else None)"

definition from_script ::
    "u8 list \<Rightarrow> SigHashReusedValues \<Rightarrow> (SigCacheKey, bool) Cache \<Rightarrow> TxScriptEngine" where
  "from_script s reused cache =
     \<lparr>dstack = [], astack = [], script_source = StandAloneScripts [s], reused_values = reused,
      sig_cache = cache, cond_stack = [], num_ops = 0,
      runtime_sig_op_counter = RuntimeSigOpCounter_new (- 1)\<rparr>"

section \<open>Execution\<close>

definition execute_opcode :: "script_env \<Rightarrow> OpCode \<Rightarrow> handler" where
  "execute_opcode env opcode vm0 =
     try_bind
       (if \<not> is_push_opcode opcode
        then try_bind (add_ops_count 1 vm0) (\<lambda>vm.
          if num_ops vm > MAX_OPS_PER_SCRIPT then Err (TooManyOperations MAX_OPS_PER_SCRIPT) else Ok vm)
        else if length (op_data opcode) > MAX_SCRIPT_ELEMENT_SIZE
        then Err (ElementTooBig (length (op_data opcode)) MAX_SCRIPT_ELEMENT_SIZE)
        else Ok vm0)
       (\<lambda>vm. if is_executing vm \<or> is_conditional opcode
             then try_bind
               (if 0 < op_code opcode \<and> op_code opcode \<le> 0x4e then check_minimal_data_push opcode
                else Ok ())
               (\<lambda>_. OpCode_execute env opcode vm)
             else Ok vm)"

text \<open>The body of the loop over the opcodes of a script.\<close>

definition execute_parsed :: "script_env \<Rightarrow> bool \<Rightarrow> TxScriptError + OpCode \<Rightarrow> handler" where
  "execute_parsed env verify_only_push parsed vm0 = (case parsed of
     Inl e \<Rightarrow> Err e
   | Inr opcode \<Rightarrow>
       if is_disabled opcode then Err OpcodeDisabled
       else if always_illegal opcode then Err OpcodeReserved
       else if verify_only_push \<and> \<not> is_push_opcode opcode then Err SignatureScriptNotPushOnly
       else try_bind (execute_opcode env opcode vm0) (\<lambda>vm.
         let combined_size = length (astack vm) + length (dstack vm)
         in if combined_size > MAX_STACK_SIZE then Err (StackSizeExceeded combined_size MAX_STACK_SIZE)
            else Ok vm))"

fun execute_all :: "script_env \<Rightarrow> bool \<Rightarrow> (TxScriptError + OpCode) list \<Rightarrow> handler" where
  "execute_all env verify_only_push [] vm = Ok vm"
| "execute_all env verify_only_push (p # ps) vm =
     try_bind (execute_parsed env verify_only_push p vm) (execute_all env verify_only_push ps)"

definition execute_script :: "script_env \<Rightarrow> u8 list \<Rightarrow> bool \<Rightarrow> handler" where
  "execute_script env s verify_only_push vm0 =
     try_bind (execute_all env verify_only_push (parse_script s) vm0) (\<lambda>vm.
       if cond_stack vm \<noteq> [] then Err ErrUnbalancedConditional
       else Ok (vm\<lparr>astack := [], num_ops := 0\<rparr>))"

definition check_error_condition :: "bool \<Rightarrow> handler" where
  "check_error_condition final_script vm =
     (if final_script \<and> length (dstack vm) > 1 then Err (CleanStack (length (dstack vm) - 1))
      else if final_script \<and> dstack vm = [] then Err EmptyStack
      else with_bool (\<lambda>v vm. if v then Ok vm else Err EvalFalse) vm)"

text \<open>
  The loop over the non-empty scripts with their index; the second component of the state is
  \<open>saved_stack\<close>.
\<close>

definition run_script ::
    "script_env \<Rightarrow> bool \<Rightarrow> nat \<times> u8 list \<Rightarrow> TxScriptEngine \<times> Stack option
      \<Rightarrow> (TxScriptEngine \<times> Stack option) script_result" where
  "run_script env is_p2sh ids st = (case (ids, st) of ((idx, s), (vm, saved_stack)) \<Rightarrow>
     (let verify_only_push = (idx = 0 \<and> (case script_source vm of TxInput _ _ _ _ _ \<Rightarrow> True | _ \<Rightarrow> False));
          saved = (if is_p2sh \<and> idx = 1 then Some (dstack vm) else saved_stack)
      in try_bind (execute_script env s verify_only_push vm) (\<lambda>vm'. Ok (vm', saved))))"

fun run_scripts ::
    "script_env \<Rightarrow> bool \<Rightarrow> (nat \<times> u8 list) list \<Rightarrow> TxScriptEngine \<times> Stack option
      \<Rightarrow> (TxScriptEngine \<times> Stack option) script_result" where
  "run_scripts env is_p2sh [] st = Ok st"
| "run_scripts env is_p2sh (x # xs) st =
     (if snd x = [] then run_scripts env is_p2sh xs st
      else try_bind (run_script env is_p2sh x st) (run_scripts env is_p2sh xs))"

definition execute_scripts :: "script_env \<Rightarrow> u8 list list \<Rightarrow> bool \<Rightarrow> handler" where
  "execute_scripts env scripts is_p2sh vm0 =
     (if scripts = [] then Err NoScripts
      else if list_all (\<lambda>s. s = []) scripts then Err EvalFalse
      else case find (\<lambda>s. length s > MAX_SCRIPTS_SIZE) scripts of
        Some s \<Rightarrow> Err (ScriptSize (length s) MAX_SCRIPTS_SIZE)
      | None \<Rightarrow>
          try_bind (run_scripts env is_p2sh (List.enumerate 0 scripts) (vm0, None)) (\<lambda>(vm, saved_stack).
          try_bind
            (if is_p2sh
             then try_bind (check_error_condition False vm) (\<lambda>vm.
               case saved_stack of
                 None \<Rightarrow> Err EmptyStack
               | Some st \<Rightarrow>
                   if st = [] then Err EmptyStack
                   else execute_script env (last st) False (vm\<lparr>dstack := butlast st\<rparr>))
             else Ok vm)
            (check_error_condition True)))"

definition execute :: "script_env \<Rightarrow> handler" where
  "execute env vm = (case script_source vm of
     TxInput _ input _ utxo_entry is_p2sh \<Rightarrow>
       if spk_version (entry_spk utxo_entry) > MAX_SCRIPT_PUBLIC_KEY_VERSION then Ok vm
       else execute_scripts env [signature_script input, spk_script (entry_spk utxo_entry)] is_p2sh vm
   | StandAloneScripts scripts \<Rightarrow> execute_scripts env scripts False vm)"

definition used_sig_ops :: "TxScriptEngine \<Rightarrow> u8 option" where
  "used_sig_ops vm = counter_used_sig_ops (runtime_sig_op_counter vm)"

text \<open>A missing input panics when it is indexed; a missing entry is an error.\<close>

definition get_sig_op_count :: "script_env \<Rightarrow> PopulatedTransaction \<Rightarrow> nat \<Rightarrow> u8 script_result" where
  "get_sig_op_count env tx input_idx =
     (if input_idx < length (tx_inputs (ptx tx))
      then (if input_idx < length (entries tx)
            then (case from_transaction_input tx (tx_inputs (ptx tx) ! input_idx) input_idx
                         (entries tx ! input_idx) SigHashReusedValues_new (Cache_new 0) of
                    None \<Rightarrow> None
                  | Some vm \<Rightarrow> try_bind (execute env vm) (\<lambda>vm. map_option Inr (used_sig_ops vm)))
            else Err (InvalidInputIndex (sint (word_of_nat input_idx :: 32 word))
                   (length (tx_inputs (ptx tx)))))
      else None)"

section \<open>Static predicates\<close>

text \<open>The number of signature operations of a list of parsed opcodes, before the first error.\<close>

fun sig_ops_of :: "OpCode option \<Rightarrow> u64 \<Rightarrow> (TxScriptError + OpCode) list \<Rightarrow> u64 option" where
  "sig_ops_of prev num_sigs [] = Some num_sigs"
| "sig_ops_of prev num_sigs (Inl e # ops) = Some num_sigs"
| "sig_ops_of prev num_sigs (Inr op # ops) =
     (if op_code op \<in> {0xac, 0xad, 0xab}
      then checked_add num_sigs 1 \<bind> (\<lambda>n. sig_ops_of (Some op) n ops)
      else if op_code op \<in> {0xae, 0xaf, 0xa9}
      then (case prev of
              None \<Rightarrow> checked_add num_sigs (word_of_int MAX_PUB_KEYS_PER_MUTLTISIG)
            | Some prev_opcode \<Rightarrow>
                if op_code prev_opcode \<ge> 0x51 \<and> op_code prev_opcode \<le> 0x60
                then to_small_int prev_opcode \<bind> (\<lambda>k. checked_add num_sigs (ucast k))
                else checked_add num_sigs (word_of_int MAX_PUB_KEYS_PER_MUTLTISIG))
           \<bind> (\<lambda>n. sig_ops_of (Some op) n ops)
      else sig_ops_of (Some op) num_sigs ops)"

definition get_sig_op_count_by_opcodes :: "(TxScriptError + OpCode) list \<Rightarrow> u64 option" where
  "get_sig_op_count_by_opcodes opcodes = sig_ops_of None 0 opcodes"

definition get_sig_op_count_upper_bound :: "u8 list \<Rightarrow> ScriptPublicKey \<Rightarrow> u64 option" where
  "get_sig_op_count_upper_bound sig_script prev_spk =
     (let is_p2sh = is_pay_to_script_hash (spk_script prev_spk);
          script_pub_key_ops = parse_script (spk_script prev_spk)
      in if \<not> is_p2sh then get_sig_op_count_by_opcodes script_pub_key_ops
         else let signature_script_ops = parse_script sig_script
         in if signature_script_ops = []
               \<or> list_ex (\<lambda>r. case r of Inl _ \<Rightarrow> True | Inr op \<Rightarrow> \<not> is_push_opcode op) signature_script_ops
            then Some 0
            else (case last signature_script_ops of
                    Inl _ \<Rightarrow> None
                  | Inr op \<Rightarrow> get_sig_op_count_by_opcodes (parse_script (op_data op))))"

definition is_unspendable :: "u8 list \<Rightarrow> bool" where
  "is_unspendable s = list_ex (\<lambda>(index, r). case r of
     Inl _ \<Rightarrow> True | Inr op \<Rightarrow> index = (0 :: nat) \<and> op_code op = 0x6a) (List.enumerate 0 (parse_script s))"

end
