(* ===== verification/Script_Simulation.thy ===== *)
theory Script_Simulation
  imports Script_Engine
begin

text \<open>
  A simulation principle for the script engine.  The locale \<open>engine_simulation\<close> states what a
  relation between two engines must satisfy for whole executions to respect it: the relation sees
  the stacks, the conditions, the operation count and the source, is kept by updates of the stacks
  and by counted operations, and is respected by a signature check.  Inside the locale every
  opcode, script and execution is shown to end alike on related engines: with the same error, or
  in related engines, and never in a panic.  The interpretations at the end give the absence of
  panics, the bounds of the counters and the independence of the signature cache.
\<close>

section \<open>Outcomes that agree\<close>

definition agree :: "('a \<Rightarrow> 'b \<Rightarrow> bool) \<Rightarrow> ('e, 'a) outcome \<Rightarrow> ('e, 'b) outcome \<Rightarrow> bool" where
  "agree R x y = ((\<exists>e. x = Err e \<and> y = Err e) \<or> (\<exists>a b. x = Ok a \<and> y = Ok b \<and> R a b))"

lemma agree_Err [intro!, simp]: "agree R (Err e) (Err e)"
  by (simp add: agree_def)

lemma agree_Ok [simp]: "agree R (Ok a) (Ok b) \<longleftrightarrow> R a b"
  by (simp add: agree_def)

lemma agree_bind:
  assumes "agree R x y" and "\<And>a b. R a b \<Longrightarrow> agree S (f a) (g b)"
  shows "agree S (try_bind x f) (try_bind y g)"
  using assms(1) unfolding agree_def [of R] by (auto intro: assms(2))

lemma agree_if:
  "(P \<Longrightarrow> agree R a c) \<Longrightarrow> (\<not> P \<Longrightarrow> agree R b d) \<Longrightarrow>
   agree R (if P then a else b) (if P then c else d)"
  by simp

lemma agree_same: "x \<noteq> None \<Longrightarrow> (\<And>a. x = Ok a \<Longrightarrow> R a a) \<Longrightarrow> agree R x x"
  by (cases x rule: outcome_cases) (auto simp: agree_def)

lemma agree_not_panic: "agree R x y \<Longrightarrow> x \<noteq> None \<and> y \<noteq> None"
  by (auto simp: agree_def)

section \<open>Ranges\<close>

lemma in_i64_usize [simp]: "in_i64 (usize_as_i64 n)"
  using signed_take_bit_int_greater_eq_minus_exp [of 63 "int n"]
    signed_take_bit_int_less_exp [of 63 "int n"]
  by (simp add: usize_as_i64_def in_i64_def)

lemma deserialize_num_range: "deserialize_num v = Ok x \<Longrightarrow> in_i64 x"
  using deserialize_num_in_i64 [of v x] by (auto simp: in_i64_def)

lemma deserialize_i32_range: "deserialize_i32 v = Ok x \<Longrightarrow> in_i32 x"
  by (auto simp: deserialize_i32_def try_bind_eq_Ok split: if_splits)

lemma collect_results_all:
  "collect_results f xs = Ok ys \<Longrightarrow> (\<And>x y. f x = Ok y \<Longrightarrow> P y) \<Longrightarrow> list_all P ys"
  by (induction xs arbitrary: ys) (auto simp: try_bind_eq_Ok)

lemma collect_results_ok_length:
  "pop_items f n s = Ok (ys, r) \<Longrightarrow> length ys = n"
  using collect_results_length by (fastforce simp: pop_items_Ok_iff)

text \<open>Popped items of two equal stacks: equal, exact in number and in range.\<close>

definition popped :: "('b \<Rightarrow> bool) \<Rightarrow> nat \<Rightarrow> 'b list \<times> Stack \<Rightarrow> 'b list \<times> Stack \<Rightarrow> bool" where
  "popped P n x y = (x = y \<and> length (fst x) = n \<and> list_all P (fst x))"

lemma pop_items_agree:
  assumes "\<And>x. f x \<noteq> None" and "\<And>x y. f x = Ok y \<Longrightarrow> P y"
  shows "agree (popped P n) (pop_items f n s) (pop_items f n s)"
proof (rule agree_same)
  show "pop_items f n s \<noteq> None" using assms(1) by (rule pop_items_no_panic)
  fix a assume a: "pop_items f n s = Ok a"
  obtain ys r where "a = (ys, r)" by fastforce
  with a show "popped P n a a"
    using collect_results_ok_length [of f n s ys r] collect_results_all [of f _ ys P] assms(2)
    by (auto simp: popped_def pop_items_Ok_iff)
qed

lemma pop_raw_agree: "agree (popped (\<lambda>_. True) n) (pop_raw n s) (pop_raw n s)"
  by (rule agree_same) (auto simp: pop_raw_def popped_def list_all_iff split: if_splits)

lemmas pop_agree =
  pop_items_agree [of deserialize_num in_i64, OF deserialize_num_no_panic deserialize_num_range]
  pop_items_agree [of deserialize_i32 in_i32, OF deserialize_i32_no_panic deserialize_i32_range]
  pop_items_agree [of deserialize_bool "\<lambda>_. True", OF deserialize_bool_no_panic TrueI]
  pop_raw_agree

section \<open>The simulation\<close>

locale engine_simulation =
  fixes env :: script_env
    and R :: "TxScriptEngine \<Rightarrow> TxScriptEngine \<Rightarrow> bool"
  assumes R_same: "R v w \<Longrightarrow> dstack v = dstack w \<and> astack v = astack w
      \<and> cond_stack v = cond_stack w \<and> num_ops v = num_ops w \<and> script_source v = script_source w"
    and R_bound: "R v w \<Longrightarrow> 0 \<le> num_ops v \<and> num_ops v \<le> MAX_OPS_PER_SCRIPT"
    and R_dstack: "R v w \<Longrightarrow> R (v\<lparr>dstack := s\<rparr>) (w\<lparr>dstack := s\<rparr>)"
    and R_astack: "R v w \<Longrightarrow> R (v\<lparr>astack := s\<rparr>) (w\<lparr>astack := s\<rparr>)"
    and R_cond_stack: "R v w \<Longrightarrow> R (v\<lparr>cond_stack := c\<rparr>) (w\<lparr>cond_stack := c\<rparr>)"
    and R_num_ops: "R v w \<Longrightarrow> 0 \<le> n \<Longrightarrow> n \<le> MAX_OPS_PER_SCRIPT \<Longrightarrow>
      R (v\<lparr>num_ops := n\<rparr>) (w\<lparr>num_ops := n\<rparr>)"
    and R_signature: "R v w \<Longrightarrow> agree (\<lambda>(b, v') (c, w'). b = c \<and> R v' w')
      (check_signature env ecdsa t key sig v) (check_signature env ecdsa t key sig w)"
begin

abbreviation both :: "handler \<Rightarrow> bool" where
  "both f \<equiv> (\<forall>v w. R v w \<longrightarrow> agree R (f v) (f w))"

lemma both_on_dstack:
  assumes "\<And>s. f s \<noteq> None"
  shows "both (on_dstack f)"
proof (intro allI impI)
  fix v w assume R: "R v w"
  have "agree (=) (f (dstack v)) (f (dstack v))" using assms by (intro agree_same) auto
  then show "agree R (on_dstack f v) (on_dstack f w)"
    unfolding on_dstack_def using R_same [OF R] R by (auto intro!: agree_bind R_dstack)
qed

lemma both_push_number: "in_i64 n \<Longrightarrow> both (push_number n)"
  unfolding push_number_def
  by (intro allI impI both_on_dstack [rule_format])
    (auto simp: push_item_def serialize_num_no_panic split: option.splits sum.splits)

lemma both_push_bool: "both (push_bool b)"
  unfolding push_bool_def by (intro allI impI both_on_dstack [rule_format]) (simp add: push_item_def)

lemma both_push_data: "both (push_data d)"
proof (intro allI impI)
  fix v w assume R: "R v w"
  then show "agree R (push_data d v) (push_data d w)"
    using R_same [OF R] by (simp add: push_data_def R_dstack)
qed

lemma both_pop:
  assumes "\<And>s. agree (popped P n) (pop s) (pop s)"
    and "\<And>xs. length xs = n \<Longrightarrow> list_all P xs \<Longrightarrow> both (k xs)"
  shows "both (\<lambda>vm. try_bind (pop (dstack vm)) (\<lambda>(items, s). k items (vm\<lparr>dstack := s\<rparr>)))"
proof (intro allI impI)
  fix v w assume R: "R v w"
  have k: "agree R (k xs (v\<lparr>dstack := s\<rparr>)) (k xs (w\<lparr>dstack := s\<rparr>))"
    if "length xs = n" "list_all P xs" for xs s
    using assms(2) [OF that] R_dstack [OF R] by blast
  show "agree R (try_bind (pop (dstack v)) (\<lambda>(items, s). k items (v\<lparr>dstack := s\<rparr>)))
      (try_bind (pop (dstack w)) (\<lambda>(items, s). k items (w\<lparr>dstack := s\<rparr>)))"
    unfolding conjunct1 [OF R_same [OF R]]
    by (rule agree_bind [OF assms(1)]) (auto simp: popped_def k)
qed

lemma both_with_num1:
  "(\<And>a. in_i64 a \<Longrightarrow> both (k a)) \<Longrightarrow> both (with_num1 k)"
  unfolding with_num1_def
  by (rule both_pop [of in_i64 1 "pop_items deserialize_num 1"
      "\<lambda>items vm. case items of [a] \<Rightarrow> k a vm | _ \<Rightarrow> None", OF pop_agree(1)])
    (auto simp: length_Suc_conv numeral_eq_Suc)

lemma both_with_num2:
  "(\<And>a b. in_i64 a \<Longrightarrow> in_i64 b \<Longrightarrow> both (k a b)) \<Longrightarrow> both (with_num2 k)"
  unfolding with_num2_def
  by (rule both_pop [of in_i64 2 "pop_items deserialize_num 2"
      "\<lambda>items vm. case items of [a, b] \<Rightarrow> k a b vm | _ \<Rightarrow> None", OF pop_agree(1)])
    (auto simp: length_Suc_conv numeral_eq_Suc)

lemma both_with_num3:
  "(\<And>a b c. in_i64 a \<Longrightarrow> in_i64 b \<Longrightarrow> in_i64 c \<Longrightarrow> both (k a b c)) \<Longrightarrow> both (with_num3 k)"
  unfolding with_num3_def
  by (rule both_pop [of in_i64 3 "pop_items deserialize_num 3"
      "\<lambda>items vm. case items of [a, b, c] \<Rightarrow> k a b c vm | _ \<Rightarrow> None", OF pop_agree(1)])
    (auto simp: length_Suc_conv numeral_eq_Suc)

lemma both_with_i32:
  "(\<And>a. in_i32 a \<Longrightarrow> both (k a)) \<Longrightarrow> both (with_i32 k)"
  unfolding with_i32_def
  by (rule both_pop [of in_i32 1 "pop_items deserialize_i32 1"
      "\<lambda>items vm. case items of [a] \<Rightarrow> k a vm | _ \<Rightarrow> None", OF pop_agree(2)])
    (auto simp: length_Suc_conv numeral_eq_Suc)

lemma both_with_bool:
  "(\<And>a. both (k a)) \<Longrightarrow> both (with_bool k)"
  unfolding with_bool_def
  by (rule both_pop [of "\<lambda>_. True" 1 "pop_items deserialize_bool 1"
      "\<lambda>items vm. case items of [a] \<Rightarrow> k a vm | _ \<Rightarrow> None", OF pop_agree(3)])
    (auto simp: length_Suc_conv numeral_eq_Suc)

lemma both_with_raw1:
  "(\<And>a. both (k a)) \<Longrightarrow> both (with_raw1 k)"
  unfolding with_raw1_def
  by (rule both_pop [of "\<lambda>_. True" 1 "pop_raw 1"
      "\<lambda>items vm. case items of [a] \<Rightarrow> k a vm | _ \<Rightarrow> None", OF pop_agree(4)])
    (auto simp: length_Suc_conv numeral_eq_Suc)

lemma both_with_raw2:
  "(\<And>a b. both (k a b)) \<Longrightarrow> both (with_raw2 k)"
  unfolding with_raw2_def
  by (rule both_pop [of "\<lambda>_. True" 2 "pop_raw 2"
      "\<lambda>items vm. case items of [a, b] \<Rightarrow> k a b vm | _ \<Rightarrow> None", OF pop_agree(4)])
    (auto simp: length_Suc_conv numeral_eq_Suc)

lemmas both_with = both_with_num1 both_with_num2 both_with_num3 both_with_i32 both_with_bool
  both_with_raw1 both_with_raw2

end

lemma in_i64_if: "in_i64 (if b then 1 else 0)"
  by (simp add: in_i64_def)

lemma in_i64_min_max: "in_i64 a \<Longrightarrow> in_i64 b \<Longrightarrow> in_i64 (min a b) \<and> in_i64 (max a b)"
  by (simp add: min_def max_def)

lemma in_i64_small: "0 \<le> x \<Longrightarrow> x < 256 \<Longrightarrow> in_i64 (x - 80)"
  by (simp add: in_i64_def)

lemma in_i64_code: "in_i64 (uint (c :: u8) - 80)"
  using unsigned_less [of c, where ?'a = int] by (intro in_i64_small) simp_all

lemma peek_raw_1: "peek_raw 1 s = (if s = [] then Err (InvalidStackOperation 1 0) else Ok [last s])"
  by (cases s rule: rev_cases) (simp_all add: peek_raw_def)

context engine_simulation
begin

lemma bothI:
  assumes "\<And>v w. R v w \<Longrightarrow> dstack w = dstack v \<Longrightarrow> astack w = astack v \<Longrightarrow>
    cond_stack w = cond_stack v \<Longrightarrow> num_ops w = num_ops v \<Longrightarrow> script_source w = script_source v \<Longrightarrow>
    agree R (f v) (f w)"
  shows "both f"
  using assms R_same by (metis (no_types, lifting))

lemma both_Err: "both (\<lambda>vm. Err e)"
  by simp

lemma both_if: "both f \<Longrightarrow> both g \<Longrightarrow> both (if c then f else g)"
  by simp

lemma both_push_checked: "both (push_checked r)"
  unfolding push_checked_def
  using both_push_number [of r] by (auto simp: i64_checked_def split: if_splits)

lemma both_push_flag: "both (push_flag b)"
  unfolding push_flag_def by (intro both_push_number) (rule in_i64_if)

lemma both_stack_ops:
  "both (on_dstack (drop_items n))" "both (on_dstack (dup_items n))" "both (on_dstack (over_items n))"
  "both (on_dstack (rot_items n))" "both (on_dstack (swap_items n))"
  by (rule both_on_dstack; simp add: drop_items_def dup_items_def over_items_def rot_items_def
      swap_items_def)+

lemma both_constant:
  "both OpReserved" "both OpVer" "both OpVerIf" "both OpReturn" "both OpSplice" "both OpBitwise"
  "both OpReserved12" "both Op2MulDiv" "both OpMulDivMod" "both OpUnknown166_167" "both OpTxVersion"
  "both OpTxReserved" "both OpInputReserved" "both OpUtxoReserved" "both OpUnknown" "both OpNop"
  unfolding OpReserved_def OpVer_def OpVerIf_def OpReturn_def OpSplice_def OpBitwise_def
    OpReserved12_def Op2MulDiv_def OpMulDivMod_def OpUnknown166_167_def OpTxVersion_def
    OpTxReserved_def OpInputReserved_def OpUtxoReserved_def OpUnknown_def OpNop_def
  by simp_all

lemma both_push:
  "both OpFalse" "both (OpData op)" "both Op1Negate" "both (OpSmall op)"
proof -
  show "both OpFalse" by (rule bothI) (simp add: OpFalse_def R_dstack)
  show "both (OpData op)" unfolding OpData_def by (rule both_push_data)
  show "both Op1Negate" unfolding Op1Negate_def
    by (rule both_push_number) (simp add: in_i64_def)
  show "both (OpSmall op)" unfolding OpSmall_def by (rule both_push_number) (rule in_i64_code)
qed

lemma both_control:
  "both OpIf" "both OpNotIf" "both OpElse" "both OpEndIf" "both OpVerify"
proof -
  show "both OpIf" by (rule bothI) (auto simp: OpIf_def is_executing_def Let_def R_dstack R_cond_stack)
  show "both OpNotIf" by (rule bothI) (auto simp: OpNotIf_def is_executing_def Let_def R_dstack R_cond_stack)
  show "both OpElse" by (rule bothI) (auto simp: OpElse_def R_cond_stack)
  show "both OpEndIf" by (rule bothI) (auto simp: OpEndIf_def R_cond_stack)
  show "both OpVerify" unfolding OpVerify_def by (intro both_with) simp
qed

lemma both_stack:
  "both OpToAltStack" "both OpFromAltStack" "both Op2Drop" "both Op2Dup" "both Op3Dup" "both Op2Over"
  "both Op2Rot" "both Op2Swap" "both OpIfDup" "both OpDepth" "both OpDrop" "both OpDup" "both OpNip"
  "both OpOver" "both OpPick" "both OpRoll" "both OpRot" "both OpSwap" "both OpTuck"
proof -
  show "both OpToAltStack" unfolding OpToAltStack_def
    by (intro both_with bothI) (simp add: R_astack)
  show "both OpFromAltStack"
    by (rule bothI) (auto simp: OpFromAltStack_def intro!: R_astack R_dstack)
  show "both Op2Drop" "both Op2Dup" "both Op3Dup" "both Op2Over" "both Op2Rot" "both Op2Swap"
    "both OpDrop" "both OpDup" "both OpOver" "both OpRot" "both OpSwap"
    unfolding Op2Drop_def Op2Dup_def Op3Dup_def Op2Over_def Op2Rot_def Op2Swap_def OpDrop_def
      OpDup_def OpOver_def OpRot_def OpSwap_def by (rule both_stack_ops)+
  show "both OpIfDup"
    by (rule bothI) (auto simp: OpIfDup_def peek_raw_1 [unfolded One_nat_def] deserialize_bool_def
        R_dstack)
  show "both OpDepth"
    by (rule bothI) (use both_push_number in \<open>auto simp: OpDepth_def\<close>)
  show "both OpNip" by (rule bothI) (auto simp: OpNip_def R_dstack)
  show "both OpPick" unfolding OpPick_def by (intro both_with bothI) (auto simp: R_dstack)
  show "both OpRoll" unfolding OpRoll_def by (intro both_with bothI) (auto simp: R_dstack Let_def)
  show "both OpTuck" by (rule bothI) (auto simp: OpTuck_def R_dstack Let_def)
qed

end

context engine_simulation
begin

lemma both_compare: "both OpSize" "both OpEqual" "both OpEqualVerify"
proof -
  show "both OpSize" by (rule bothI) (use both_push_number in \<open>auto simp: OpSize_def\<close>)
  show "both OpEqual" by (rule bothI) (auto simp: OpEqual_def Let_def R_dstack)
  show "both OpEqualVerify" by (rule bothI) (auto simp: OpEqualVerify_def Let_def R_dstack)
qed

lemma both_numeric:
  "both Op1Add" "both Op1Sub" "both OpNegate" "both OpAbs" "both OpNot" "both Op0NotEqual"
  "both OpAdd" "both OpSub" "both OpBoolAnd" "both OpBoolOr" "both OpNumEqual" "both OpNumEqualVerify"
  "both OpNumNotEqual" "both OpLessThan" "both OpGreaterThan" "both OpLessThanOrEqual"
  "both OpGreaterThanOrEqual" "both OpMin" "both OpMax" "both OpWithin"
proof -
  show "both OpNumEqualVerify" unfolding OpNumEqualVerify_def by (intro both_with) simp
  show "both OpMin" "both OpMax" unfolding OpMin_def OpMax_def
    by (intro both_with both_push_number; simp add: in_i64_min_max)+
  show "both Op1Add" "both Op1Sub" "both OpNegate" "both OpAbs" "both OpNot" "both Op0NotEqual"
    "both OpAdd" "both OpSub" "both OpBoolAnd" "both OpBoolOr" "both OpNumEqual"
    "both OpNumNotEqual" "both OpLessThan" "both OpGreaterThan" "both OpLessThanOrEqual"
    "both OpGreaterThanOrEqual" "both OpWithin"
    unfolding Op1Add_def Op1Sub_def OpNegate_def OpAbs_def OpNot_def Op0NotEqual_def OpAdd_def
      OpSub_def OpBoolAnd_def OpBoolOr_def OpNumEqual_def OpNumNotEqual_def OpLessThan_def
      OpGreaterThan_def OpLessThanOrEqual_def OpGreaterThanOrEqual_def OpWithin_def
    by (intro both_with both_push_checked both_push_flag)+
qed

lemma both_hash: "both (OpSHA256 env)" "both (OpBlake2b env)"
  unfolding OpSHA256_def OpBlake2b_def by (intro both_with bothI; simp add: R_dstack)+

lemma both_check_sig:
  "both (OpCheckSig env)" "both (OpCheckSigECDSA env)" "both (OpCheckSigVerify env)"
proof -
  have sig: "agree R (try_bind (check_signature env ecdsa t key sg v) (\<lambda>(valid, vm). push_bool valid vm))
      (try_bind (check_signature env ecdsa t key sg w) (\<lambda>(valid, vm). push_bool valid vm))"
    if "R v w" for ecdsa t key sg v w
    using both_push_bool by (intro agree_bind [OF R_signature [OF that]]) auto
  have one: "both (\<lambda>vm. if sg = [] then push_bool False vm else case SigHashType_from_u8 (last sg) of
      None \<Rightarrow> Err (InvalidSigHashType (last sg))
    | Some t \<Rightarrow> try_bind (check_signature env ecdsa t key (butlast sg) vm)
        (\<lambda>(valid, vm). push_bool valid vm))" for sg key ecdsa
    using sig both_push_bool by (auto split: option.splits)
  have kinds: "check_signature env False = check_schnorr_signature env"
    "check_signature env True = check_ecdsa_signature env"
    by (simp_all add: check_signature_def fun_eq_iff)
  show "both (OpCheckSig env)" unfolding OpCheckSig_def
    by (intro both_with) (rule one [where ecdsa = False, unfolded kinds])
  then show "both (OpCheckSigVerify env)" unfolding OpCheckSigVerify_def
    by (intro allI impI agree_bind [where R = R]) (auto intro!: both_with [rule_format])
  show "both (OpCheckSigECDSA env)" unfolding OpCheckSigECDSA_def
    by (intro both_with) (rule one [where ecdsa = True, unfolded kinds])
qed

lemma both_lock: "both OpCheckLockTimeVerify" "both OpCheckSequenceVerify"
proof -
  show "both OpCheckLockTimeVerify"
    by (rule bothI) (auto simp: OpCheckLockTimeVerify_def Let_def split: ScriptSource.splits
        intro!: both_with [rule_format])
  show "both OpCheckSequenceVerify"
    by (rule bothI) (auto simp: OpCheckSequenceVerify_def Let_def split: ScriptSource.splits
        intro!: both_with [rule_format])
qed

lemma both_push_amount: "both (push_amount a)"
  using both_push_number [of "uint a"] by (auto simp: push_amount_def)

lemma both_introspection:
  "both OpTxInputCount" "both OpTxOutputCount" "both OpTxInputIndex" "both OpTxInputAmount"
  "both OpTxInputSpk" "both OpTxOutputAmount" "both OpTxOutputSpk"
proof -
  note defs = OpTxInputCount_def OpTxOutputCount_def OpTxInputIndex_def OpTxInputAmount_def
    OpTxInputSpk_def OpTxOutputAmount_def OpTxOutputSpk_def
  show "both OpTxInputCount" "both OpTxOutputCount" "both OpTxInputIndex" "both OpTxInputAmount"
    "both OpTxInputSpk" "both OpTxOutputAmount" "both OpTxOutputSpk"
    by (rule bothI; auto simp: defs split: ScriptSource.splits option.splits
        intro!: both_with [rule_format] both_push_number [rule_format]
          both_push_amount [rule_format] both_push_data [rule_format])+
qed

end

context engine_simulation
begin

lemma match_signature_agree:
  "R v w \<Longrightarrow> 0 < n \<Longrightarrow> agree (\<lambda>(r, v') (s, w'). r = s \<and> R v' w')
     (match_signature env ecdsa t sg n keys v) (match_signature env ecdsa t sg n keys w)"
proof (induction keys arbitrary: v w)
  case Nil
  then show ?case by simp
next
  case (Cons key keys)
  show ?case
  proof (cases "length (key # keys) < n")
    case True
    with Cons.prems show ?thesis by simp
  next
    case False
    have "agree (\<lambda>(r, v') (s, w'). r = s \<and> R v' w')
        (try_bind (check_signature env ecdsa t key sg v) (\<lambda>(valid, vm').
          if valid then Ok (Some keys, vm') else match_signature env ecdsa t sg n keys vm'))
        (try_bind (check_signature env ecdsa t key sg w) (\<lambda>(valid, vm').
          if valid then Ok (Some keys, vm') else match_signature env ecdsa t sg n keys vm'))"
      using Cons.IH Cons.prems(2)
      by (intro agree_bind [OF R_signature [OF Cons.prems(1)]]) (auto intro!: agree_if)
    with False show ?thesis by simp
  qed
qed

lemma match_signatures_agree:
  "R v w \<Longrightarrow> n = i + length sigs \<Longrightarrow> agree (\<lambda>(r, v') (s, w'). r = s \<and> R v' w')
     (match_signatures env ecdsa n i sigs keys v) (match_signatures env ecdsa n i sigs keys w)"
proof (induction sigs arbitrary: i keys v w)
  case Nil
  then show ?case by simp
next
  case (Cons sg sigs)
  show ?case
  proof (cases "sg = [] \<or> SigHashType_from_u8 (last sg) = None")
    case True
    with Cons.prems show ?thesis by auto
  next
    case False
    then obtain t where t: "SigHashType_from_u8 (last sg) = Some t" "sg \<noteq> []" by auto
    have "0 < n - i" using Cons.prems(2) by simp
    have IH: "agree (\<lambda>(r, v') (s, w'). r = s \<and> R v' w')
        (match_signatures env ecdsa n (Suc i) sigs ks a) (match_signatures env ecdsa n (Suc i) sigs ks b)"
      if "R a b" for ks a b
      using Cons.IH [OF that] Cons.prems(2) by simp
    have step: "agree (\<lambda>(r, v') (s, w'). r = s \<and> R v' w')
        (try_bind (match_signature env ecdsa t (butlast sg) (n - i) keys v) (\<lambda>(rest, vm').
          case rest of None \<Rightarrow> Ok (True, vm')
          | Some keys' \<Rightarrow> match_signatures env ecdsa n (Suc i) sigs keys' vm'))
        (try_bind (match_signature env ecdsa t (butlast sg) (n - i) keys w) (\<lambda>(rest, vm').
          case rest of None \<Rightarrow> Ok (True, vm')
          | Some keys' \<Rightarrow> match_signatures env ecdsa n (Suc i) sigs keys' vm'))"
      by (intro agree_bind [OF match_signature_agree [OF Cons.prems(1) \<open>0 < n - i\<close>]])
        (auto split: option.splits intro!: IH)
    then show ?thesis using t by simp
  qed
qed

text \<open>An increment of the operation count and the check that follows it.\<close>

lemma agree_counted:
  assumes "R v w" and "0 \<le> n" and "n \<le> 20"
    and "\<And>v' w'. R v' w' \<Longrightarrow> agree S (f v') (g w')"
  shows "agree S (try_bind (add_ops_count n v) (\<lambda>vm. if num_ops vm > MAX_OPS_PER_SCRIPT then Err e else f vm))
    (try_bind (add_ops_count n w) (\<lambda>vm. if num_ops vm > MAX_OPS_PER_SCRIPT then Err e else g vm))"
proof -
  have same: "num_ops w = num_ops v" using R_same [OF assms(1)] by simp
  have b: "0 \<le> num_ops v" "num_ops v \<le> 201"
    using R_bound [OF assms(1)] by (simp_all add: MAX_OPS_PER_SCRIPT_def)
  then have i32: "in_i32 (num_ops v + n)" using assms(2,3) by (simp add: in_i32_def)
  show ?thesis
  proof (cases "num_ops v + n > MAX_OPS_PER_SCRIPT")
    case True
    with i32 same show ?thesis by (simp add: add_ops_count_def)
  next
    case False
    then have "R (v\<lparr>num_ops := num_ops v + n\<rparr>) (w\<lparr>num_ops := num_ops v + n\<rparr>)"
      using assms(1,2) b(1) by (intro R_num_ops) auto
    with False i32 same show ?thesis by (simp add: add_ops_count_def assms(4))
  qed
qed

lemma split_off_agree:
  "R v w \<Longrightarrow> agree (\<lambda>(xs, v') (ys, w'). xs = ys \<and> length xs = n \<and> R v' w')
     (split_off_items n v) (split_off_items n w)"
  using R_same [of v w] by (auto simp: split_off_items_def Let_def R_dstack)

lemma both_multisig: "both (op_check_multisig_schnorr_or_ecdsa env ecdsa)"
proof -
  define sigs where "sigs num_keys pub_keys = with_i32 (\<lambda>num_sigs vm.
     if num_sigs < 0 then Err InvalidSignatureCount
     else if num_sigs > num_keys then Err InvalidSignatureCount
     else try_bind (split_off_items (nat num_sigs) vm) (\<lambda>(signatures, vm).
       try_bind (match_signatures env ecdsa (nat num_sigs) 0 signatures pub_keys vm)
         (\<lambda>(failed, vm).
           if failed \<and> list_ex (\<lambda>sg. sg \<noteq> []) signatures then Err NullFail
           else push_bool (\<not> failed) vm)))" for num_keys pub_keys
  have sigs: "both (sigs num_keys pub_keys)" for num_keys pub_keys
    unfolding sigs_def
  proof (intro both_with allI impI agree_if)
    fix num_sigs v w assume R: "R v w"
    show "agree R
      (try_bind (split_off_items (nat num_sigs) v) (\<lambda>(signatures, vm).
        try_bind (match_signatures env ecdsa (nat num_sigs) 0 signatures pub_keys vm) (\<lambda>(failed, vm).
          if failed \<and> list_ex (\<lambda>sg. sg \<noteq> []) signatures then Err NullFail else push_bool (\<not> failed) vm)))
      (try_bind (split_off_items (nat num_sigs) w) (\<lambda>(signatures, vm).
        try_bind (match_signatures env ecdsa (nat num_sigs) 0 signatures pub_keys vm) (\<lambda>(failed, vm).
          if failed \<and> list_ex (\<lambda>sg. sg \<noteq> []) signatures then Err NullFail else push_bool (\<not> failed) vm)))"
      using both_push_bool
      by (intro agree_bind [OF split_off_agree [OF R]])
        (auto intro!: agree_bind [OF match_signatures_agree])
  qed simp_all
  show ?thesis
    unfolding op_check_multisig_schnorr_or_ecdsa_def sigs_def [symmetric]
  proof (intro both_with allI impI agree_if)
    fix num_keys v w
    assume R: "R v w" and n: "\<not> num_keys < 0" "\<not> MAX_PUB_KEYS_PER_MUTLTISIG < num_keys"
    show "agree R (try_bind (add_ops_count num_keys v) (\<lambda>vm.
        if num_ops vm > MAX_OPS_PER_SCRIPT then Err (TooManyOperations MAX_OPS_PER_SCRIPT)
        else try_bind (split_off_items (nat num_keys) vm) (\<lambda>(pub_keys, vm). sigs num_keys pub_keys vm)))
      (try_bind (add_ops_count num_keys w) (\<lambda>vm.
        if num_ops vm > MAX_OPS_PER_SCRIPT then Err (TooManyOperations MAX_OPS_PER_SCRIPT)
        else try_bind (split_off_items (nat num_keys) vm) (\<lambda>(pub_keys, vm). sigs num_keys pub_keys vm)))"
      using n sigs
      by (intro agree_counted [OF R] agree_bind [OF split_off_agree])
        (auto simp: MAX_PUB_KEYS_PER_MUTLTISIG_def)
  qed simp_all
qed

lemma both_multisig_opcodes:
  "both (OpCheckMultiSig env)" "both (OpCheckMultiSigECDSA env)" "both (OpCheckMultiSigVerify env)"
proof -
  show 1: "both (OpCheckMultiSig env)" unfolding OpCheckMultiSig_def by (rule both_multisig)
  show "both (OpCheckMultiSigECDSA env)" unfolding OpCheckMultiSigECDSA_def by (rule both_multisig)
  show "both (OpCheckMultiSigVerify env)" unfolding OpCheckMultiSigVerify_def
    using 1 by (intro allI impI agree_bind [where R = R]) (auto intro!: both_with [rule_format])
qed

lemma both_execute_opcode_body: "both (OpCode_execute env op)"
  unfolding OpCode_execute_def Let_def
  by (intro both_if both_constant both_push both_control both_stack both_compare both_numeric
      both_hash both_check_sig both_lock both_introspection both_multisig_opcodes)

end

lemma if_not_None: "x \<noteq> None \<Longrightarrow> y \<noteq> None \<Longrightarrow> (if P then x else y) \<noteq> None"
  by simp

lemma agree_guard: "m \<noteq> None \<Longrightarrow> agree R x y \<Longrightarrow> agree R (try_bind m (\<lambda>_. x)) (try_bind m (\<lambda>_. y))"
  by (cases m rule: outcome_cases) auto

context engine_simulation
begin

lemma R_keep:
  assumes "R v w"
  shows "length (astack v) + length (dstack v) = length (astack w) + length (dstack w)"
    and "cond_stack v = [] \<longleftrightarrow> cond_stack w = []"
  using R_same [OF assms] by simp_all

lemma both_execute_opcode: "both (execute_opcode env op)"
proof (rule bothI)
  fix v w assume R: "R v w"
  define min where "min =
    (if 0 < op_code op \<and> op_code op \<le> 0x4e then check_minimal_data_push op else Ok ())"
  have "min \<noteq> None"
    unfolding min_def check_minimal_data_push_def Let_def by (intro if_not_None) simp_all
  have body: "agree R
      (if is_executing v' \<or> is_conditional op then try_bind min (\<lambda>_. OpCode_execute env op v') else Ok v')
      (if is_executing w' \<or> is_conditional op then try_bind min (\<lambda>_. OpCode_execute env op w') else Ok w')"
    if "R v' w'" for v' w'
  proof -
    have same: "is_executing v' = is_executing w'"
      using R_same [OF that] by (simp add: is_executing_def)
    show ?thesis
      unfolding same using that both_execute_opcode_body \<open>min \<noteq> None\<close> by (intro agree_if agree_guard) auto
  qed
  have counted: "agree R
      (try_bind (add_ops_count 1 v) (\<lambda>vm. if num_ops vm > MAX_OPS_PER_SCRIPT then Err e else Ok vm))
      (try_bind (add_ops_count 1 w) (\<lambda>vm. if num_ops vm > MAX_OPS_PER_SCRIPT then Err e else Ok vm))"
    for e using agree_counted [OF R, of 1 R Ok Ok e] by simp
  show "agree R (execute_opcode env op v) (execute_opcode env op w)"
    unfolding execute_opcode_def min_def [symmetric]
    by (rule agree_bind [where R = R, OF _ body]) (use R counted in \<open>auto intro!: agree_if\<close>)
qed

lemma both_execute_parsed: "both (execute_parsed env push p)"
proof (intro allI impI)
  fix v w assume R: "R v w"
  have "agree R (try_bind (execute_opcode env op v) (\<lambda>vm.
      let combined_size = length (astack vm) + length (dstack vm)
      in if combined_size > MAX_STACK_SIZE then Err (StackSizeExceeded combined_size MAX_STACK_SIZE)
         else Ok vm))
    (try_bind (execute_opcode env op w) (\<lambda>vm.
      let combined_size = length (astack vm) + length (dstack vm)
      in if combined_size > MAX_STACK_SIZE then Err (StackSizeExceeded combined_size MAX_STACK_SIZE)
         else Ok vm))" for op
    by (rule agree_bind [where R = R])
      (use both_execute_opcode R in \<open>auto simp: Let_def R_keep\<close>)
  then show "agree R (execute_parsed env push p v) (execute_parsed env push p w)"
    unfolding execute_parsed_def by (auto split: sum.splits)
qed

lemma both_execute_all: "both (execute_all env push ps)"
proof (induction ps)
  case (Cons p ps)
  show ?case
    using both_execute_parsed Cons.IH by (auto intro!: agree_bind [where R = R])
qed simp

lemma both_execute_script: "both (execute_script env s push)"
proof (intro allI impI)
  fix v w assume "R v w"
  then have all: "agree R (execute_all env push (parse_script s) v)
      (execute_all env push (parse_script s) w)" using both_execute_all by blast
  have reset: "R (v'\<lparr>astack := [], num_ops := 0\<rparr>) (w'\<lparr>astack := [], num_ops := 0\<rparr>)"
    if "R v' w'" for v' w'
    using R_num_ops [OF R_astack [OF that, of "[]"], of 0] by (simp add: MAX_OPS_PER_SCRIPT_def)
  show "agree R (execute_script env s push v) (execute_script env s push w)"
    unfolding execute_script_def
    by (rule agree_bind [OF all]) (simp add: R_keep reset)
qed

lemma both_check_error_condition: "both (check_error_condition final)"
  by (rule bothI) (auto simp: check_error_condition_def intro!: both_with [rule_format])

lemma run_scripts_agree:
  "R v w \<Longrightarrow> agree (\<lambda>(v', s) (w', t). R v' w' \<and> s = t)
     (run_scripts env p2sh xs (v, saved)) (run_scripts env p2sh xs (w, saved))"
proof (induction xs arbitrary: v w saved)
  case (Cons x xs)
  obtain idx s where x: "x = (idx, s)" by fastforce
  have same: "dstack v = dstack w" "script_source v = script_source w"
    using R_same [OF Cons.prems] by auto
  let ?push = "idx = 0 \<and> (case script_source w of TxInput _ _ _ _ _ \<Rightarrow> True | _ \<Rightarrow> False)"
  let ?saved = "if p2sh \<and> idx = 1 then Some (dstack w) else saved"
  have s: "agree R (execute_script env s ?push v) (execute_script env s ?push w)"
    using both_execute_script Cons.prems by blast
  have one: "agree (\<lambda>(v', s) (w', t). R v' w' \<and> s = t)
      (run_script env p2sh x (v, saved)) (run_script env p2sh x (w, saved))"
    unfolding run_script_def x prod.case Let_def same by (rule agree_bind [OF s]) simp
  show ?case
    using Cons.prems Cons.IH by (cases "s = []") (auto simp: x intro!: agree_bind [OF one [unfolded x]])
qed simp

lemma both_execute_scripts: "both (execute_scripts env scripts p2sh)"
proof (intro allI impI)
  fix v w assume R: "R v w"
  let ?redeem = "\<lambda>saved vm. try_bind (check_error_condition False vm) (\<lambda>vm.
      case saved of None \<Rightarrow> Err EmptyStack | Some st \<Rightarrow>
        if st = [] then Err EmptyStack else execute_script env (last st) False (vm\<lparr>dstack := butlast st\<rparr>))"
  have redeem: "both (?redeem saved)" for saved
    using both_check_error_condition
    by (auto intro!: agree_bind [where R = R] both_execute_script [rule_format] R_dstack
        split: option.splits)
  have "agree R
      (try_bind (if p2sh then ?redeem saved v' else Ok v') (check_error_condition True))
      (try_bind (if p2sh then ?redeem saved w' else Ok w') (check_error_condition True))"
    if "R v' w'" for v' w' saved
    by (rule agree_bind [where R = R])
      (use both_check_error_condition redeem [of saved, rule_format, OF that] that in auto)
  then show "agree R (execute_scripts env scripts p2sh v) (execute_scripts env scripts p2sh w)"
    unfolding execute_scripts_def
    by (auto split: option.splits intro!: agree_bind [OF run_scripts_agree [OF R]])
qed

lemma both_execute: "both (execute env)"
  by (rule bothI) (use both_execute_scripts in
    \<open>auto simp: execute_def simp del: not_None_eq split: ScriptSource.splits\<close>)

end

section \<open>Engines in good order\<close>

definition source_ok :: "ScriptSource \<Rightarrow> bool" where
  "source_ok src = (case src of
     TxInput tx _ idx _ _ \<Rightarrow> populated_input tx idx \<noteq> None | StandAloneScripts _ \<Rightarrow> True)"

definition engine_ok :: "u8 \<Rightarrow> TxScriptEngine \<Rightarrow> bool" where
  "engine_ok limit vm =
     (0 \<le> num_ops vm \<and> num_ops vm \<le> MAX_OPS_PER_SCRIPT \<and> source_ok (script_source vm)
      \<and> sig_op_limit (runtime_sig_op_counter vm) = limit
      \<and> sig_op_remaining (runtime_sig_op_counter vm) \<le> limit)"

lemma consume_sig_op_cases:
  "consume_sig_op c = (if sig_op_remaining c = 0 then Err (ExceededSigOpLimit (sig_op_limit c))
     else Ok (c\<lparr>sig_op_remaining := sig_op_remaining c - 1\<rparr>))"
proof -
  have "1 \<le> sig_op_remaining c \<longleftrightarrow> sig_op_remaining c \<noteq> 0"
    by (simp add: word_le_nat_alt Suc_le_eq unat_gt_0)
  then show ?thesis by (simp add: consume_sig_op_def checked_sub_def)
qed

text \<open>The key that a signature check looks up, and the verdict that it stores on a miss.\<close>

definition verdict :: "script_env \<Rightarrow> SigCacheKey \<Rightarrow> bool" where
  "verdict env k = (case (signature k, pub_key k) of
     (Secp256k1 sg, SchnorrKey pk) \<Rightarrow> schnorr_verify env sg (message k) pk
   | (Ecdsa sg, EcdsaKey pk) \<Rightarrow> ecdsa_verify env sg (message k) pk
   | _ \<Rightarrow> False)"

definition sig_request ::
    "script_env \<Rightarrow> bool \<Rightarrow> SigHashType \<Rightarrow> u8 list \<Rightarrow> u8 list \<Rightarrow> ScriptSource \<Rightarrow> SigHashReusedValues
      \<Rightarrow> (SigCacheKey \<times> SigHashReusedValues) script_result" where
  "sig_request env ecdsa t key sig src rv = (case src of
     StandAloneScripts _ \<Rightarrow> Err NotATransactionInput
   | TxInput tx _ idx _ _ \<Rightarrow>
       if length sig \<noteq> 64 then Err (SigLength (length sig))
       else if length key \<noteq> (if ecdsa then 33 else 32) then Err PubKeyFormat
       else case (if ecdsa then ecdsa_key_from_slice env key else xonly_key_from_slice env key) of
         None \<Rightarrow> Err InvalidSignature
       | Some pk \<Rightarrow>
       case (if ecdsa then ecdsa_signature_from_compact env sig
             else schnorr_signature_from_slice env sig) of
         None \<Rightarrow> Err InvalidSignature
       | Some sg \<Rightarrow>
           map_option (\<lambda>(h, rv').
             Inr (if ecdsa
                  then \<lparr>signature = Ecdsa sg, pub_key = EcdsaKey pk,
                        message = hash_bytes (signing_hash_ecdsa env (hash_bytes h))\<rparr>
                  else \<lparr>signature = Secp256k1 sg, pub_key = SchnorrKey pk, message = hash_bytes h\<rparr>,
                  rv'))
             (calc_schnorr_signature_hash (signing_hash env) tx idx t rv))"

lemma check_signature_request:
  "check_signature env ecdsa t key sig vm0 =
     try_bind (take_sig_op vm0) (\<lambda>vm.
     try_bind (sig_request env ecdsa t key sig (script_source vm) (reused_values vm)) (\<lambda>(k, rv).
       Ok (verify_cached env k (verdict env k) (vm\<lparr>reused_values := rv\<rparr>))))"
  by (cases ecdsa; cases "take_sig_op vm0" rule: outcome_cases)
    (auto simp: check_signature_def check_schnorr_signature_def check_ecdsa_signature_def
      sig_request_def verdict_def Let_def calc_ecdsa_signature_hash_def check_pub_key_encoding_def
      check_pub_key_encoding_ecdsa_def split: ScriptSource.splits option.splits Option.bind_splits)

lemma take_sig_op_agree:
  assumes "runtime_sig_op_counter v = runtime_sig_op_counter w"
  shows "agree (\<lambda>v' w'. \<exists>n. sig_op_remaining (runtime_sig_op_counter v) \<noteq> 0
       \<and> n = sig_op_remaining (runtime_sig_op_counter v) - 1
       \<and> v' = v\<lparr>runtime_sig_op_counter := runtime_sig_op_counter v\<lparr>sig_op_remaining := n\<rparr>\<rparr>
       \<and> w' = w\<lparr>runtime_sig_op_counter := runtime_sig_op_counter v\<lparr>sig_op_remaining := n\<rparr>\<rparr>)
     (take_sig_op v) (take_sig_op w)"
  using assms by (simp add: take_sig_op_def consume_sig_op_cases)

lemma sig_request_no_panic:
  "source_ok src \<Longrightarrow> sig_request env ecdsa t key sig src rv \<noteq> None"
  by (auto simp: sig_request_def source_ok_def calc_schnorr_signature_hash_def Let_def
      split: ScriptSource.splits option.splits prod.splits)

lemma engine_ok_take:
  assumes "engine_ok limit v" and "sig_op_remaining (runtime_sig_op_counter v) \<noteq> 0"
  shows "engine_ok limit (v\<lparr>runtime_sig_op_counter := runtime_sig_op_counter v
    \<lparr>sig_op_remaining := sig_op_remaining (runtime_sig_op_counter v) - 1\<rparr>\<rparr>)"
  using assms by (auto simp: engine_ok_def word_le_nat_alt unat_minus_one)

lemma engine_ok_verify [simp]:
  "engine_ok limit (snd (verify_cached env key b vm)) = engine_ok limit vm"
  "engine_ok limit (vm\<lparr>reused_values := rv\<rparr>) = engine_ok limit vm"
  by (simp_all add: verify_cached_def engine_ok_def split: prod.splits option.splits)

lemma run_signature:
  assumes "engine_ok limit v"
  shows "agree (\<lambda>(b, v') (c, w'). b = c \<and> v' = w' \<and> engine_ok limit v')
    (check_signature env ecdsa t key sig v) (check_signature env ecdsa t key sig v)"
  unfolding check_signature_request
proof (rule agree_bind [OF take_sig_op_agree [OF refl]], elim exE conjE)
  fix a b n
  assume n: "sig_op_remaining (runtime_sig_op_counter v) \<noteq> 0"
    "n = sig_op_remaining (runtime_sig_op_counter v) - 1"
    and a: "a = v\<lparr>runtime_sig_op_counter := runtime_sig_op_counter v\<lparr>sig_op_remaining := n\<rparr>\<rparr>"
    and b: "b = v\<lparr>runtime_sig_op_counter := runtime_sig_op_counter v\<lparr>sig_op_remaining := n\<rparr>\<rparr>"
  have ok: "engine_ok limit b" using engine_ok_take [OF assms n(1)] by (simp add: b n(2))
  then have src: "source_ok (script_source b)" by (simp add: engine_ok_def)
  have "a = b" by (simp add: a b)
  have req: "agree (=) (sig_request env ecdsa t key sig (script_source b) (reused_values b))
      (sig_request env ecdsa t key sig (script_source b) (reused_values b))"
    using sig_request_no_panic [OF src] by (intro agree_same) auto
  show "agree (\<lambda>(b, v') (c, w'). b = c \<and> v' = w' \<and> engine_ok limit v')
     (try_bind (sig_request env ecdsa t key sig (script_source a) (reused_values a)) (\<lambda>(k, rv).
       Ok (verify_cached env k (verdict env k) (a\<lparr>reused_values := rv\<rparr>))))
     (try_bind (sig_request env ecdsa t key sig (script_source b) (reused_values b)) (\<lambda>(k, rv).
       Ok (verify_cached env k (verdict env k) (b\<lparr>reused_values := rv\<rparr>))))"
    unfolding \<open>a = b\<close> by (rule agree_bind [OF req]) (use ok in \<open>auto simp: case_prod_unfold\<close>)
qed

interpretation run: engine_simulation env "\<lambda>v w. v = w \<and> engine_ok limit v" for env limit
  by unfold_locales (auto simp: run_signature engine_ok_def [of limit "_\<lparr>dstack := _\<rparr>"], auto simp: engine_ok_def)

section \<open>Engines that differ in what they remember\<close>

text \<open>Every verdict in the cache is the one that the verification would give.\<close>

definition cache_sound :: "script_env \<Rightarrow> (SigCacheKey, bool) Cache \<Rightarrow> bool" where
  "cache_sound env c =
     (distinct (map fst (cache_map c)) \<and> list_all (\<lambda>(k, b). b = verdict env k) (cache_map c))"

definition reused_for :: "script_env \<Rightarrow> ScriptSource \<Rightarrow> SigHashReusedValues \<Rightarrow> bool" where
  "reused_for env src rv = (case src of
     TxInput tx _ _ _ _ \<Rightarrow> reused_ok (signing_hash env) (ptx tx) rv | StandAloneScripts _ \<Rightarrow> True)"

definition memory_sound :: "script_env \<Rightarrow> TxScriptEngine \<Rightarrow> bool" where
  "memory_sound env vm =
     (cache_sound env (sig_cache vm) \<and> reused_for env (script_source vm) (reused_values vm))"

definition alike :: "script_env \<Rightarrow> ScriptSource \<Rightarrow> u8 \<Rightarrow> TxScriptEngine \<Rightarrow> TxScriptEngine \<Rightarrow> bool" where
  "alike env src limit v w =
     (dstack v = dstack w \<and> astack v = astack w \<and> cond_stack v = cond_stack w \<and> num_ops v = num_ops w
      \<and> script_source v = src \<and> script_source w = src
      \<and> runtime_sig_op_counter v = runtime_sig_op_counter w
      \<and> engine_ok limit v \<and> memory_sound env v \<and> memory_sound env w)"

lemma cache_sound_lookup:
  "cache_sound env c \<Longrightarrow> map_of (cache_map c) k = Some b \<Longrightarrow> b = verdict env k"
  by (auto simp: cache_sound_def list_all_iff dest!: map_of_SomeD)

lemma cache_sound_new [simp]: "cache_sound env (Cache_new n)"
  by (simp add: cache_sound_def Cache_new_def)

lemma distinct_cache_insert:
  "distinct (map fst (cache_map c)) \<Longrightarrow> distinct (map fst (cache_map (cache_insert g k b c)))"
  by (simp add: cache_insert_def Let_def distinct_update distinct_swap_remove)

lemma cache_sound_insert:
  assumes "cache_sound env c"
  shows "cache_sound env (cache_insert g k (verdict env k) c)"
proof -
  let ?c = "cache_insert g k (verdict env k) c"
  have d: "distinct (map fst (cache_map c))" using assms by (simp add: cache_sound_def)
  have "b = verdict env k'" if "(k', b) \<in> set (cache_map ?c)" for k' b
    using cache_insert_entries [OF d, of g k "verdict env k" k' b]
      cache_sound_lookup [OF assms, of k' b] distinct_cache_insert [OF d, of g k "verdict env k"] that
    by auto
  then show ?thesis
    using distinct_cache_insert [OF d] by (auto simp: cache_sound_def list_all_iff)
qed

lemma verify_cached_sound:
  assumes "cache_sound env (sig_cache vm)"
  obtains c where "verify_cached env k (verdict env k) vm = (verdict env k, vm\<lparr>sig_cache := c\<rparr>)"
    and "cache_sound env c"
proof (cases "map_of (cache_map (sig_cache vm)) k")
  case None
  then show thesis
    using that [of "cache_insert (gen_range env) k (verdict env k) (sig_cache vm)"] assms
    by (simp add: verify_cached_def cache_get_def cache_sound_insert)
next
  case (Some b)
  have "cache_sound env (sig_cache vm\<lparr>get_counts := get_counts (sig_cache vm) + 1\<rparr>)"
    using assms by (simp add: cache_sound_def)
  then show thesis
    using that [of "sig_cache vm\<lparr>get_counts := get_counts (sig_cache vm) + 1\<rparr>"] Some
      cache_sound_lookup [OF assms Some]
    by (simp add: verify_cached_def cache_get_def)
qed

lemma sig_request_alike:
  assumes "source_ok src"
    and "reused_for env src rv" "reused_for env src sv"
  shows "agree (\<lambda>(k, rv') (l, sv'). k = l \<and> reused_for env src rv' \<and> reused_for env src sv')
    (sig_request env ecdsa t key sig src rv) (sig_request env ecdsa t key sig src sv)"
proof (cases src)
  case (TxInput tx input idx utxo p2sh)
  obtain x e where xe: "populated_input tx idx = Some (x, e)"
    using assms(1) by (auto simp: source_ok_def TxInput)
  have rv: "reused_ok (signing_hash env) (ptx tx) rv" and sv: "reused_ok (signing_hash env) (ptx tx) sv"
    using assms(2,3) by (simp_all add: TxInput reused_for_def)
  obtain r where "calc_schnorr_signature_hash (signing_hash env) tx idx t rv
      = Some (signing_hash env (sighash_message (signing_hash env) (ptx tx) idx x e t), r)"
    "reused_ok (signing_hash env) (ptx tx) r"
    using calc_schnorr_signature_hash_ref [OF rv xe] by metis
  moreover obtain s where "calc_schnorr_signature_hash (signing_hash env) tx idx t sv
      = Some (signing_hash env (sighash_message (signing_hash env) (ptx tx) idx x e t), s)"
    "reused_ok (signing_hash env) (ptx tx) s"
    using calc_schnorr_signature_hash_ref [OF sv xe] by metis
  ultimately show ?thesis by (auto simp: sig_request_def TxInput reused_for_def split: option.splits)
qed (simp add: sig_request_def)

lemma alike_update:
  "alike env src limit v w \<Longrightarrow> w = v\<lparr>sig_cache := sig_cache w, reused_values := reused_values w\<rparr>"
  by (cases v; cases w) (simp add: alike_def)

lemma alike_signature:
  assumes "alike env src limit v w"
  shows "agree (\<lambda>(b, v') (c, w'). b = c \<and> alike env src limit v' w')
    (check_signature env ecdsa t key sig v) (check_signature env ecdsa t key sig w)"
  unfolding check_signature_request
proof (rule agree_bind [OF take_sig_op_agree], goal_cases)
  case 1
  show ?case using assms by (simp add: alike_def)
next
  case (2 a b)
  then have n: "sig_op_remaining (runtime_sig_op_counter v) \<noteq> 0" and
    a: "a = v\<lparr>runtime_sig_op_counter := runtime_sig_op_counter v
      \<lparr>sig_op_remaining := sig_op_remaining (runtime_sig_op_counter v) - 1\<rparr>\<rparr>" and
    b: "b = w\<lparr>runtime_sig_op_counter := runtime_sig_op_counter v
      \<lparr>sig_op_remaining := sig_op_remaining (runtime_sig_op_counter v) - 1\<rparr>\<rparr>" by auto
  obtain c r where w: "w = v\<lparr>sig_cache := c, reused_values := r\<rparr>"
    using alike_update [OF assms] by blast
  have ok: "engine_ok limit a" using assms engine_ok_take [OF _ n] by (simp add: a alike_def)
  have mem: "memory_sound env a" "memory_sound env b"
    using assms by (auto simp: a b alike_def memory_sound_def)
  have ba: "b = a\<lparr>sig_cache := c, reused_values := r\<rparr>" by (simp add: a b w)
  have source: "script_source b = script_source a" by (simp add: ba)
  have a_src: "script_source a = src" using assms by (simp add: a alike_def)
  have req: "agree (\<lambda>(k, rv') (l, sv'). k = l \<and> reused_for env (script_source a) rv'
      \<and> reused_for env (script_source a) sv')
    (sig_request env ecdsa t key sig (script_source a) (reused_values a))
    (sig_request env ecdsa t key sig (script_source a) (reused_values b))"
    using ok mem by (intro sig_request_alike) (auto simp: engine_ok_def memory_sound_def source)
  have "agree (\<lambda>(b, v') (c, w'). b = c \<and> alike env src limit v' w')
      (Ok (verify_cached env k (verdict env k) (a\<lparr>reused_values := rv'\<rparr>)))
      (Ok (verify_cached env k (verdict env k) (b\<lparr>reused_values := sv'\<rparr>)))"
    if r: "reused_for env (script_source a) rv'" "reused_for env (script_source a) sv'" for k rv' sv'
  proof -
    have mem': "memory_sound env (a\<lparr>reused_values := rv'\<rparr>)" "memory_sound env (b\<lparr>reused_values := sv'\<rparr>)"
      using mem r by (auto simp: memory_sound_def source)
    obtain c1 where c1: "verify_cached env k (verdict env k) (a\<lparr>reused_values := rv'\<rparr>)
        = (verdict env k, a\<lparr>reused_values := rv', sig_cache := c1\<rparr>)" "cache_sound env c1"
      using verify_cached_sound [of env "a\<lparr>reused_values := rv'\<rparr>" k] mem'(1)
      by (simp add: memory_sound_def) blast
    obtain c2 where c2: "verify_cached env k (verdict env k) (b\<lparr>reused_values := sv'\<rparr>)
        = (verdict env k, b\<lparr>reused_values := sv', sig_cache := c2\<rparr>)" "cache_sound env c2"
      using verify_cached_sound [of env "b\<lparr>reused_values := sv'\<rparr>" k] mem'(2)
      by (simp add: memory_sound_def) blast
    show ?thesis
      unfolding c1(1) c2(1) using mem' ok a_src c1(2) c2(2)
      by (simp add: alike_def ba memory_sound_def engine_ok_def)
  qed
  then show ?case
    unfolding source by (intro agree_bind [OF req]) (clarsimp simp del: agree_Ok)
qed

interpretation cached: engine_simulation env "alike env src limit" for env src limit
  by unfold_locales
    (auto simp: alike_signature, auto simp: alike_def memory_sound_def engine_ok_def)

end
