(* ===== verification/Script_Properties.thy ===== *)
theory Script_Properties
  imports Script_Simulation
begin

text \<open>
  Properties of the script engine that follow from the two simulations, and of the standard scripts
  that it runs: no execution panics, the signature operations stay within what the input declares,
  the cache and the reused values never change an outcome.
\<close>

section \<open>Executions end, within their limits\<close>

lemma from_transaction_input_Some:
  "from_transaction_input tx input i entry rv cache = Some vm \<longleftrightarrow>
     i < length (tx_inputs (ptx tx)) \<and>
     vm = \<lparr>dstack = [], astack = [],
       script_source = TxInput tx input i entry (is_pay_to_script_hash (spk_script (entry_spk entry))),
       reused_values = rv, sig_cache = cache, cond_stack = [], num_ops = 0,
       runtime_sig_op_counter = RuntimeSigOpCounter_new (sig_op_count input)\<rparr>"
  by (auto simp: from_transaction_input_def Let_def)

lemma engine_ok_new:
  assumes "from_transaction_input tx input i entry rv cache = Some vm" and "i < length (entries tx)"
  shows "engine_ok (sig_op_count input) vm"
  using assms by (auto simp: from_transaction_input_Some engine_ok_def source_ok_def
      populated_input_def RuntimeSigOpCounter_new_def MAX_OPS_PER_SCRIPT_def)

lemma engine_ok_from_script: "engine_ok (- 1) (from_script s rv cache)"
  by (simp add: from_script_def engine_ok_def source_ok_def RuntimeSigOpCounter_new_def
      MAX_OPS_PER_SCRIPT_def)

lemma execute_ok:
  assumes "engine_ok limit vm"
  shows "execute env vm \<noteq> None" and "execute env vm = Ok vm' \<Longrightarrow> engine_ok limit vm'"
proof -
  have "agree (\<lambda>v w. v = w \<and> engine_ok limit v) (execute env vm) (execute env vm)"
    using run.both_execute [of limit env] assms by blast
  then show "execute env vm \<noteq> None" "execute env vm = Ok vm' \<Longrightarrow> engine_ok limit vm'"
    by (auto simp: agree_def)
qed

text \<open>
  C19: Running the scripts of an input never panics.  For an input that the transaction has and
  whose entry is known, the engine is built and its execution returns: with an error, or with an
  engine in good order (operation count within its limit, signature operations within what the
  input declares).  A stand-alone script never panics either.  No assumption is made on the
  scripts, the cache or the reused values.
\<close>

theorem execution_never_panics:
  assumes "i < length (tx_inputs (ptx tx))" and "i < length (entries tx)"
  shows "execute env (from_script s rv cache) \<noteq> None
    \<and> (\<exists>vm. from_transaction_input tx input i entry rv cache = Some vm
        \<and> (case execute env vm of
             None \<Rightarrow> False
           | Some (Inl e) \<Rightarrow> True
           | Some (Inr vm') \<Rightarrow> engine_ok (sig_op_count input) vm'))"
proof -
  obtain vm where vm: "from_transaction_input tx input i entry rv cache = Some vm"
    using assms(1) by (simp add: from_transaction_input_Some)
  note ok = execute_ok [OF engine_ok_new [OF vm assms(2)]]
  have "case execute env vm of None \<Rightarrow> False | Some (Inl e) \<Rightarrow> True
      | Some (Inr vm') \<Rightarrow> engine_ok (sig_op_count input) vm'"
    using ok [of env] by (auto split: option.split sum.split)
  with vm execute_ok(1) [OF engine_ok_from_script] show ?thesis by blast
qed

definition sample_env :: script_env where
  "sample_env = \<lparr>sha256 = id, blake2b = (\<lambda>m. hash_bytes (sample_hash m)), signing_hash = sample_hash,
     signing_hash_ecdsa = sample_hash, xonly_key_from_slice = Some, schnorr_signature_from_slice = Some,
     schnorr_verify = (\<lambda>sg msg pk. take 32 sg = pk), ecdsa_key_from_slice = Some,
     ecdsa_signature_from_compact = Some, ecdsa_verify = (\<lambda>sg msg pk. take 33 sg = pk),
     gen_range = (\<lambda>n s. unat n mod s)\<rparr>"

theorem execution_never_panics_witness:
  "\<exists>vm. from_transaction_input (sample_spend [0x51]) (hd (tx_inputs (ptx (sample_spend [0x51])))) 0
      (hd (entries (sample_spend [0x51]))) SigHashReusedValues_new (Cache_new 10) = Some vm
    \<and> (case execute sample_env vm of None \<Rightarrow> False | Some (Inl e) \<Rightarrow> True
       | Some (Inr vm') \<Rightarrow> engine_ok 1 vm')"
proof -
  let ?tx = "sample_spend [0x51]"
  have len: "0 < length (tx_inputs (ptx ?tx))" "0 < length (entries ?tx)"
    and count: "sig_op_count (hd (tx_inputs (ptx ?tx))) = 1"
    by (simp_all add: sample_spend_def)
  show ?thesis
    using execution_never_panics [OF len, of sample_env "[]" SigHashReusedValues_new "Cache_new 10"
        "hd (tx_inputs (ptx ?tx))" "hd (entries ?tx)"] unfolding count by blast
qed

text \<open>
  The signature operations that an execution counts.  \<open>get_sig_op_count\<close> panics exactly when
  the transaction has no input with the index, and a count that it returns is at most the number
  that the input declares.
\<close>

theorem counted_sig_ops_bounded:
  "(get_sig_op_count env tx i = None \<longleftrightarrow> length (tx_inputs (ptx tx)) \<le> i)
   \<and> (case get_sig_op_count env tx i of
        Some (Inr n) \<Rightarrow> n \<le> sig_op_count (tx_inputs (ptx tx) ! i)
      | _ \<Rightarrow> True)"
proof (cases "i < length (tx_inputs (ptx tx)) \<and> i < length (entries tx)")
  case True
  let ?input = "tx_inputs (ptx tx) ! i"
  obtain vm where vm: "from_transaction_input tx ?input i (entries tx ! i) SigHashReusedValues_new
      (Cache_new 0) = Some vm"
    using True by (simp add: from_transaction_input_Some)
  note ok = execute_ok [OF engine_ok_new [OF vm], of env]
  have used: "\<exists>n. used_sig_ops vm' = Some n \<and> n \<le> sig_op_count ?input"
    if "engine_ok (sig_op_count ?input) vm'" for vm'
    using that by (auto simp: engine_ok_def used_sig_ops_def counter_used_sig_ops_def checked_sub_def
        word_sub_le)
  have count: "get_sig_op_count env tx i
      = try_bind (execute env vm) (\<lambda>vm. map_option Inr (used_sig_ops vm))"
    using True by (simp add: get_sig_op_count_def vm)
  show ?thesis
    unfolding count
    by (cases "execute env vm" rule: outcome_cases) (use True ok used in \<open>fastforce+\<close>)
qed (auto simp: get_sig_op_count_def)

text \<open>
  C20: The signature cache and the reused values never change an outcome.  With a cache whose
  verdicts are those of the verification, and with reused values of the transaction at hand, an
  execution ends as one that starts with an empty cache and no reused values: with the same error,
  or with the same stacks and the same count of signature operations.  The cache and the values
  left behind are sound again, so the statement applies to the next input.
\<close>

theorem memory_never_changes_outcome:
  assumes "from_transaction_input tx input i entry rv cache = Some vm" and "i < length (entries tx)"
    and "cache_sound env cache" and "reused_ok (signing_hash env) (ptx tx) rv"
  shows "\<exists>vm\<^sub>0. from_transaction_input tx input i entry SigHashReusedValues_new (Cache_new 0) = Some vm\<^sub>0
    \<and> agree (\<lambda>v w. dstack v = dstack w
          \<and> runtime_sig_op_counter v = runtime_sig_op_counter w
          \<and> cache_sound env (sig_cache v) \<and> reused_ok (signing_hash env) (ptx tx) (reused_values v))
        (execute env vm) (execute env vm\<^sub>0)"
proof -
  obtain vm\<^sub>0 where vm\<^sub>0: "from_transaction_input tx input i entry SigHashReusedValues_new (Cache_new 0)
      = Some vm\<^sub>0"
    using assms(1) by (simp add: from_transaction_input_Some)
  have "alike env (script_source vm) (sig_op_count input) vm vm\<^sub>0"
    using assms vm\<^sub>0 engine_ok_new [OF assms(1,2)]
    by (auto simp: alike_def from_transaction_input_Some memory_sound_def reused_for_def)
  then have "agree (alike env (script_source vm) (sig_op_count input)) (execute env vm) (execute env vm\<^sub>0)"
    using cached.both_execute [of env "script_source vm" "sig_op_count input"] by blast
  moreover have "dstack v = dstack w \<and> runtime_sig_op_counter v = runtime_sig_op_counter w
      \<and> cache_sound env (sig_cache v) \<and> reused_ok (signing_hash env) (ptx tx) (reused_values v)"
    if "alike env (script_source vm) (sig_op_count input) v w" for v w
    using that assms(1) by (auto simp: alike_def memory_sound_def reused_for_def from_transaction_input_Some)
  ultimately show ?thesis using vm\<^sub>0 by (intro exI [of _ vm\<^sub>0]) (auto simp: agree_def)
qed

definition sample_cache :: "(SigCacheKey, bool) Cache" where
  "sample_cache = cache_insert (gen_range sample_env)
     \<lparr>signature = Secp256k1 (replicate 64 3), pub_key = SchnorrKey (replicate 32 3), message = [1]\<rparr> True
     (Cache_new 10)"

theorem memory_never_changes_outcome_witness:
  "\<exists>vm vm\<^sub>0. agree (\<lambda>v w. dstack v = dstack w
          \<and> runtime_sig_op_counter v = runtime_sig_op_counter w
          \<and> cache_sound sample_env (sig_cache v)
          \<and> reused_ok sample_hash (ptx (sample_spend [0x51])) (reused_values v))
        (execute sample_env vm) (execute sample_env vm\<^sub>0)
     \<and> sig_cache vm = sample_cache \<and> sig_cache vm\<^sub>0 = Cache_new 0
     \<and> rv_sequences (reused_values vm) = Some 9"
proof -
  let ?tx = "sample_spend [0x51]" and ?rv = "SigHashReusedValues_new\<lparr>rv_sequences := Some 9\<rparr>"
  let ?input = "hd (tx_inputs (ptx ?tx))" and ?entry = "hd (entries ?tx)"
  have len: "0 < length (tx_inputs (ptx ?tx))" "0 < length (entries ?tx)"
    by (simp_all add: sample_spend_def)
  then obtain vm where vm: "from_transaction_input ?tx ?input 0 ?entry ?rv sample_cache = Some vm"
    by (simp add: from_transaction_input_Some)
  have cache: "cache_sound sample_env sample_cache"
    by (simp add: cache_sound_def sample_cache_def cache_insert_def Cache_new_def sample_env_def
        verdict_def)
  have rv: "reused_ok (signing_hash sample_env) (ptx ?tx) ?rv"
    by (simp add: reused_ok_def SigHashReusedValues_new_def sample_spend_messages sample_hash_def
        sample_env_def)
  have env: "signing_hash sample_env = sample_hash" by (simp add: sample_env_def)
  obtain vm\<^sub>0 where vm\<^sub>0: "from_transaction_input ?tx ?input 0 ?entry SigHashReusedValues_new (Cache_new 0)
      = Some vm\<^sub>0"
    and run: "agree (\<lambda>v w. dstack v = dstack w
        \<and> runtime_sig_op_counter v = runtime_sig_op_counter w \<and> cache_sound sample_env (sig_cache v)
        \<and> reused_ok sample_hash (ptx ?tx) (reused_values v))
      (execute sample_env vm) (execute sample_env vm\<^sub>0)"
    using memory_never_changes_outcome [OF vm len(2) cache rv] unfolding env by blast
  have "sig_cache vm = sample_cache \<and> sig_cache vm\<^sub>0 = Cache_new 0
      \<and> rv_sequences (reused_values vm) = Some 9"
    using vm vm\<^sub>0 by (simp add: from_transaction_input_Some)
  with run show ?thesis by blast
qed

section \<open>The static count of signature operations\<close>

abbreviation multisig_op :: "OpCode \<Rightarrow> bool" where
  "multisig_op op \<equiv> op_code op \<in> {0xae, 0xaf, 0xa9}"

text \<open>Before the first parse error, \<^verbatim>\<open>Op16\<close> directly before a multisig opcode.\<close>

fun op16_multisig :: "OpCode option \<Rightarrow> (TxScriptError + OpCode) list \<Rightarrow> bool" where
  "op16_multisig prev [] = False"
| "op16_multisig prev (Inl e # ops) = False"
| "op16_multisig prev (Inr op # ops) =
     (multisig_op op \<and> map_option op_code prev = Some 0x60 \<or> op16_multisig (Some op) ops)"

lemma to_small_int_cases:
  assumes "op_code op \<ge> 0x51" "op_code op \<le> 0x60"
  shows "to_small_int op = (if op_code op = 0x60 then None else Some (op_code op - 0x50))"
    and "unat (op_code op - 0x50) \<le> 16"
proof -
  show "unat (op_code op - 0x50) \<le> 16"
    using assms by (simp add: word_le_nat_alt unat_sub)
  show "to_small_int op = (if op_code op = 0x60 then None else Some (op_code op - 0x50))"
    using assms by (auto simp: to_small_int_def Let_def)
qed

text \<open>The count after one opcode.\<close>

definition sig_step :: "OpCode option \<Rightarrow> u64 \<Rightarrow> OpCode \<Rightarrow> u64 option" where
  "sig_step prev n op =
     (if op_code op \<in> {0xac, 0xad, 0xab} then checked_add n 1
      else if multisig_op op
      then (case prev of
              None \<Rightarrow> checked_add n 20
            | Some q \<Rightarrow>
                if op_code q \<ge> 0x51 \<and> op_code q \<le> 0x60
                then to_small_int q \<bind> (\<lambda>k. checked_add n (ucast k)) else checked_add n 20)
      else Some n)"

lemma sig_ops_of_Cons:
  "sig_ops_of prev n (Inr op # ops) = sig_step prev n op \<bind> (\<lambda>m. sig_ops_of (Some op) m ops)"
  by (auto simp: sig_step_def MAX_PUB_KEYS_PER_MUTLTISIG_def split: option.splits)

lemma checked_add_small:
  assumes "unat n + 20 < 2 ^ 64" "unat k \<le> 20"
  shows "\<exists>m. checked_add n (k :: u64) = Some m \<and> unat m \<le> unat n + 20"
proof (cases "checked_add n k")
  case None
  then show ?thesis using assms by (simp add: checked_add_eq_None)
next
  case (Some m)
  then show ?thesis using assms by (auto simp: checked_add_eq_Some)
qed

lemma sig_step_panics:
  assumes "unat n + 20 < 2 ^ 64"
  shows "if multisig_op op \<and> map_option op_code prev = Some 0x60 then sig_step prev n op = None
    else \<exists>m. sig_step prev n op = Some m \<and> unat m \<le> unat n + 20"
proof -
  note add = checked_add_small [OF assms]
  consider (op16) q where "prev = Some q" "op_code q = 0x60"
    | (small) q where "prev = Some q" "op_code q \<ge> 0x51" "op_code q \<le> 0x60" "op_code q \<noteq> 0x60"
    | (other) "\<And>q. prev = Some q \<Longrightarrow> \<not> (op_code q \<ge> 0x51 \<and> op_code q \<le> 0x60)"
    by blast
  then show ?thesis
  proof cases
    case op16
    then show ?thesis using add [of 1] by (auto simp: sig_step_def to_small_int_cases(1))
  next
    case small
    have "unat (ucast (op_code q - 0x50) :: u64) \<le> 20"
      using to_small_int_cases(2) [OF small(2,3)] by (simp add: unat_ucast_wide)
    then show ?thesis
      using small add [of 1] add [of "ucast (op_code q - 0x50)"]
      by (auto simp: sig_step_def to_small_int_cases(1))
  next
    case other
    then have "map_option op_code prev \<noteq> Some 0x60" by auto
    then show ?thesis using other add [of 1] add [of 20] by (auto simp: sig_step_def split: option.splits)
  qed
qed

lemma sig_ops_of_panics:
  "unat n + 20 * length ops < 2 ^ 64 \<Longrightarrow>
     sig_ops_of prev n ops = None \<longleftrightarrow> op16_multisig prev ops"
proof (induction ops arbitrary: prev n)
  case (Cons r ops)
  show ?case
  proof (cases r)
    case (Inr op)
    have "unat n + 20 < 2 ^ 64" using Cons.prems by simp
    note step = sig_step_panics [OF this, of op prev]
    have IH: "sig_ops_of (Some op) m ops = None \<longleftrightarrow> op16_multisig (Some op) ops"
      if "unat m \<le> unat n + 20" for m using Cons that by simp
    show ?thesis
    proof (cases "multisig_op op \<and> map_option op_code prev = Some 0x60")
      case True
      then have "sig_step prev n op = None" using step by simp
      then show ?thesis unfolding Inr sig_ops_of_Cons using True by simp
    next
      case False
      then obtain m where m: "sig_step prev n op = Some m" "unat m \<le> unat n + 20" using step unfolding if_not_P [OF False] by blast
      have "op16_multisig prev (r # ops) = op16_multisig (Some op) ops"
        using False unfolding Inr op16_multisig.simps by blast
      then show ?thesis unfolding Inr sig_ops_of_Cons using m(1) IH [OF m(2)] by simp
    qed
  qed simp
qed simp

section \<open>Parsing\<close>

lemma opcode_deserialize_parts:
  assumes "opcode_deserialize c it = (r, rest)"
  shows "case r of Inl e \<Rightarrow> rest = [] | Inr op \<Rightarrow> c # it = opcode_serialize op @ rest"
proof (cases "op_length c")
  case (Fixed n)
  then show ?thesis
    using assms by (auto simp: opcode_deserialize_def opcode_new_def opcode_serialize_def split: if_splits)
next
  case (Prefixed w)
  show ?thesis
  proof (cases "length (take w it) = w")
    case True
    let ?len = "le_to_nat (take w it)" and ?rest = "drop w it"
    have len: "nat_to_le w ?len = take w it" using True by (rule nat_to_le_le_to_nat)
    have parts: "take w it @ take ?len ?rest @ drop (?len + w) it = it"
      by (metis append_take_drop_id drop_drop)
    have "(if length (take ?len ?rest) \<noteq> ?len then Inl (MalformedPush ?len (length (take ?len ?rest)))
        else Inr \<lparr>op_code = c, op_data = take ?len ?rest\<rparr>, drop ?len ?rest) = (r, rest)"
      using assms True by (simp add: opcode_deserialize_def Prefixed Let_def)
    then show ?thesis
      using len parts by (auto simp: opcode_serialize_def Prefixed min_def split: if_splits)
  next
    case False
    then have "r = Inl (MalformedPushSize (take w it)) \<and> rest = drop w it"
      using assms by (simp add: opcode_deserialize_def Prefixed Let_def split: if_splits)
    then show ?thesis using False by simp
  qed
qed

lemma parse_script_item:
  obtains r rest where "parse_script (c # it) = r # parse_script rest" "length rest \<le> length it"
    "case r of Inl e \<Rightarrow> rest = [] | Inr op \<Rightarrow> c # it = opcode_serialize op @ rest"
proof -
  obtain r rest where d: "opcode_deserialize c it = (r, rest)" by fastforce
  then have "parse_script (c # it) = r # parse_script rest"
    by (simp add: parse_script.simps [of "c # it"] deserialize_next_opcode_def)
  then show thesis using that opcode_deserialize_shorter [OF d] opcode_deserialize_parts [OF d] by blast
qed

lemma parse_script_length: "length (parse_script s) \<le> length s"
proof (induction "length s" arbitrary: s rule: less_induct)
  case less
  show ?case
  proof (cases s)
    case (Cons c it)
    obtain r rest where p: "parse_script s = r # parse_script rest" "length rest \<le> length it"
      using parse_script_item [of c it] Cons by metis
    then have "length (parse_script rest) \<le> length rest" using less Cons by simp
    then show ?thesis using p Cons by simp
  qed simp
qed

text \<open>
  C26: Parsing a script ends and loses nothing.  The parse has at most as many items as the script
  has bytes; it is a list of opcodes, followed by at most one error; the opcodes written back one
  after the other are the script up to the error, and the whole script when there is none.
\<close>

theorem parse_script_total:
  "\<exists>ops err rest. parse_script s = map Inr ops @ map Inl err \<and> length err \<le> 1
     \<and> length (parse_script s) \<le> length s
     \<and> s = concat (map opcode_serialize ops) @ rest \<and> (err = [] \<longleftrightarrow> rest = [])"
proof (induction "length s" arbitrary: s rule: less_induct)
  case less
  show ?case
  proof (cases s)
    case Nil
    then show ?thesis by (intro exI [of _ "[]"]) simp
  next
    case (Cons c it)
    obtain r rest where p: "parse_script s = r # parse_script rest" "length rest \<le> length it"
      "case r of Inl e \<Rightarrow> rest = [] | Inr op \<Rightarrow> s = opcode_serialize op @ rest"
      using parse_script_item [of c it] Cons by metis
    show ?thesis
    proof (cases r)
      case (Inl e)
      with p Cons show ?thesis
        by (intro exI [of _ "[]"] exI [of _ "[e]"] exI [of _ s]) simp
    next
      case (Inr op)
      obtain ops err left where IH: "parse_script rest = map Inr ops @ map Inl err" "length err \<le> 1"
        "rest = concat (map opcode_serialize ops) @ left" "err = [] \<longleftrightarrow> left = []"
        using less [of rest] p(2) Cons by auto
      have "s = concat (map opcode_serialize (op # ops)) @ left" using p(3) Inr IH(3) by simp
      moreover have "parse_script s = map Inr (op # ops) @ map Inl err" using p(1) Inr IH(1) by simp
      ultimately show ?thesis using IH(2,4) parse_script_length [of s] by metis
    qed
  qed
qed

section \<open>A count that panics\<close>

text \<open>
  C27: The static count of signature operations panics on \<^verbatim>\<open>Op16\<close>.  For a spend of a
  pay-to-script-hash output whose signature script only pushes, the count of the redeem script
  panics exactly when the redeem script has \<^verbatim>\<open>Op16\<close> directly before a multisig opcode (in the
  part that parses): the range that \<open>to_small_int\<close> asserts leaves \<^verbatim>\<open>Op16\<close> out.
\<close>

theorem sig_op_count_panics_on_op16:
  assumes "is_pay_to_script_hash (spk_script spk)"
    and "parse_script sig_script = map Inr pushes @ [Inr redeem]"
    and "list_all is_push_opcode (pushes @ [redeem])"
    and "length (op_data redeem) < 2 ^ 59"
  shows "get_sig_op_count_upper_bound sig_script spk = None
    \<longleftrightarrow> op16_multisig None (parse_script (op_data redeem))"
proof -
  have "\<not> list_ex (\<lambda>r. case r of Inl _ \<Rightarrow> True | Inr op \<Rightarrow> \<not> is_push_opcode op) (parse_script sig_script)"
    using assms(3) by (auto simp: assms(2) list_ex_iff list_all_iff)
  then have "get_sig_op_count_upper_bound sig_script spk
      = sig_ops_of None 0 (parse_script (op_data redeem))"
    using assms(1,2) by (simp add: get_sig_op_count_upper_bound_def get_sig_op_count_by_opcodes_def)
  moreover have "unat (0 :: u64) + 20 * length (parse_script (op_data redeem)) < 2 ^ 64"
    using parse_script_length [of "op_data redeem"] assms(4) by simp
  ultimately show ?thesis using sig_ops_of_panics by metis
qed

theorem sig_op_count_panics_on_op16_witness:
  "get_sig_op_count_upper_bound [0x02, 0x60, 0xae]
     (ScriptPublicKey_from_vec 0 ([0xaa, 0x20] @ replicate 32 0 @ [0x87])) = None"
proof -
  let ?redeem = "\<lparr>op_code = 0x02, op_data = [0x60, 0xae]\<rparr>"
  have "parse_script [0x02, 0x60, 0xae] = map Inr [] @ [Inr ?redeem]"
    by (simp add: parse_script.simps deserialize_next_opcode_def opcode_deserialize_def op_length_def
        opcode_new_def)
  moreover have "op16_multisig None (parse_script (op_data ?redeem))"
    by (simp add: parse_script.simps deserialize_next_opcode_def opcode_deserialize_def op_length_def
        opcode_new_def)
  ultimately show ?thesis
    using sig_op_count_panics_on_op16 [of "ScriptPublicKey_from_vec 0 ([0xaa, 0x20] @ replicate 32 0 @ [0x87])"
        "[0x02, 0x60, 0xae]" "[]" ?redeem]
    by (simp add: is_pay_to_script_hash_def ScriptPublicKey_from_vec_def is_push_opcode_def
        NO_COST_OPCODE_def nth_append)
qed

end
