(* ===== verification/Script_Multisig.thy ===== *)
theory Script_Multisig
  imports Script_Properties "HOL-Library.Sublist"
begin

text \<open>
  The multisig opcodes against their meaning.  The two loops of
  \<open>op_check_multisig_schnorr_or_ecdsa\<close> walk the keys once; they accept exactly when the signatures
  belong, in order, to some of the keys.
\<close>

section \<open>The greedy walk\<close>

fun first_key :: "('k \<Rightarrow> bool) \<Rightarrow> nat \<Rightarrow> 'k list \<Rightarrow> 'k list option" where
  "first_key P n [] = None"
| "first_key P n (k # ks) =
     (if length (k # ks) < n then None else if P k then Some ks else first_key P n ks)"

fun walk :: "('s \<Rightarrow> 'k \<Rightarrow> bool) \<Rightarrow> 's list \<Rightarrow> 'k list \<Rightarrow> bool" where
  "walk V [] ks = True"
| "walk V (s # ss) ks = (case first_key (V s) (Suc (length ss)) ks of
     None \<Rightarrow> False | Some ks' \<Rightarrow> walk V ss ks')"

text \<open>The signatures belong, in order, to some of the keys.\<close>

definition in_order :: "('s \<Rightarrow> 'k \<Rightarrow> bool) \<Rightarrow> 's list \<Rightarrow> 'k list \<Rightarrow> bool" where
  "in_order V ss ks = (\<exists>ms. subseq ms ks \<and> list_all2 V ss ms)"

lemma in_order_length: "in_order V ss ks \<Longrightarrow> length ss \<le> length ks"
  unfolding in_order_def by (metis list_all2_lengthD list_emb_length)

lemma in_order_tail: "in_order V (s # ss) ks \<Longrightarrow> in_order V ss ks"
  unfolding in_order_def list_all2_Cons1 by (metis subseq_Cons')

lemma in_order_Cons:
  "in_order V (s # ss) (k # ks) \<longleftrightarrow> (if V s k then in_order V ss ks else in_order V (s # ss) ks)"
proof -
  have hit: "in_order V (s # ss) (k # ks)" if V: "V s k" and ord: "in_order V ss ks"
  proof -
    obtain ms where "subseq ms ks" "list_all2 V ss ms" using ord by (auto simp: in_order_def)
    then have "subseq (k # ms) (k # ks) \<and> list_all2 V (s # ss) (k # ms)" using V by simp
    then show ?thesis unfolding in_order_def by blast
  qed
  have skip: "in_order V (s # ss) (k # ks)" if "in_order V (s # ss) ks"
    using that unfolding in_order_def by (metis list_emb_Cons)
  have "V s k \<and> in_order V ss ks \<or> in_order V (s # ss) ks" if ord: "in_order V (s # ss) (k # ks)"
  proof -
    obtain m ms where m: "subseq (m # ms) (k # ks)" "V s m" "list_all2 V ss ms"
      using ord by (auto simp: in_order_def list_all2_Cons1)
    show ?thesis
    proof (cases "m = k")
      case True
      then have "subseq ms ks" using m(1) by simp
      then show ?thesis using m True by (auto simp: in_order_def)
    next
      case False
      then have "subseq (m # ms) ks" using m(1) by simp
      moreover have "list_all2 V (s # ss) (m # ms)" using m by simp
      ultimately show ?thesis unfolding in_order_def by blast
    qed
  qed
  then show ?thesis using hit skip in_order_tail by auto
qed

lemma first_key_in_order:
  "(case first_key (V s) (Suc (length ss)) ks of None \<Rightarrow> False | Some ks' \<Rightarrow> in_order V ss ks')
     \<longleftrightarrow> in_order V (s # ss) ks"
proof (induction ks)
  case Nil
  then show ?case using in_order_length [of V "s # ss" "[]"] by auto
next
  case (Cons k ks)
  show ?case
  proof (cases "length (k # ks) < Suc (length ss)")
    case True
    then show ?thesis using in_order_length [of V "s # ss" "k # ks"] by auto
  next
    case False
    then show ?thesis using Cons.IH by (simp add: in_order_Cons)
  qed
qed

lemma walk_iff: "walk V ss ks \<longleftrightarrow> in_order V ss ks"
proof (induction ss arbitrary: ks)
  case Nil
  then show ?case by (auto simp: in_order_def)
next
  case (Cons s ss)
  then show ?case using first_key_in_order [where V = V and s = s and ss = ss and ks = ks] by (simp split: option.splits)
qed

section \<open>The loops compute the walk\<close>

text \<open>An engine whose memory is sound, with enough signature operations left.\<close>

definition ready :: "script_env \<Rightarrow> ScriptSource \<Rightarrow> nat \<Rightarrow> TxScriptEngine \<Rightarrow> bool" where
  "ready env src n vm =
     (memory_sound env vm \<and> script_source vm = src \<and> source_ok src
      \<and> n \<le> unat (sig_op_remaining (runtime_sig_op_counter vm)))"

text \<open>What a pair of a signature (with its hash type) and a key asks from the verification.\<close>

definition pair_request :: "script_env \<Rightarrow> bool \<Rightarrow> ScriptSource \<Rightarrow> u8 list \<Rightarrow> u8 list \<Rightarrow> SigCacheKey option" where
  "pair_request env ecdsa src sg key =
     (if sg = [] then None
      else case SigHashType_from_u8 (last sg) of
        None \<Rightarrow> None
      | Some t \<Rightarrow> (case sig_request env ecdsa t key (butlast sg) src SigHashReusedValues_new of
          Some (Inr (k, _)) \<Rightarrow> Some k | _ \<Rightarrow> None))"

definition signs :: "script_env \<Rightarrow> bool \<Rightarrow> ScriptSource \<Rightarrow> u8 list \<Rightarrow> u8 list \<Rightarrow> bool" where
  "signs env ecdsa src sg key = (case pair_request env ecdsa src sg key of None \<Rightarrow> False | Some k \<Rightarrow> verdict env k)"

abbreviation same_run :: "TxScriptEngine \<Rightarrow> TxScriptEngine \<Rightarrow> bool" where
  "same_run v w \<equiv> dstack w = dstack v \<and> astack w = astack v \<and> cond_stack w = cond_stack v
     \<and> num_ops w = num_ops v"

lemma check_signature_ready:
  assumes "ready env src (Suc n) vm" "SigHashType_from_u8 (last sg) = Some t"
    "pair_request env ecdsa src sg key \<noteq> None"
  shows "\<exists>vm'. check_signature env ecdsa t key (butlast sg) vm = Ok (signs env ecdsa src sg key, vm')
    \<and> ready env src n vm' \<and> same_run vm vm'"
proof -
  let ?c = "runtime_sig_op_counter vm"
  define v1 where "v1 = vm\<lparr>runtime_sig_op_counter := ?c\<lparr>sig_op_remaining := sig_op_remaining ?c - 1\<rparr>\<rparr>"
  have rem: "sig_op_remaining ?c \<noteq> 0" using assms(1) by (auto simp: ready_def)
  then have take: "take_sig_op vm = Ok v1" by (simp add: take_sig_op_def consume_sig_op_cases v1_def)
  have v1: "script_source v1 = src" "memory_sound env v1" "same_run vm v1"
    "n \<le> unat (sig_op_remaining (runtime_sig_op_counter v1))"
    using assms(1) rem by (auto simp: ready_def memory_sound_def v1_def unat_minus_one)
  obtain k r0 where k: "sig_request env ecdsa t key (butlast sg) src SigHashReusedValues_new = Ok (k, r0)"
    "signs env ecdsa src sg key = verdict env k"
    using assms(2,3) by (auto simp: pair_request_def signs_def split: if_splits option.splits sum.splits)
  have "reused_for env src SigHashReusedValues_new" by (simp add: reused_for_def split: ScriptSource.splits)
  moreover have "reused_for env src (reused_values v1)" using v1(1,2) by (simp add: memory_sound_def)
  ultimately obtain r where r: "sig_request env ecdsa t key (butlast sg) src (reused_values v1) = Ok (k, r)"
    "reused_for env src r"
    using sig_request_alike [of src env "reused_values v1" SigHashReusedValues_new ecdsa t key "butlast sg"]
      assms(1) k(1) by (auto simp: agree_def ready_def)
  have mem: "memory_sound env (v1\<lparr>reused_values := r\<rparr>)" using v1(1,2) r(2) by (simp add: memory_sound_def)
  obtain c where c: "verify_cached env k (verdict env k) (v1\<lparr>reused_values := r\<rparr>)
      = (verdict env k, v1\<lparr>reused_values := r, sig_cache := c\<rparr>)" "cache_sound env c"
    using verify_cached_sound [of env "v1\<lparr>reused_values := r\<rparr>" k] mem
    by (simp add: memory_sound_def) blast
  have "check_signature env ecdsa t key (butlast sg) vm
      = Ok (verdict env k, v1\<lparr>reused_values := r, sig_cache := c\<rparr>)"
    unfolding check_signature_request take by (simp add: v1(1) r(1) c(1))
  moreover have "ready env src n (v1\<lparr>reused_values := r, sig_cache := c\<rparr>)"
    using assms(1) v1(1,4) r(2) c(2) by (simp add: ready_def memory_sound_def)
  ultimately show ?thesis using k(2) v1(3) by auto
qed

lemma match_signature_ready:
  "ready env src (length keys) vm \<Longrightarrow> SigHashType_from_u8 (last sg) = Some t \<Longrightarrow> 0 < n \<Longrightarrow>
   list_all (\<lambda>key. pair_request env ecdsa src sg key \<noteq> None) keys \<Longrightarrow>
   \<exists>vm'. match_signature env ecdsa t (butlast sg) n keys vm
       = Ok (first_key (signs env ecdsa src sg) n keys, vm') \<and> same_run vm vm'
     \<and> pred_option (\<lambda>ks. ready env src (length ks) vm') (first_key (signs env ecdsa src sg) n keys)"
proof (induction keys arbitrary: vm)
  case (Cons key keys)
  have "ready env src (Suc (length keys)) vm" "pair_request env ecdsa src sg key \<noteq> None"
    using Cons.prems by simp_all
  then obtain vm' where vm': "check_signature env ecdsa t key (butlast sg) vm = Ok (signs env ecdsa src sg key, vm')"
    "ready env src (length keys) vm'" "same_run vm vm'"
    using check_signature_ready Cons.prems(2) by blast
  show ?case
  proof (cases "length (key # keys) < n \<or> signs env ecdsa src sg key")
    case True
    then show ?thesis using vm' by auto
  next
    case False
    then show ?thesis using Cons.IH [OF vm'(2)] Cons.prems(2-4) vm' by auto
  qed
qed simp

lemma first_key_Some:
  "first_key P n ks = Some ks' \<Longrightarrow> n \<le> Suc (length ks') \<and> set ks' \<subseteq> set ks"
  by (induction ks) (auto split: if_splits)

lemma match_signatures_ready:
  "ready env src (length keys) vm \<Longrightarrow> n = i + length sigs \<Longrightarrow> length sigs \<le> length keys \<Longrightarrow>
   list_all (\<lambda>sg. list_all (\<lambda>key. pair_request env ecdsa src sg key \<noteq> None) keys) sigs \<Longrightarrow>
   \<exists>vm'. match_signatures env ecdsa n i sigs keys vm = Ok (\<not> walk (signs env ecdsa src) sigs keys, vm')
     \<and> same_run vm vm'"
proof (induction sigs arbitrary: i keys vm)
  case (Cons sg sigs)
  let ?first = "first_key (signs env ecdsa src sg) (Suc (length sigs)) keys"
  have reqs: "list_all (\<lambda>key. pair_request env ecdsa src sg key \<noteq> None) keys"
    and "keys \<noteq> []" using Cons.prems(3,4) by auto
  then have "pair_request env ecdsa src sg (hd keys) \<noteq> None" by (cases keys) simp_all
  then obtain t where t: "sg \<noteq> []" "SigHashType_from_u8 (last sg) = Some t"
    by (auto simp: pair_request_def split: if_splits option.splits)
  have n: "n - i = Suc (length sigs)" "n = Suc i + length sigs" using Cons.prems(2) by simp_all
  obtain v1 where v1: "match_signature env ecdsa t (butlast sg) (n - i) keys vm = Ok (?first, v1)"
    "same_run vm v1" "pred_option (\<lambda>ks. ready env src (length ks) v1) ?first"
    using match_signature_ready [OF Cons.prems(1) t(2) _ reqs, of "n - i"] n(1) by auto
  show ?case
  proof (cases ?first)
    case None
    then show ?thesis using v1(1,2) t by simp
  next
    case (Some ks)
    have ks: "length sigs \<le> length ks" "set ks \<subseteq> set keys" using first_key_Some [OF Some] by simp_all
    have "list_all (\<lambda>sg. list_all (\<lambda>key. pair_request env ecdsa src sg key \<noteq> None) ks) sigs"
      using Cons.prems(4) ks(2) by (auto simp: list_all_iff)
    then show ?thesis
      using Cons.IH [of ks v1 "Suc i"] n(2) ks(1) v1 t Some by auto
  qed
qed simp

section \<open>The opcodes\<close>

lemma with_i32_snoc:
  "dstack vm = s @ [x] \<Longrightarrow> deserialize_i32 x = Ok a \<Longrightarrow> with_i32 k vm = k a (vm\<lparr>dstack := s\<rparr>)"
  by (simp add: with_i32_def pop_items_snoc1 [unfolded One_nat_def])

lemma split_off_snoc:
  "dstack vm = s @ xs \<Longrightarrow> split_off_items (length xs) vm = Ok (xs, vm\<lparr>dstack := s\<rparr>)"
  by (simp add: split_off_items_def)

text \<open>
  C21: A multisig opcode accepts exactly the signatures that belong, in order, to some of the keys.
  With the keys, the signatures and their numbers on the stack, enough operations left, every pair
  of a signature and a key well-formed, and a sound memory, the opcode replaces them by true when
  there is such an assignment and fails with \<open>NullFail\<close> when there is none.
\<close>

theorem multisig_accepts_in_order:
  assumes "dstack vm = rest @ sigs @ [m] @ keys @ [n]"
    and "deserialize_i32 n = Ok (int (length keys))" and "deserialize_i32 m = Ok (int (length sigs))"
    and "length sigs \<le> length keys" and "length keys \<le> 20"
    and "0 \<le> num_ops vm" and "num_ops vm + int (length keys) \<le> MAX_OPS_PER_SCRIPT"
    and "memory_sound env vm" and "source_ok (script_source vm)"
    and "length keys \<le> unat (sig_op_remaining (runtime_sig_op_counter vm))"
    and "list_all (\<lambda>sg. list_all (\<lambda>key. pair_request env ecdsa (script_source vm) sg key \<noteq> None) keys) sigs"
  shows "if in_order (signs env ecdsa (script_source vm)) sigs keys
    then \<exists>vm'. op_check_multisig_schnorr_or_ecdsa env ecdsa vm = Ok vm' \<and> dstack vm' = rest @ [[1]]
    else op_check_multisig_schnorr_or_ecdsa env ecdsa vm = Err NullFail"
proof -
  define v where "v = vm\<lparr>num_ops := num_ops vm + int (length keys), dstack := rest\<rparr>"
  have "in_i32 (num_ops vm + int (length keys))"
    using assms(6,7) by (simp add: in_i32_def MAX_OPS_PER_SCRIPT_def)
  then have ops: "add_ops_count (int (length keys)) (vm\<lparr>dstack := s\<rparr>)
      = Ok (vm\<lparr>dstack := s, num_ops := num_ops vm + int (length keys)\<rparr>)" for s
    by (simp add: add_ops_count_def)
  have run: "op_check_multisig_schnorr_or_ecdsa env ecdsa vm
      = try_bind (match_signatures env ecdsa (length sigs) 0 sigs keys v) (\<lambda>(failed, vm).
          if failed \<and> list_ex (\<lambda>sg. sg \<noteq> []) sigs then Err NullFail else push_bool (\<not> failed) vm)"
    unfolding op_check_multisig_schnorr_or_ecdsa_def
    using assms(1-7) ops
    by (simp add: with_i32_snoc [of vm "rest @ sigs @ [m] @ keys" n] MAX_PUB_KEYS_PER_MUTLTISIG_def
        split_off_snoc [of _ "rest @ sigs @ [m]" keys, simplified]
        with_i32_snoc [of _ "rest @ sigs" m, simplified] split_off_snoc [of _ rest sigs] v_def)
  have "ready env (script_source vm) (length keys) v"
    using assms(8-10) by (simp add: ready_def v_def memory_sound_def)
  then obtain vm' where vm': "match_signatures env ecdsa (length sigs) 0 sigs keys v
      = Ok (\<not> in_order (signs env ecdsa (script_source vm)) sigs keys, vm')" "dstack vm' = rest"
    using match_signatures_ready [of env "script_source vm" keys v "length sigs" 0 sigs ecdsa] assms(4,11)
    by (auto simp: walk_iff v_def)
  have "list_ex (\<lambda>sg. sg \<noteq> []) sigs" if "\<not> in_order (signs env ecdsa (script_source vm)) sigs keys"
    using that assms(4,11) by (cases sigs; cases keys) (auto simp: in_order_def pair_request_def)
  then show ?thesis
    unfolding run vm'(1) using vm'(2)
    by (simp add: push_bool_def on_dstack_def push_item_def serialize_bool_def)
qed

lemma sample_pair:
  assumes "length sg = 65" "last sg = 1" "length key = 32"
  shows "pair_request sample_env False (TxInput (sample_spend []) input 0 entry False) sg key \<noteq> None"
    and "signs sample_env False (TxInput (sample_spend []) input 0 entry False) sg key
      \<longleftrightarrow> take 32 (butlast sg) = key"
proof -
  obtain r where r: "calc_schnorr_signature_hash sample_hash (sample_spend []) 0 1 SigHashReusedValues_new = Some r"
    using calc_schnorr_signature_hash_ref [OF reused_ok_new sample_spend_input] by blast
  obtain h rv where hr: "r = (h, rv)" by fastforce
  have "sg \<noteq> []" using assms(1) by auto
  moreover have "SigHashType_from_u8 1 = Some 1" by code_simp
  ultimately have "pair_request sample_env False (TxInput (sample_spend []) input 0 entry False) sg key
      = Some \<lparr>signature = Secp256k1 (butlast sg), pub_key = SchnorrKey key, message = hash_bytes h\<rparr>"
    using assms r hr by (simp add: pair_request_def sig_request_def sample_env_def)
  then show "pair_request sample_env False (TxInput (sample_spend []) input 0 entry False) sg key \<noteq> None"
    "signs sample_env False (TxInput (sample_spend []) input 0 entry False) sg key
      \<longleftrightarrow> take 32 (butlast sg) = key"
    by (simp_all add: signs_def verdict_def sample_env_def)
qed

definition sample_multisig :: "u8 list list \<Rightarrow> TxScriptEngine" where
  "sample_multisig stack =
     \<lparr>dstack = stack, astack = [],
      script_source = TxInput (sample_spend []) (hd (tx_inputs (ptx (sample_spend [])))) 0
        (hd (entries (sample_spend []))) False,
      reused_values = SigHashReusedValues_new, sig_cache = Cache_new 0, cond_stack = [], num_ops = 0,
      runtime_sig_op_counter = RuntimeSigOpCounter_new 3\<rparr>"

theorem multisig_accepts_in_order_witness:
  "\<exists>vm'. op_check_multisig_schnorr_or_ecdsa sample_env False
      (sample_multisig ([replicate 64 5 @ [1], replicate 64 7 @ [1]] @ [[2]]
        @ [replicate 32 5, replicate 32 6, replicate 32 7] @ [[3]])) = Ok vm' \<and> dstack vm' = [[1]]"
proof -
  let ?sigs = "[replicate 64 5 @ [1], replicate 64 7 @ [1]] :: u8 list list"
  let ?keys = "[replicate 32 5, replicate 32 6, replicate 32 7] :: u8 list list"
  let ?vm = "sample_multisig ([] @ ?sigs @ [[2]] @ ?keys @ [[3]])"
  let ?signs = "signs sample_env False (script_source ?vm)"
  have src: "script_source ?vm = TxInput (sample_spend []) (hd (tx_inputs (ptx (sample_spend [])))) 0
      (hd (entries (sample_spend []))) False" by (simp add: sample_multisig_def)
  have "list_all2 ?signs ?sigs [replicate 32 5, replicate 32 7]"
    unfolding src by (simp add: sample_pair(2))
  moreover have "subseq [replicate 32 5, replicate 32 7 :: u8 list] ?keys" by (simp add: subseq_Cons2_iff)
  ultimately have order: "in_order ?signs ?sigs ?keys" unfolding in_order_def by blast
  have "deserialize_i32 [3] = Ok (int (length ?keys))" "deserialize_i32 [2] = Ok (int (length ?sigs))"
    by code_simp+
  moreover have "list_all (\<lambda>sg. list_all (\<lambda>key. pair_request sample_env False (script_source ?vm) sg key \<noteq> None)
      ?keys) ?sigs"
    unfolding src by (simp add: sample_pair(1) del: not_None_eq)
  moreover have "memory_sound sample_env ?vm" "source_ok (script_source ?vm)"
    by (simp_all add: sample_multisig_def memory_sound_def reused_for_def source_ok_def sample_spend_input)
  ultimately show ?thesis
    using multisig_accepts_in_order [of ?vm "[]" ?sigs "[2]" ?keys "[3]" sample_env False] order
    by (simp add: sample_multisig_def RuntimeSigOpCounter_new_def MAX_OPS_PER_SCRIPT_def)
qed

end
