(* ===== verification/Standard_Spends.thy ===== *)
theory Standard_Spends
  imports Script_Multisig
begin

text \<open>
  Spends of the standard scripts, run by the engine: a pay-to-public-key output is spent exactly by
  a valid signature, and a pay-to-script-hash output only by a script with the committed hash.
\<close>

section \<open>Single steps\<close>

lemma execute_parsed_push:
  assumes "cond_stack vm = []" "length data \<le> 520"
  shows "execute_parsed env only_push (Inr (push_op data)) vm
    = (if length (astack vm) + length (dstack vm) < 244 then Ok (vm\<lparr>dstack := dstack vm @ [data]\<rparr>)
       else Err (StackSizeExceeded (Suc (length (astack vm) + length (dstack vm))) 244))"
proof -
  have len: "length data < 2 ^ 32" "length data < 65535" using assms(2) by simp_all
  have push: "is_push_opcode (push_op data)" using is_push_push_op [OF len(1)] .
  then have low: "op_code (push_op data) \<le> 0x60" by (simp add: is_push_opcode_def NO_COST_OPCODE_def)
  have legal: "\<not> is_disabled (push_op data)" "\<not> always_illegal (push_op data)"
    using low by (auto simp: is_disabled_def always_illegal_def word_le_nat_alt)
  have small: "\<not> MAX_SCRIPT_ELEMENT_SIZE < length (op_data (push_op data))"
    using length_push_op_data [of data] assms(2) by (simp add: MAX_SCRIPT_ELEMENT_SIZE_def)
  have minimal: "(if 0 < op_code (push_op data) \<and> op_code (push_op data) \<le> 0x4e
      then check_minimal_data_push (push_op data) else Ok ()) = Ok ()"
    using check_minimal_push [OF len(2)] by simp
  have "execute_opcode env (push_op data) vm = Ok (vm\<lparr>dstack := dstack vm @ [data]\<rparr>)"
    using push small minimal assms(1)
    by (simp add: execute_opcode_def is_executing_def execute_push [OF len(1)] push_data_def)
  then show ?thesis
    using push legal by (simp add: execute_parsed_def MAX_STACK_SIZE_def Let_def)
qed

lemma execute_parsed_plain:
  assumes "cond_stack vm = []" "0 \<le> num_ops vm" "num_ops vm < 201" "0x60 < op_code op"
    and "\<not> is_disabled op" "\<not> always_illegal op"
  shows "execute_parsed env False (Inr op) vm = try_bind
      (OpCode_execute env op (vm\<lparr>num_ops := num_ops vm + 1\<rparr>)) (\<lambda>vm.
        let combined_size = length (astack vm) + length (dstack vm)
        in if combined_size > MAX_STACK_SIZE then Err (StackSizeExceeded combined_size MAX_STACK_SIZE)
           else Ok vm)"
proof -
  have "\<not> is_push_opcode op" using assms(4) by (simp add: is_push_opcode_def NO_COST_OPCODE_def)
  moreover have "\<not> op_code op \<le> 0x4e" using assms(4) by (simp add: word_le_nat_alt word_less_nat_alt)
  moreover have "in_i32 (num_ops vm + 1)" using assms(2,3) by (simp add: in_i32_def)
  ultimately have "execute_opcode env op vm = OpCode_execute env op (vm\<lparr>num_ops := num_ops vm + 1\<rparr>)"
    using assms(1-3)
    by (simp add: execute_opcode_def add_ops_count_def MAX_OPS_PER_SCRIPT_def is_executing_def)
  then show ?thesis using assms(5,6) by (simp add: execute_parsed_def)
qed

lemma execute_parsed_plain_Ok:
  assumes "execute_parsed env False (Inr op) vm = Ok vm'" "cond_stack vm = []" "0 \<le> num_ops vm"
    "num_ops vm < 201" "0x60 < op_code op" "\<not> is_disabled op" "\<not> always_illegal op"
  shows "OpCode_execute env op (vm\<lparr>num_ops := num_ops vm + 1\<rparr>) = Ok vm'"
  using assms(1) unfolding execute_parsed_plain [OF assms(2-7)]
  by (auto simp: try_bind_eq_Ok Let_def split: if_splits)

lemma dispatch:
  "OpCode_execute env \<lparr>op_code = 0xac, op_data = d\<rparr> = OpCheckSig env"
  "OpCode_execute env \<lparr>op_code = 0xaa, op_data = d\<rparr> = OpBlake2b env"
  "OpCode_execute env \<lparr>op_code = 0x87, op_data = d\<rparr> = OpEqual"
  by (simp_all add: OpCode_execute_def)

lemma legal_codes:
  "c \<in> {0xac, 0xaa, 0x87} \<Longrightarrow> \<not> is_disabled \<lparr>op_code = c, op_data = d\<rparr>
     \<and> \<not> always_illegal \<lparr>op_code = c, op_data = d\<rparr> \<and> 0x60 < c"
  by (auto simp: is_disabled_def always_illegal_def)

lemma parse_plain:
  "c \<in> {0xac, 0xaa, 0x87} \<Longrightarrow> parse_script (c # s) = Inr \<lparr>op_code = c, op_data = []\<rparr> # parse_script s"
  by (auto simp: parse_script_Cons opcode_deserialize_def op_length_def opcode_new_def)

lemma push_op_32: "length h = 32 \<Longrightarrow> opcode_serialize (push_op h) = 0x20 # h"
  by (auto simp: push_op_def opcode_serialize_def op_length_def)

lemma execute_script_push:
  assumes "cond_stack vm = []" "length data \<le> 520" "length (dstack vm) < 244" "astack vm = []"
  shows "execute_script env (opcode_serialize (push_op data)) only_push vm
    = Ok (vm\<lparr>dstack := dstack vm @ [data], num_ops := 0\<rparr>)"
proof -
  have "parse_script (opcode_serialize (push_op data)) = [Inr (push_op data)]"
    using parse_serialize [OF opcode_ok_push, of data "[]"] assms(2) by simp
  then show ?thesis
    using assms execute_parsed_push [of vm data env only_push] by (simp add: execute_script_def)
qed

lemma with_bool_snoc:
  "dstack vm = s @ [x] \<Longrightarrow> with_bool k vm = try_bind (deserialize_bool x) (\<lambda>b. k b (vm\<lparr>dstack := s\<rparr>))"
  by (auto simp: with_bool_def pop_items_snoc1 [unfolded One_nat_def] try_bind_assoc try_bind_def
      split: option.splits sum.splits)

lemma deserialize_bool_simps: "deserialize_bool [1] = Ok True" "deserialize_bool [] = Ok False"
  by (simp_all add: deserialize_bool_def)

section \<open>Pay to public key\<close>

lemma ready_update [simp]:
  "ready env src n (vm\<lparr>dstack := s\<rparr>) = ready env src n vm"
  "ready env src n (vm\<lparr>num_ops := k\<rparr>) = ready env src n vm"
  by (simp_all add: ready_def memory_sound_def)

lemma OpCheckSig_ready:
  assumes "ready env src 1 vm" "dstack vm = s @ [sg, key]" "pair_request env False src sg key \<noteq> None"
  shows "\<exists>vm'. OpCheckSig env vm = Ok vm' \<and> dstack vm' = s @ [serialize_bool (signs env False src sg key)]
    \<and> astack vm' = astack vm \<and> cond_stack vm' = cond_stack vm"
proof -
  have sg: "sg \<noteq> []" using assms(3) by (auto simp: pair_request_def)
  obtain t where t: "SigHashType_from_u8 (last sg) = Some t"
    using assms(3) by (auto simp: pair_request_def split: if_splits option.splits)
  have "ready env src (Suc 0) (vm\<lparr>dstack := s\<rparr>)" using assms(1) by simp
  then obtain v where v: "check_signature env False t key (butlast sg) (vm\<lparr>dstack := s\<rparr>)
      = Ok (signs env False src sg key, v)" "same_run (vm\<lparr>dstack := s\<rparr>) v"
    using check_signature_ready [OF _ t assms(3)] by blast
  then show ?thesis
    using assms(2) sg t
    by (simp add: OpCheckSig_def with_raw2_def pop_raw_snoc2 check_signature_def push_bool_def
        on_dstack_def push_item_def)
qed

lemma execute_script_p2pk:
  assumes "length key = 32" "ready env src 1 vm" "dstack vm = [sg]" "astack vm = []" "cond_stack vm = []"
    "num_ops vm = 0" "pair_request env False src sg key \<noteq> None"
  shows "\<exists>vm'. execute_script env (0x20 # key @ [0xac]) False vm = Ok vm'
    \<and> dstack vm' = [serialize_bool (signs env False src sg key)]"
proof -
  let ?op = "\<lparr>op_code = 0xac, op_data = []\<rparr>"
  have "parse_script (0x20 # key @ [0xac]) = [Inr (push_op key), Inr ?op]"
    using parse_serialize [OF opcode_ok_push, of key "[0xac]"] assms(1)
    by (simp add: push_op_32 parse_plain)
  moreover have "execute_parsed env False (Inr (push_op key)) vm = Ok (vm\<lparr>dstack := [sg, key]\<rparr>)"
    using execute_parsed_push [of vm key env False] assms by simp
  moreover let ?v = "vm\<lparr>dstack := [sg, key], num_ops := 1\<rparr>"
  have "ready env src 1 ?v" using assms(2) by simp
  then obtain vm' where vm': "OpCheckSig env ?v = Ok vm'"
    "dstack vm' = [serialize_bool (signs env False src sg key)]" "astack vm' = []" "cond_stack vm' = []"
    using OpCheckSig_ready [of env src ?v "[]" sg key] assms(4,5,7) by auto
  have "execute_parsed env False (Inr ?op) (vm\<lparr>dstack := [sg, key]\<rparr>) = Ok vm'"
    using execute_parsed_plain [of "vm\<lparr>dstack := [sg, key]\<rparr>" ?op env] legal_codes [of "0xac" "[]"] assms(5,6) vm'
    by (simp add: dispatch MAX_STACK_SIZE_def)
  ultimately show ?thesis using vm' by (simp add: execute_script_def)
qed

text \<open>
  C22: A pay-to-public-key output is spent exactly by a signature of its key.  With a signature
  script that pushes 65 bytes, a sound memory and at least one declared signature operation, and
  when the signature and the key are well-formed, the execution succeeds when the signature
  verifies against the signature hash of the input, and fails with \<open>EvalFalse\<close> otherwise.
\<close>

theorem p2pk_spent_by_signature:
  assumes "pay_to_pub_key key = Some s" and "entry_spk entry = ScriptPublicKey_from_vec 0 s"
    and "signature_script input = opcode_serialize (push_op sg)" and "length sg = 65"
    and "from_transaction_input tx input i entry rv cache = Some vm" and "i < length (entries tx)"
    and "sig_op_count input \<noteq> 0"
    and "cache_sound env cache" and "reused_ok (signing_hash env) (ptx tx) rv"
    and "pair_request env False (script_source vm) sg key \<noteq> None"
  shows "if signs env False (script_source vm) sg key
    then \<exists>vm'. execute env vm = Ok vm' else execute env vm = Err EvalFalse"
proof -
  have key: "length key = 32" "s = 0x20 # key @ [0xac]"
    using assms(1) by (auto simp: pay_to_pub_key_def split: if_splits)
  have not_p2sh: "\<not> is_pay_to_script_hash s" using key by (simp add: is_pay_to_script_hash_def)
  have vm: "dstack vm = []" "astack vm = []" "cond_stack vm = []" "num_ops vm = 0"
    "script_source vm = TxInput tx input i entry False"
    using assms(2,5) not_p2sh by (simp_all add: from_transaction_input_Some ScriptPublicKey_from_vec_def)
  let ?v1 = "vm\<lparr>dstack := [sg], num_ops := 0\<rparr>"
  have sig: "execute_script env (signature_script input) True vm = Ok ?v1"
    using execute_script_push [of vm sg env True] assms(3,4) vm by simp
  have "ready env (script_source vm) 1 ?v1"
    using assms(2,5-9) by (auto simp: ready_def memory_sound_def reused_for_def source_ok_def
        from_transaction_input_Some populated_input_def RuntimeSigOpCounter_new_def Suc_le_eq unat_gt_0)
  then obtain v2 where v2: "execute_script env s False ?v1 = Ok v2"
    "dstack v2 = [] @ [serialize_bool (signs env False (script_source vm) sg key)]"
    using execute_script_p2pk [OF key(1), of env "script_source vm" ?v1 sg] vm assms(10) key(2) by auto
  have nonempty: "signature_script input \<noteq> []" "s \<noteq> []"
    using assms(3,4) key(2) by (simp_all add: opcode_serialize_def split: OpLength.splits)
  have "find (\<lambda>s. length s > MAX_SCRIPTS_SIZE) [signature_script input, s] = None"
    using assms(3,4) key by (simp add: push_op_def opcode_serialize_def op_length_def MAX_SCRIPTS_SIZE_def)
  then have "execute env vm = check_error_condition True v2"
    using assms(2) vm nonempty sig v2(1)
    by (simp add: execute_def ScriptPublicKey_from_vec_def MAX_SCRIPT_PUBLIC_KEY_VERSION_def
        execute_scripts_def run_script_def)
  then show ?thesis
    using v2(2) by (simp add: check_error_condition_def with_bool_snoc [OF v2(2)] serialize_bool_def
        deserialize_bool_simps)
qed

definition sample_signature :: "u8 \<Rightarrow> u8 list" where
  "sample_signature k = replicate 64 k @ [1]"

definition sample_input :: "u8 list \<Rightarrow> TransactionInput" where
  "sample_input sig = (hd (tx_inputs (ptx (sample_spend []))))\<lparr>signature_script := sig\<rparr>"

theorem p2pk_spent_by_signature_witness:
  "\<exists>vm vm' v. execute sample_env vm = Ok vm' \<and> execute sample_env v = Err EvalFalse
     \<and> from_transaction_input (sample_spend []) (sample_input (opcode_serialize (push_op (sample_signature 5)))) 0
         (UtxoEntry_new 100 (ScriptPublicKey_from_vec 0 (0x20 # replicate 32 5 @ [0xac])) 3 False)
         SigHashReusedValues_new (Cache_new 9) = Some vm"
proof -
  define entry where "entry = UtxoEntry_new 100 (ScriptPublicKey_from_vec 0 (0x20 # replicate 32 5 @ [0xac])) 3 False"
  define input where "input k = sample_input (opcode_serialize (push_op (sample_signature k)))" for k
  have key: "pay_to_pub_key (replicate 32 5) = Some (0x20 # replicate 32 5 @ [0xac])"
    by (simp add: pay_to_pub_key_def)
  have spk: "entry_spk entry = ScriptPublicKey_from_vec 0 (0x20 # replicate 32 5 @ [0xac])"
    by (simp add: entry_def UtxoEntry_new_def)
  have len: "0 < length (tx_inputs (ptx (sample_spend [])))" "0 < length (entries (sample_spend []))"
    by (simp_all add: sample_spend_def)
  have run: "if k = 5 then \<exists>vm'. execute sample_env vm = Ok vm' else execute sample_env vm = Err EvalFalse"
    if vm: "from_transaction_input (sample_spend []) (input k) 0 entry SigHashReusedValues_new (Cache_new 9) = Some vm"
    for k vm
  proof -
    have src: "script_source vm = TxInput (sample_spend []) (input k) 0 entry False"
      using vm spk by (simp add: from_transaction_input_Some is_pay_to_script_hash_def
          ScriptPublicKey_from_vec_def)
    note pair = sample_pair [of "sample_signature k" "replicate 32 5" "input k" entry, folded src]
    show ?thesis
      using p2pk_spent_by_signature [OF key spk _ _ vm, of "sample_signature k" sample_env] len(2) pair
      by (simp add: input_def sample_input_def sample_signature_def sample_spend_def sample_env_def)
  qed
  obtain vm where vm: "from_transaction_input (sample_spend []) (input 5) 0 entry SigHashReusedValues_new
      (Cache_new 9) = Some vm" using len(1) by (simp add: from_transaction_input_Some)
  obtain v where v: "from_transaction_input (sample_spend []) (input 6) 0 entry SigHashReusedValues_new
      (Cache_new 9) = Some v" using len(1) by (simp add: from_transaction_input_Some)
  show ?thesis using run [OF vm] run [OF v] vm unfolding input_def entry_def by auto
qed

section \<open>Pay to script hash\<close>

lemma OpBlake2b_top:
  "dstack vm = s @ [x] \<Longrightarrow> OpBlake2b env vm = Ok (vm\<lparr>dstack := s @ [blake2b env x]\<rparr>)"
  by (simp add: OpBlake2b_def with_raw1_def pop_raw_snoc1 [unfolded One_nat_def])

lemma OpEqual_top:
  "dstack vm = s @ [x, y] \<Longrightarrow> OpEqual vm = Ok (vm\<lparr>dstack := s @ [serialize_bool (x = y)]\<rparr>)"
  by (simp add: OpEqual_def Let_def serialize_bool_def)

lemma execute_script_p2sh:
  assumes "length h = 32" "execute_script env (0xaa # 0x20 # h @ [0x87]) False vm = Ok vm'"
    "cond_stack vm = []" "num_ops vm = 0" "astack vm = []"
  shows "\<exists>st redeem. dstack vm = st @ [redeem] \<and> dstack vm' = st @ [serialize_bool (blake2b env redeem = h)]"
proof -
  let ?hash = "\<lparr>op_code = 0xaa, op_data = []\<rparr>" and ?eq = "\<lparr>op_code = 0x87, op_data = []\<rparr>"
  have parse: "parse_script (0xaa # 0x20 # h @ [0x87]) = [Inr ?hash, Inr (push_op h), Inr ?eq]"
    using parse_serialize [OF opcode_ok_push, of h "[0x87]"] assms(1) by (simp add: push_op_32 parse_plain)
  obtain v1 v2 v3 where v: "execute_parsed env False (Inr ?hash) vm = Ok v1"
    "execute_parsed env False (Inr (push_op h)) v1 = Ok v2"
    "execute_parsed env False (Inr ?eq) v2 = Ok v3" "dstack vm' = dstack v3"
    using assms(2) by (auto simp: execute_script_def parse try_bind_eq_Ok split: if_splits)
  have b: "OpBlake2b env (vm\<lparr>num_ops := 1\<rparr>) = Ok v1"
    using execute_parsed_plain_Ok [OF v(1)] legal_codes [of "0xaa" "[]"] assms(3,4) by (simp add: dispatch)
  obtain st redeem where st: "dstack vm = st @ [redeem]"
    using b by (cases "dstack vm" rule: rev_cases) (auto simp: OpBlake2b_def with_raw1_def pop_raw_def)
  have v1: "v1 = vm\<lparr>num_ops := 1, dstack := st @ [blake2b env redeem]\<rparr>"
    using b st OpBlake2b_top [of "vm\<lparr>num_ops := 1\<rparr>" st redeem env] by simp
  have v2: "v2 = v1\<lparr>dstack := st @ [blake2b env redeem, h]\<rparr>"
    using v(2) execute_parsed_push [of v1 h env False] assms(1,3) by (simp add: v1 split: if_splits)
  have "OpEqual (v2\<lparr>num_ops := 2\<rparr>) = Ok v3"
    using execute_parsed_plain_Ok [OF v(3)] legal_codes [of "0x87" "[]"] assms(3) by (simp add: v2 v1 dispatch)
  then have "dstack v3 = st @ [serialize_bool (blake2b env redeem = h)]"
    using OpEqual_top [of "v2\<lparr>num_ops := 2\<rparr>" st "blake2b env redeem" h] by (auto simp: v2)
  then show ?thesis using st v(4) by auto
qed

lemma execute_script_Ok:
  "execute_script env s p vm = Ok v \<Longrightarrow> cond_stack v = [] \<and> astack v = [] \<and> num_ops v = 0"
  by (auto simp: execute_script_def try_bind_eq_Ok split: if_splits)

lemma run_script_Ok:
  "run_script env True (idx, s) (vm, saved) = Ok (v, saved') \<longleftrightarrow>
     execute_script env s (idx = 0 \<and> (case script_source vm of TxInput _ _ _ _ _ \<Rightarrow> True | _ \<Rightarrow> False)) vm = Ok v
     \<and> saved' = (if idx = 1 then Some (dstack vm) else saved)"
  by (auto simp: run_script_def try_bind_eq_Ok)

lemma check_error_final:
  assumes "check_error_condition True v = Ok v'"
  shows "dstack v' = []"
proof -
  obtain x where x: "dstack v = [] @ [x]"
    using assms by (cases "dstack v" rule: rev_cases) (auto simp: check_error_condition_def split: if_splits)
  then show ?thesis
    using assms by (auto simp: check_error_condition_def with_bool_snoc try_bind_eq_Ok split: if_splits)
qed

text \<open>
  C23: A pay-to-script-hash output is spent only by a script with the committed hash.  When an
  execution for such an output succeeds, the signature script has only pushed data, what it left on
  top of the stack is a redeem script whose hash is the one in the output, and that redeem script,
  run on the rest of the stack, ended with true alone on the stack.
\<close>

theorem p2sh_spent_by_preimage:
  assumes "pay_to_script_hash h = Some s" and "entry_spk entry = ScriptPublicKey_from_vec 0 s"
    and "from_transaction_input tx input i entry rv cache = Some vm"
    and "execute env vm = Ok vm'"
  shows "\<exists>v1 st redeem v2 v3. execute_script env (signature_script input) True vm = Ok v1
    \<and> dstack v1 = st @ [redeem] \<and> blake2b env redeem = h
    \<and> execute_script env redeem False (v2\<lparr>dstack := st\<rparr>) = Ok v3
    \<and> check_error_condition True v3 = Ok vm' \<and> dstack vm' = []"
proof -
  have h: "length h = 32" "s = 0xaa # 0x20 # h @ [0x87]"
    using assms(1) by (auto simp: pay_to_script_hash_def split: if_splits)
  then have "is_pay_to_script_hash s" by (simp add: is_pay_to_script_hash_def nth_append)
  then have vm: "dstack vm = []" "astack vm = []" "cond_stack vm = []" "num_ops vm = 0"
    "script_source vm = TxInput tx input i entry True"
    using assms(2,3) by (simp_all add: from_transaction_input_Some ScriptPublicKey_from_vec_def)
  let ?sig = "signature_script input"
  have run: "execute_scripts env [?sig, s] True vm = Ok vm'"
    using assms(2,4) vm by (simp add: execute_def ScriptPublicKey_from_vec_def MAX_SCRIPT_PUBLIC_KEY_VERSION_def)
  obtain v saved v2 v3 where v: "run_scripts env True [(0, ?sig), (1, s)] (vm, None) = Ok (v, saved)"
    and v2: "check_error_condition False v = Ok v2"
    and redeem: "(case saved of None \<Rightarrow> Err EmptyStack | Some st \<Rightarrow> if st = [] then Err EmptyStack
      else execute_script env (last st) False (v2\<lparr>dstack := butlast st\<rparr>)) = Ok v3 \<and> check_error_condition True v3 = Ok vm'"
    using run by (auto simp: execute_scripts_def try_bind_eq_Ok split: if_splits option.splits)
  have sig: "?sig \<noteq> []"
  proof
    assume "?sig = []"
    then have "execute_script env s False vm = Ok v" using v h(2) by (auto simp: try_bind_eq_Ok run_script_Ok)
    then show False using execute_script_p2sh [OF h(1), of env vm v] h(2) vm by simp
  qed
  obtain v1 where v1: "execute_script env ?sig True vm = Ok v1" "execute_script env s False v1 = Ok v"
    "saved = Some (dstack v1)"
    using v sig h(2) vm(5) by (auto simp: try_bind_eq_Ok run_script_Ok)
  obtain st r where st: "dstack v1 = st @ [r]" "dstack v = st @ [serialize_bool (blake2b env r = h)]"
    using execute_script_p2sh [OF h(1), of env v1 v] v1(2) h(2) execute_script_Ok [OF v1(1)] by auto
  have "blake2b env r = h"
    using v2 with_bool_snoc [OF st(2)]
    by (auto simp: check_error_condition_def serialize_bool_def deserialize_bool_simps split: if_splits)
  moreover have "execute_script env r False (v2\<lparr>dstack := st\<rparr>) = Ok v3"
    using redeem v1(3) st(1) by simp
  ultimately show ?thesis using v1(1) st(1) redeem check_error_final by blast
qed

lemma execute_script_p2sh_top:
  assumes "length h = 32" "dstack vm = [r]" "cond_stack vm = []" "num_ops vm = 0" "astack vm = []"
  shows "execute_script env (0xaa # 0x20 # h @ [0x87]) False vm
    = Ok (vm\<lparr>dstack := [serialize_bool (blake2b env r = h)], num_ops := 0\<rparr>)"
proof -
  let ?hash = "\<lparr>op_code = 0xaa, op_data = []\<rparr>" and ?eq = "\<lparr>op_code = 0x87, op_data = []\<rparr>"
  let ?v1 = "vm\<lparr>num_ops := 1, dstack := [blake2b env r]\<rparr>"
  let ?v2 = "vm\<lparr>num_ops := 1, dstack := [blake2b env r, h]\<rparr>"
  have parse: "parse_script (0xaa # 0x20 # h @ [0x87]) = [Inr ?hash, Inr (push_op h), Inr ?eq]"
    using parse_serialize [OF opcode_ok_push, of h "[0x87]"] assms(1) by (simp add: push_op_32 parse_plain)
  have "execute_parsed env False (Inr ?hash) vm = Ok ?v1"
    using execute_parsed_plain [of vm ?hash env] legal_codes [of "0xaa" "[]"] assms
      OpBlake2b_top [of "vm\<lparr>num_ops := 1\<rparr>" "[]" r env] by (simp add: dispatch MAX_STACK_SIZE_def)
  moreover have "execute_parsed env False (Inr (push_op h)) ?v1 = Ok ?v2"
    using execute_parsed_push [of ?v1 h env False] assms by simp
  moreover have "execute_parsed env False (Inr ?eq) ?v2
      = Ok (vm\<lparr>num_ops := 2, dstack := [serialize_bool (blake2b env r = h)]\<rparr>)"
    using execute_parsed_plain [of ?v2 ?eq env] legal_codes [of "0x87" "[]"] assms
      OpEqual_top [of "?v2\<lparr>num_ops := 2\<rparr>" "[]" "blake2b env r" h]
    by (simp add: dispatch MAX_STACK_SIZE_def)
  ultimately show ?thesis using assms by (simp add: execute_script_def parse)
qed

lemma check_error_true: "dstack v = [[1]] \<Longrightarrow> check_error_condition final v = Ok (v\<lparr>dstack := []\<rparr>)"
  using with_bool_snoc [of v "[]" "[1]"] by (simp add: check_error_condition_def deserialize_bool_simps)

lemma push_op_small: "opcode_serialize (push_op [0x51]) = [0x01, 0x51]" "opcode_serialize (push_op [1]) = [0x51]"
  by (simp_all add: push_op_def opcode_serialize_def op_length_def)

theorem p2sh_spent_by_preimage_witness:
  "\<exists>vm v1 st redeem. execute_script sample_env [0x01, 0x51] True vm = Ok v1
    \<and> dstack v1 = st @ [redeem] \<and> blake2b sample_env redeem = blake2b sample_env [0x51]"
proof -
  define h where "h = blake2b sample_env [0x51]"
  have h: "length h = 32" by (simp add: h_def sample_env_def)
  let ?s = "0xaa # 0x20 # h @ [0x87]"
  define entry where "entry = UtxoEntry_new 100 (ScriptPublicKey_from_vec 0 ?s) 3 False"
  let ?input = "sample_input [0x01, 0x51]"
  have spk: "entry_spk entry = ScriptPublicKey_from_vec 0 ?s" by (simp add: entry_def UtxoEntry_new_def)
  have p2sh: "pay_to_script_hash h = Some ?s" using h by (simp add: pay_to_script_hash_def)
  have "0 < length (tx_inputs (ptx (sample_spend [])))" by (simp add: sample_spend_def)
  then obtain vm where vm: "from_transaction_input (sample_spend []) ?input 0 entry SigHashReusedValues_new
      (Cache_new 9) = Some vm" by (simp add: from_transaction_input_Some)
  have f: "dstack vm = []" "astack vm = []" "cond_stack vm = []" "num_ops vm = 0"
    "script_source vm = TxInput (sample_spend []) ?input 0 entry True"
    using vm spk h by (auto simp: from_transaction_input_Some ScriptPublicKey_from_vec_def
        is_pay_to_script_hash_def nth_append)
  have sig: "execute_script sample_env [0x01, 0x51] True vm = Ok (vm\<lparr>dstack := [[0x51]], num_ops := 0\<rparr>)"
    using execute_script_push [of vm "[0x51]" sample_env True] f by (simp add: push_op_small)
  have "execute_script sample_env ?s False (vm\<lparr>dstack := [[0x51]], num_ops := 0\<rparr>)
      = Ok (vm\<lparr>dstack := [[1]], num_ops := 0\<rparr>)"
    using execute_script_p2sh_top [OF h, of "vm\<lparr>dstack := [[0x51]], num_ops := 0\<rparr>" "[0x51]" sample_env] f
    by (simp add: h_def serialize_bool_def)
  moreover have "execute_script sample_env [0x51] False (vm\<lparr>num_ops := 0, dstack := []\<rparr>)
      = Ok (vm\<lparr>dstack := [[1]], num_ops := 0\<rparr>)"
    using execute_script_push [of "vm\<lparr>num_ops := 0, dstack := []\<rparr>" "[1]" sample_env False] f
    by (simp add: push_op_small)
  moreover have "find (\<lambda>s. length s > MAX_SCRIPTS_SIZE) [[0x01, 0x51], ?s] = None"
    using h by (simp add: MAX_SCRIPTS_SIZE_def)
  ultimately have "execute sample_env vm = Ok (vm\<lparr>num_ops := 0, dstack := []\<rparr>)"
    using f sig spk check_error_true [of "vm\<lparr>dstack := [[1]], num_ops := 0\<rparr>"]
    by (simp add: execute_def ScriptPublicKey_from_vec_def MAX_SCRIPT_PUBLIC_KEY_VERSION_def
        execute_scripts_def run_script_def sample_input_def)
  from p2sh_spent_by_preimage [OF p2sh spk vm this]
  have "\<exists>v1 st redeem. execute_script sample_env (signature_script ?input) True vm = Ok v1
      \<and> dstack v1 = st @ [redeem] \<and> blake2b sample_env redeem = h" by blast
  moreover have "signature_script ?input = [0x01, 0x51]" by (simp add: sample_input_def)
  ultimately show ?thesis unfolding h_def by metis
qed

end
