(* ===== verification/Ai_Payload.thy ===== *)
theory Ai_Payload
  imports Rust_Prelude "HOL-Library.Monad_Syntax"
begin

text \<open>
  The payloads of the AI transactions, \<^verbatim>\<open>src/inference/src/ai_payload.rs\<close>: requests, responses in
  their two versions, challenges, and the base58 text of a response's content id.  A \<^verbatim>\<open>[u8; n]\<close> is a
  byte list of length \<open>n\<close>.  \<^verbatim>\<open>from_hex\<close> is \<^verbatim>\<open>deserialize\<close> after the external \<^verbatim>\<open>hex\<close> crate, a
  parameter.

  The lemmas show that the binary forms and the values correspond one to one, and that the base58
  text of a content id determines it.
\<close>

section \<open>Payloads\<close>

definition MIN_AI_REQUEST_PAYLOAD_LEN :: nat where "MIN_AI_REQUEST_PAYLOAD_LEN = 52"
definition MAX_AI_REQUEST_PAYLOAD_LEN :: nat where "MAX_AI_REQUEST_PAYLOAD_LEN = 4096"
definition AI_RESPONSE_PAYLOAD_LEN :: nat where "AI_RESPONSE_PAYLOAD_LEN = 78"
definition AI_RESPONSE_PAYLOAD_V2_LEN :: nat where
  "AI_RESPONSE_PAYLOAD_V2_LEN = AI_RESPONSE_PAYLOAD_LEN + 32 + 64"
definition MIN_AI_RESPONSE_PAYLOAD_LEN :: nat where
  "MIN_AI_RESPONSE_PAYLOAD_LEN = AI_RESPONSE_PAYLOAD_LEN"
definition MAX_AI_RESPONSE_PAYLOAD_LEN :: nat where
  "MAX_AI_RESPONSE_PAYLOAD_LEN = AI_RESPONSE_PAYLOAD_V2_LEN"
definition MIN_AI_CHALLENGE_PAYLOAD_LEN :: nat where "MIN_AI_CHALLENGE_PAYLOAD_LEN = 74"
definition MAX_AI_CHALLENGE_PAYLOAD_LEN :: nat where "MAX_AI_CHALLENGE_PAYLOAD_LEN = 32768"

lemmas ai_payload_lens = MIN_AI_REQUEST_PAYLOAD_LEN_def MAX_AI_REQUEST_PAYLOAD_LEN_def
  AI_RESPONSE_PAYLOAD_LEN_def AI_RESPONSE_PAYLOAD_V2_LEN_def MIN_AI_RESPONSE_PAYLOAD_LEN_def
  MAX_AI_RESPONSE_PAYLOAD_LEN_def MIN_AI_CHALLENGE_PAYLOAD_LEN_def MAX_AI_CHALLENGE_PAYLOAD_LEN_def

text \<open>\<^verbatim>\<open>data[a..b]\<close>, within range wherever it is used.\<close>

definition slice :: "nat \<Rightarrow> nat \<Rightarrow> u8 list \<Rightarrow> u8 list" where
  "slice a b data = take (b - a) (drop a data)"

record AiRequestPayload =
  req_model_id :: "u8 list"
  req_max_tokens :: u32
  req_inference_reward :: u64
  req_priority_fee :: u64
  req_prompt :: "u8 list"

definition request_serialize :: "AiRequestPayload \<Rightarrow> u8 list" where
  "request_serialize p = req_model_id p @ to_le 4 (req_max_tokens p) @ to_le 8 (req_inference_reward p)
     @ to_le 8 (req_priority_fee p) @ req_prompt p"

definition request_deserialize :: "u8 list \<Rightarrow> AiRequestPayload option" where
  "request_deserialize data =
     (if length data < MIN_AI_REQUEST_PAYLOAD_LEN \<or> length data > MAX_AI_REQUEST_PAYLOAD_LEN then None
      else Some \<lparr>req_model_id = slice 0 32 data, req_max_tokens = from_le (slice 32 36 data),
        req_inference_reward = from_le (slice 36 44 data),
        req_priority_fee = from_le (slice 44 52 data), req_prompt = drop 52 data\<rparr>)"

record AiResponder =
  responder_escrow_pubkey :: "u8 list"
  responder_signature :: "u8 list"

record AiResponsePayload =
  resp_request_hash :: "u8 list"
  resp_challenge_window_end :: u64
  resp_ipfs_cid :: "u8 list"
  resp_length :: u32
  resp_responder :: "AiResponder option"

definition signed_bytes :: "AiResponsePayload \<Rightarrow> u8 list" where
  "signed_bytes p = resp_request_hash p @ to_le 8 (resp_challenge_window_end p) @ resp_ipfs_cid p
     @ to_le 4 (resp_length p)"

definition response_serialize :: "AiResponsePayload \<Rightarrow> u8 list" where
  "response_serialize p = signed_bytes p @ (case resp_responder p of
     Some r \<Rightarrow> responder_escrow_pubkey r @ responder_signature r | None \<Rightarrow> [])"

definition response_deserialize :: "u8 list \<Rightarrow> AiResponsePayload option" where
  "response_deserialize data =
     (if length data \<noteq> AI_RESPONSE_PAYLOAD_LEN \<and> length data \<noteq> AI_RESPONSE_PAYLOAD_V2_LEN then None
      else Some \<lparr>resp_request_hash = slice 0 32 data,
        resp_challenge_window_end = from_le (slice 32 40 data),
        resp_ipfs_cid = slice 40 74 data, resp_length = from_le (slice 74 78 data),
        resp_responder = (if length data = AI_RESPONSE_PAYLOAD_V2_LEN
          then Some \<lparr>responder_escrow_pubkey = slice 78 110 data,
                     responder_signature = slice 110 174 data\<rparr>
          else None)\<rparr>)"

record AiChallengePayload =
  chal_response_hash :: "u8 list"
  challenger_deposit :: u64
  challenger_spk_version :: u16
  challenger_spk :: "u8 list"
  chal_proof_data :: "u8 list"

definition challenge_serialize :: "AiChallengePayload \<Rightarrow> u8 list" where
  "challenge_serialize p = chal_response_hash p @ to_le 8 (challenger_deposit p)
     @ to_le 2 (challenger_spk_version p) @ challenger_spk p @ chal_proof_data p"

definition challenge_deserialize :: "u8 list \<Rightarrow> AiChallengePayload option" where
  "challenge_deserialize data =
     (if length data < MIN_AI_CHALLENGE_PAYLOAD_LEN \<or> length data > MAX_AI_CHALLENGE_PAYLOAD_LEN
      then None
      else Some \<lparr>chal_response_hash = slice 0 32 data, challenger_deposit = from_le (slice 32 40 data),
        challenger_spk_version = from_le (slice 40 42 data),
        challenger_spk = slice 42 74 data, chal_proof_data = drop 74 data\<rparr>)"

definition from_hex ::
    "(u8 list \<Rightarrow> u8 list option) \<Rightarrow> (u8 list \<Rightarrow> 'p option) \<Rightarrow> u8 list \<Rightarrow> 'p option" where
  "from_hex hex_decode deserialize payload_hex = hex_decode payload_hex \<bind> deserialize"

section \<open>Base58\<close>

text \<open>
  One input byte: the digits, least significant first, are multiplied by 256 with the byte as the
  carry, and what is left of the carry is appended.  The addition of the carry is checked.
\<close>

fun carry_digits :: "u32 \<Rightarrow> u8 list \<Rightarrow> (u8 list \<times> u32) option" where
  "carry_digits carry [] = Some ([], carry)"
| "carry_digits carry (d # ds) = do {
     c \<leftarrow> checked_add carry (push_bit 8 (ucast d));
     (ds', rest) \<leftarrow> carry_digits (c div 58) ds;
     Some (ucast (c mod 58) # ds', rest)
   }"

function push_carry :: "u32 \<Rightarrow> u8 list" where
  "push_carry carry = (if carry > 0 then ucast (carry mod 58) # push_carry (carry div 58) else [])"
  by auto
termination
  by (relation "measure unat") (auto simp: unat_div word_gt_0 unat_gt_0)

declare push_carry.simps [simp del]

definition push_byte :: "u8 list \<Rightarrow> u8 \<Rightarrow> u8 list option" where
  "push_byte digits byte = do {
     (ds, carry) \<leftarrow> carry_digits (ucast byte) digits;
     Some (ds @ push_carry carry)
   }"

definition ALPHABET :: "u8 list" where
  "ALPHABET = map of_char ''123456789ABCDEFGHJKLMNPQRSTUVWXYZabcdefghijkmnopqrstuvwxyz''"

text \<open>A digit outside the alphabet is an index out of range, which panics.\<close>

definition base58btc_encode :: "u8 list \<Rightarrow> u8 list option" where
  "base58btc_encode input = do {
     digits \<leftarrow> foldM push_byte [0] input;
     let leading_zeros = length (takeWhile (\<lambda>b. b = 0) input);
     if list_all (\<lambda>d. unat d < length ALPHABET) digits
     then Some (replicate leading_zeros 49 @ map (\<lambda>d. ALPHABET ! unat d) (rev digits))
     else None
   }"

definition cid_v0 :: "AiResponsePayload \<Rightarrow> u8 list option" where
  "cid_v0 p = base58btc_encode (resp_ipfs_cid p)"

section \<open>The binary forms\<close>

lemma slice_append: "length xs = a \<Longrightarrow> slice a b (xs @ ys) = take (b - a) ys"
  by (simp add: slice_def)

lemma from_le_slice:
  "length data \<ge> b \<Longrightarrow> a + k = b \<Longrightarrow> LENGTH('a::len) = 8 * k \<Longrightarrow>
   to_le k (from_le (slice a b data) :: 'a word) = slice a b data"
  by (rule to_le_from_le) (auto simp: slice_def)

lemma slice_split: "a \<le> b \<Longrightarrow> b \<le> c \<Longrightarrow> slice a c data = slice a b data @ slice b c data"
  using take_add [of "b - a" "c - b" "drop a data"] by (simp add: slice_def)

lemma slice_rest: "a \<le> length data \<Longrightarrow> slice 0 a data @ drop a data = data"
  by (simp add: slice_def)

definition request_ok :: "AiRequestPayload \<Rightarrow> bool" where
  "request_ok p = (length (req_model_id p) = 32 \<and> length (req_prompt p) \<le> MAX_AI_REQUEST_PAYLOAD_LEN - 52)"

definition response_ok :: "AiResponsePayload \<Rightarrow> bool" where
  "response_ok p = (length (resp_request_hash p) = 32 \<and> length (resp_ipfs_cid p) = 34
     \<and> (case resp_responder p of None \<Rightarrow> True
        | Some r \<Rightarrow> length (responder_escrow_pubkey r) = 32 \<and> length (responder_signature r) = 64))"

definition challenge_ok :: "AiChallengePayload \<Rightarrow> bool" where
  "challenge_ok p = (length (chal_response_hash p) = 32 \<and> length (challenger_spk p) = 32
     \<and> length (chal_proof_data p) \<le> MAX_AI_CHALLENGE_PAYLOAD_LEN - 74)"

lemma request_roundtrip: "request_ok p \<Longrightarrow> request_deserialize (request_serialize p) = Some p"
  by (simp add: request_ok_def request_deserialize_def request_serialize_def slice_def ai_payload_lens)

lemma response_roundtrip: "response_ok p \<Longrightarrow> response_deserialize (response_serialize p) = Some p"
  by (cases "resp_responder p") (simp_all add: response_ok_def response_deserialize_def
      response_serialize_def signed_bytes_def slice_def ai_payload_lens)

lemma challenge_roundtrip: "challenge_ok p \<Longrightarrow> challenge_deserialize (challenge_serialize p) = Some p"
  by (simp add: challenge_ok_def challenge_deserialize_def challenge_serialize_def slice_def ai_payload_lens)


text \<open>Whatever parses has the parsed value as its only binary form.\<close>

lemma request_parsed:
  assumes "request_deserialize data = Some p"
  shows "request_ok p \<and> request_serialize p = data"
proof -
  have len: "52 \<le> length data" "length data \<le> 4096"
    and p: "p = \<lparr>req_model_id = slice 0 32 data, req_max_tokens = from_le (slice 32 36 data),
        req_inference_reward = from_le (slice 36 44 data),
        req_priority_fee = from_le (slice 44 52 data), req_prompt = drop 52 data\<rparr>"
    using assms by (auto simp: request_deserialize_def ai_payload_lens split: if_splits)
  have "request_serialize p = slice 0 32 data @ slice 32 36 data @ slice 36 44 data @ slice 44 52 data @ drop 52 data"
    using len by (simp add: p request_serialize_def from_le_slice)
  also have "\<dots> = slice 0 52 data @ drop 52 data"
    using slice_split [of 0 32 52 data] slice_split [of 32 36 52 data] slice_split [of 36 44 52 data] by simp
  finally show ?thesis using len by (simp add: slice_rest p request_ok_def slice_def ai_payload_lens)
qed

lemma response_parsed:
  assumes "response_deserialize data = Some p"
  shows "response_ok p \<and> response_serialize p = data"
proof -
  have len: "length data = 78 \<or> length data = 174"
    and p: "p = \<lparr>resp_request_hash = slice 0 32 data,
        resp_challenge_window_end = from_le (slice 32 40 data),
        resp_ipfs_cid = slice 40 74 data, resp_length = from_le (slice 74 78 data),
        resp_responder = (if length data = 174
          then Some \<lparr>responder_escrow_pubkey = slice 78 110 data, responder_signature = slice 110 174 data\<rparr>
          else None)\<rparr>"
    using assms by (auto simp: response_deserialize_def ai_payload_lens split: if_splits)
  have "signed_bytes p = slice 0 32 data @ slice 32 40 data @ slice 40 74 data @ slice 74 78 data"
    using len by (auto simp: p signed_bytes_def from_le_slice)
  then have signed: "signed_bytes p = slice 0 78 data"
    using slice_split [of 0 32 78 data] slice_split [of 32 40 78 data] slice_split [of 40 74 78 data] by simp
  have "response_serialize p = data"
  proof (cases "length data = 174")
    case True
    have "slice 78 110 data @ slice 110 174 data = drop 78 data"
      using slice_split [of 78 110 174 data] True by (simp add: slice_def)
    then show ?thesis using True signed slice_rest [of 78 data] by (simp add: response_serialize_def p)
  next
    case False
    then show ?thesis using len signed by (simp add: response_serialize_def p slice_def)
  qed
  then show ?thesis using len by (auto simp: response_ok_def p slice_def)
qed

lemma challenge_parsed:
  assumes "challenge_deserialize data = Some p"
  shows "challenge_ok p \<and> challenge_serialize p = data"
proof -
  have len: "74 \<le> length data" "length data \<le> 32768"
    and p: "p = \<lparr>chal_response_hash = slice 0 32 data, challenger_deposit = from_le (slice 32 40 data),
        challenger_spk_version = from_le (slice 40 42 data),
        challenger_spk = slice 42 74 data, chal_proof_data = drop 74 data\<rparr>"
    using assms by (auto simp: challenge_deserialize_def ai_payload_lens split: if_splits)
  have "challenge_serialize p = slice 0 32 data @ slice 32 40 data @ slice 40 42 data @ slice 42 74 data @ drop 74 data"
    using len by (simp add: p challenge_serialize_def from_le_slice)
  also have "\<dots> = slice 0 74 data @ drop 74 data"
    using slice_split [of 0 32 74 data] slice_split [of 32 40 74 data] slice_split [of 40 42 74 data] by simp
  finally show ?thesis using len by (simp add: slice_rest p challenge_ok_def slice_def ai_payload_lens)
qed


section \<open>Base58 texts\<close>

definition val58 :: "u8 list \<Rightarrow> nat" where
  "val58 ds = foldr (\<lambda>d v. unat d + 58 * v) ds 0"

abbreviation digits_ok :: "u8 list \<Rightarrow> bool" where
  "digits_ok ds \<equiv> list_all (\<lambda>d. unat d < 58) ds"

lemma val58_simps [simp]: "val58 [] = 0" "val58 (d # ds) = unat d + 58 * val58 ds"
  by (simp_all add: val58_def)

lemma val58_append: "val58 (xs @ ys) = val58 xs + 58 ^ length xs * val58 ys"
  by (induction xs) (simp_all add: algebra_simps)

lemma digit_of_word: "unat (ucast (c mod 58 :: u32) :: u8) = unat c mod 58"
proof -
  have "unat (c mod 58) = unat c mod 58" by (simp add: unat_mod)
  moreover have "unat c mod 58 < 256" by (rule less_trans [OF mod_less_divisor]) simp_all
  ultimately show ?thesis unfolding unsigned_ucast_eq by (simp add: take_bit_eq_mod)
qed

lemma carry_digits_val:
  "digits_ok ds \<Longrightarrow> unat carry < 256 \<Longrightarrow>
   \<exists>ds' c. carry_digits carry ds = Some (ds', c) \<and> digits_ok ds' \<and> length ds' = length ds \<and> unat c < 256
     \<and> val58 ds' + 58 ^ length ds * unat c = unat carry + 256 * val58 ds"
proof (induction ds arbitrary: carry)
  case (Cons d ds)
  have shifted: "unat (push_bit 8 (ucast d) :: u32) = 256 * unat d"
    using unat_lt [of d] unfolding unsigned_push_bit_eq unsigned_ucast_eq
    by (simp add: take_bit_eq_mod push_bit_eq_mult)
  have "unat carry + 256 * unat d < 2 ^ LENGTH(32)" using Cons.prems by simp
  then obtain c where c: "checked_add carry (push_bit 8 (ucast d)) = Some c"
    by (cases "checked_add carry (push_bit 8 (ucast d) :: u32)")
      (auto simp del: not_None_eq simp: checked_add_eq_None shifted)
  then have val: "unat c = unat carry + 256 * unat d" by (simp add: checked_add_eq_Some shifted)
  have div: "unat (c div 58) = unat c div 58" by (simp add: unat_div)
  have "unat c < 14848" using val Cons.prems by simp
  then have small: "unat (c div 58) < 256" unfolding div by linarith
  have "digits_ok ds" using Cons.prems by simp
  from Cons.IH [OF this small] obtain ds' e where rest: "carry_digits (c div 58) ds = Some (ds', e)" "digits_ok ds'"
    "length ds' = length ds" "unat e < 256"
    "val58 ds' + 58 ^ length ds * unat e = unat (c div 58) + 256 * val58 ds" by blast
  have "58 * val58 ds' + 58 ^ Suc (length ds) * unat e = 58 * (unat c div 58) + 58 * (256 * val58 ds)"
    using arg_cong [OF rest(5), of "\<lambda>x. 58 * x"] div by (simp add: distrib_left)
  moreover have "unat c mod 58 + 58 * (unat c div 58) = unat carry + 256 * unat d"
    using val by (metis mod_mult_div_eq)
  moreover have "m + 58 * v + E = t + 256 * (s + 58 * w)"
    if "58 * v + E = 58 * q + 58 * (256 * w)" "m + 58 * q = t + 256 * s" for m q t s v E w :: nat
    using that by (simp add: distrib_left)
  ultimately have "unat (ucast (c mod 58) :: u8) + 58 * val58 ds' + 58 ^ Suc (length ds) * unat e
      = unat carry + 256 * (unat d + 58 * val58 ds)"
    unfolding digit_of_word by blast
  then show ?case using c rest digit_of_word [of c] by simp
qed simp

lemma push_carry_val: "digits_ok (push_carry c) \<and> val58 (push_carry c) = unat c"
proof (induction c rule: push_carry.induct)
  case (1 c)
  show ?case
  proof (cases "c > 0")
    case True
    then show ?thesis
      using 1 by (subst (1 2) push_carry.simps) (simp add: digit_of_word unat_div)
  qed (simp add: push_carry.simps word_gt_0)
qed

lemma push_byte_val:
  assumes "digits_ok ds"
  shows "\<exists>ds'. push_byte ds b = Some ds' \<and> digits_ok ds' \<and> val58 ds' = 256 * val58 ds + unat b"
proof -
  have "unat (ucast b :: u32) < 256" using unat_lt [of b] by (simp add: unat_ucast_wide)
  from carry_digits_val [OF assms this] obtain ds' c where
    "carry_digits (ucast b) ds = Some (ds', c)" "digits_ok ds'" "length ds' = length ds"
    "val58 ds' + 58 ^ length ds * unat c = unat (ucast b :: u32) + 256 * val58 ds" by blast
  then show ?thesis using push_carry_val [of c] by (simp add: push_byte_def val58_append unat_ucast_wide)
qed

lemma push_bytes_val:
  "digits_ok ds \<Longrightarrow> \<exists>ds'. foldM push_byte ds input = Some ds' \<and> digits_ok ds'
     \<and> val58 ds' = 256 ^ length input * val58 ds + le_to_nat (rev input)"
proof (induction input arbitrary: ds)
  case (Cons b input)
  from push_byte_val [OF Cons.prems] obtain es where es: "push_byte ds b = Some es" "digits_ok es"
    "val58 es = 256 * val58 ds + unat b" by blast
  with Cons.IH [OF es(2)] show ?case by (auto simp: le_to_nat_snoc algebra_simps)
qed simp

text \<open>The value of a text: its characters as base 58 digits, most significant first.\<close>

definition text_value :: "u8 list \<Rightarrow> nat" where
  "text_value s = foldl (\<lambda>v c. 58 * v + length (takeWhile (\<lambda>x. x \<noteq> c) ALPHABET)) 0 s"

lemma length_ALPHABET: "length ALPHABET = 58"
  by (simp add: ALPHABET_def)

lemma ALPHABET_index_all: "list_all (\<lambda>i. length (takeWhile (\<lambda>x. x \<noteq> ALPHABET ! i) ALPHABET) = i) [0..<58]"
  by code_simp

lemma ALPHABET_index: "i < 58 \<Longrightarrow> length (takeWhile (\<lambda>x. x \<noteq> ALPHABET ! i) ALPHABET) = i"
  using ALPHABET_index_all unfolding list_all_iff by auto

lemma text_value_digits:
  "digits_ok ds \<Longrightarrow> text_value (replicate z 49 @ map (\<lambda>d. ALPHABET ! unat d) (rev ds)) = val58 ds"
proof (induction ds)
  case Nil
  have "length (takeWhile (\<lambda>x. x \<noteq> 49) ALPHABET) = 0" by code_simp
  then have "foldl (\<lambda>v c. 58 * v + length (takeWhile (\<lambda>x. x \<noteq> c) ALPHABET)) 0 (replicate z 49) = 0"
    by (induction z) simp_all
  then show ?case by (simp add: text_value_def)
next
  case (Cons d ds)
  then show ?case using ALPHABET_index [of "unat d"] by (simp add: text_value_def)
qed

lemma base58btc_encode_value:
  "\<exists>s. base58btc_encode input = Some s \<and> text_value s = le_to_nat (rev input)"
proof -
  obtain ds where ds: "foldM push_byte [0] input = Some ds" "digits_ok ds" "val58 ds = le_to_nat (rev input)"
    using push_bytes_val [of "[0]" input] by auto
  then show ?thesis using text_value_digits [OF ds(2)]
    by (simp add: base58btc_encode_def length_ALPHABET Let_def)
qed

lemma base58btc_encode_inject:
  assumes "length a = length b" and "base58btc_encode a = base58btc_encode b"
  shows "a = b"
proof -
  have "le_to_nat (rev a) = le_to_nat (rev b)"
    using base58btc_encode_value [of a] base58btc_encode_value [of b] assms(2) by auto
  then have "rev a = rev b" using nat_to_le_le_to_nat [of "rev a"] nat_to_le_le_to_nat [of "rev b"] assms(1)
    by (metis length_rev)
  then show ?thesis by simp
qed

text \<open>
  A number of zero bytes alone gets one digit more than its leading zeros: the loop starts from the
  digit zero, which no byte ever replaces.
\<close>

lemma base58btc_encode_zeros: "base58btc_encode (replicate n 0) = Some (replicate (Suc n) 49)"
proof -
  have "push_byte [0] 0 = Some [0]" by (simp add: push_byte_def checked_add_def push_carry.simps)
  then have "foldM push_byte [0] (replicate n 0) = Some [0]" by (induction n) simp_all
  moreover have "ALPHABET ! 0 = 49" by code_simp
  moreover have "takeWhile (\<lambda>b. b = 0) (replicate n (0 :: u8)) = replicate n 0" by (induction n) simp_all
  ultimately show ?thesis
    by (simp add: base58btc_encode_def length_ALPHABET Let_def replicate_append_same)
qed

text \<open>
  The binary form of an AI payload and its value determine each other.  A byte string parses as a
  request, a response or a challenge exactly when it is the serialization of the parsed value and
  that value is well formed: fixed-size fields have their size, the prompt and the proof data fit,
  and a response is a version 1 payload without or a version 2 payload with a responder.  Two
  well-formed responses have the same base58 content id text exactly when they name the same content.
\<close>

theorem ai_payload_forms:
  "(request_deserialize data = Some req \<longleftrightarrow> request_ok req \<and> data = request_serialize req)
   \<and> (response_deserialize data = Some resp \<longleftrightarrow> response_ok resp \<and> data = response_serialize resp)
   \<and> (challenge_deserialize data = Some chal \<longleftrightarrow> challenge_ok chal \<and> data = challenge_serialize chal)
   \<and> cid_v0 resp \<noteq> None
   \<and> (response_deserialize data = Some resp \<and> response_deserialize data' = Some resp'
      \<and> cid_v0 resp = cid_v0 resp'
      \<longleftrightarrow> response_deserialize data = Some resp \<and> response_deserialize data' = Some resp'
      \<and> resp_ipfs_cid resp = resp_ipfs_cid resp')"
proof (intro conjI)
  have "length (resp_ipfs_cid resp) = length (resp_ipfs_cid resp')"
    if "response_deserialize data = Some resp" "response_deserialize data' = Some resp'"
    using response_parsed [OF that(1)] response_parsed [OF that(2)] by (simp add: response_ok_def)
  then show "response_deserialize data = Some resp \<and> response_deserialize data' = Some resp'
      \<and> cid_v0 resp = cid_v0 resp'
      \<longleftrightarrow> response_deserialize data = Some resp \<and> response_deserialize data' = Some resp'
      \<and> resp_ipfs_cid resp = resp_ipfs_cid resp'"
    using base58btc_encode_inject by (auto simp: cid_v0_def)
  show "cid_v0 resp \<noteq> None"
    using base58btc_encode_value [of "resp_ipfs_cid resp"] by (auto simp: cid_v0_def)
qed (use request_roundtrip request_parsed response_roundtrip response_parsed challenge_roundtrip
    challenge_parsed in blast)+

end
