(* ===== verification/Mass.thy ===== *)
theory Mass
  imports Tx_Model
begin

text \<open>
  Transaction masses, \<^verbatim>\<open>src/consensus/core/src/mass/mod.rs\<close>: the estimated sizes, the compute and
  transient masses, and the storage mass of KIP-0009 with its pluralities.  A mass that the code calls
  incomputable is the inner \<open>None\<close> of \<open>u64 option option\<close>, a panic the outer one.  A chain of additions
  to a running size is a checked sum.

  The lemmas show that the storage mass is the formula of the documentation, with the harmonic mean of
  the inputs exactly in the relaxed cases it names, and when the computation panics.
\<close>

section \<open>Sizes\<close>

definition HASH_SIZE :: nat where "HASH_SIZE = 32"
definition TRANSIENT_BYTE_TO_MASS_FACTOR :: u64 where "TRANSIENT_BYTE_TO_MASS_FACTOR = 4"

definition outpoint_estimated_serialized_size :: "u64 option" where
  "outpoint_estimated_serialized_size = checked_sum [word_of_nat HASH_SIZE, 4]"

definition transaction_input_estimated_serialized_size :: "TransactionInput \<Rightarrow> u64 option" where
  "transaction_input_estimated_serialized_size input = do {
     outpoint \<leftarrow> outpoint_estimated_serialized_size;
     checked_sum [outpoint, 8, word_of_nat (length (signature_script input)), 8]
   }"

definition transaction_output_estimated_serialized_size :: "TransactionOutput \<Rightarrow> u64 option" where
  "transaction_output_estimated_serialized_size out =
     checked_sum [8, 2, 8, word_of_nat (length (spk_script (out_spk out)))]"

definition transaction_estimated_serialized_size :: "Transaction \<Rightarrow> u64 option" where
  "transaction_estimated_serialized_size tx = do {
     inputs \<leftarrow> those (map transaction_input_estimated_serialized_size (tx_inputs tx));
     inputs_size \<leftarrow> checked_sum inputs;
     outputs \<leftarrow> those (map transaction_output_estimated_serialized_size (tx_outputs tx));
     outputs_size \<leftarrow> checked_sum outputs;
     checked_sum [2, 8, inputs_size, 8, outputs_size, 8, word_of_nat SUBNETWORK_ID_SIZE, 8,
       word_of_nat HASH_SIZE, 8, word_of_nat (length (tx_payload tx))]
   }"

section \<open>Storage cells\<close>

text \<open>\<^verbatim>\<open>usize::div_ceil\<close> by the unit of 100 bytes.\<close>

definition utxo_plurality :: "ScriptPublicKey \<Rightarrow> u64" where
  "utxo_plurality spk =
     (let stored = 32 + 4 + 8 + 8 + 1 + 2 + 8 + length (spk_script spk)
      in word_of_nat (stored div 100 + (if stored mod 100 > 0 then 1 else 0)))"

record UtxoCell =
  cell_plurality :: u64
  cell_amount :: u64

definition UtxoCell_new :: "u64 \<Rightarrow> u64 \<Rightarrow> UtxoCell" where
  "UtxoCell_new p a = \<lparr>cell_plurality = p, cell_amount = a\<rparr>"

definition entry_cell :: "UtxoEntry \<Rightarrow> UtxoCell" where
  "entry_cell entry = UtxoCell_new (utxo_plurality (entry_spk entry)) (amount entry)"

definition output_cell :: "TransactionOutput \<Rightarrow> UtxoCell" where
  "output_cell out = UtxoCell_new (utxo_plurality (out_spk out)) (out_value out)"

section \<open>Masses\<close>

record NonContextualMasses =
  compute_mass :: u64
  transient_mass :: u64

definition non_contextual_max :: "NonContextualMasses \<Rightarrow> u64" where
  "non_contextual_max m = max (compute_mass m) (transient_mass m)"

definition contextual_max :: "u64 \<Rightarrow> NonContextualMasses \<Rightarrow> u64" where
  "contextual_max storage_mass m = max storage_mass (non_contextual_max m)"

record MassCalculator =
  mass_per_tx_byte :: u64
  mass_per_script_pub_key_byte :: u64
  mass_per_sig_op :: u64
  storage_mass_parameter :: u64

definition calc_non_contextual_masses :: "MassCalculator \<Rightarrow> Transaction \<Rightarrow> NonContextualMasses option" where
  "calc_non_contextual_masses self tx =
     (if is_coinbase tx then Some \<lparr>compute_mass = 0, transient_mass = 0\<rparr>
      else do {
        sz \<leftarrow> transaction_estimated_serialized_size tx;
        compute_mass_for_size \<leftarrow> checked_mul sz (mass_per_tx_byte self);
        spk_sizes \<leftarrow> those (map (\<lambda>out. checked_add 2 (word_of_nat (length (spk_script (out_spk out))))) (tx_outputs tx));
        total_script_public_key_size \<leftarrow> checked_sum spk_sizes;
        total_script_public_key_mass \<leftarrow> checked_mul total_script_public_key_size (mass_per_script_pub_key_byte self);
        total_sigops \<leftarrow> checked_sum (map (\<lambda>input. ucast (sig_op_count input)) (tx_inputs tx));
        total_sigops_mass \<leftarrow> checked_mul total_sigops (mass_per_sig_op self);
        both \<leftarrow> checked_add compute_mass_for_size total_script_public_key_mass;
        computed \<leftarrow> checked_add both total_sigops_mass;
        transient \<leftarrow> checked_mul sz TRANSIENT_BYTE_TO_MASS_FACTOR;
        Some \<lparr>compute_mass = computed, transient_mass = transient\<rparr>
      })"

definition saturating_mul :: "'a::len word \<Rightarrow> 'a word \<Rightarrow> 'a word" where
  "saturating_mul a b = (if unat a * unat b < 2 ^ LENGTH('a) then a * b else - 1)"

text \<open>The pass over the outputs.  The pluralities are added unchecked, so that sum panics on overflow.\<close>

fun outs_loop :: "u64 \<Rightarrow> UtxoCell list \<Rightarrow> u64 \<times> u64 \<Rightarrow> (u64 \<times> u64) option option" where
  "outs_loop storm_param [] acc = Some (Some acc)"
| "outs_loop storm_param (cell # cells) (acc_plurality, acc_harm) =
     checked_add acc_plurality (cell_plurality cell) \<bind> (\<lambda>p.
       case checked_mul storm_param (cell_plurality cell) \<bind> (\<lambda>c. checked_mul c (cell_plurality cell)) of
         None \<Rightarrow> Some None
       | Some c \<Rightarrow> checked_div c (cell_amount cell) \<bind> (\<lambda>q.
           case checked_add acc_harm q of
             None \<Rightarrow> Some None
           | Some h \<Rightarrow> outs_loop storm_param cells (p, h)))"

definition relaxed_formula_path :: "u64 \<Rightarrow> UtxoCell list \<Rightarrow> bool option" where
  "relaxed_formula_path outs_plurality inputs =
     (if outs_plurality = 1 then Some True
      else if length inputs > 2 then Some False
      else map_option (\<lambda>ins_plurality. ins_plurality = 1 \<or> outs_plurality = 2 \<and> ins_plurality = 2)
        (checked_sum (map cell_plurality inputs)))"

definition harmonic_step :: "u64 \<Rightarrow> u64 \<Rightarrow> UtxoCell \<Rightarrow> u64 option" where
  "harmonic_step storm_param total_harm cell = do {
     c \<leftarrow> checked_mul storm_param (cell_plurality cell);
     c \<leftarrow> checked_mul c (cell_plurality cell);
     q \<leftarrow> checked_div c (cell_amount cell);
     Some (saturating_add total_harm q)
   }"

definition ins_step :: "u64 \<times> u64 \<Rightarrow> UtxoCell \<Rightarrow> (u64 \<times> u64) option" where
  "ins_step acc cell = do {
     p \<leftarrow> checked_add (fst acc) (cell_plurality cell);
     a \<leftarrow> checked_add (snd acc) (cell_amount cell);
     Some (p, a)
   }"

definition calc_storage_mass ::
    "bool \<Rightarrow> UtxoCell list \<Rightarrow> UtxoCell list \<Rightarrow> u64 \<Rightarrow> u64 option option" where
  "calc_storage_mass coinbase inputs outputs storm_param =
     (if coinbase then Some (Some 0)
      else outs_loop storm_param outputs (0, 0) \<bind> (\<lambda>r. case r of
        None \<Rightarrow> Some None
      | Some (outs_plurality, harmonic_outs) \<Rightarrow>
          if outs_plurality = 0 then Some (Some 0)
          else do {
            relaxed \<leftarrow> relaxed_formula_path outs_plurality inputs;
            if relaxed
            then do {
              harmonic_ins \<leftarrow> foldM (harmonic_step storm_param) 0 inputs;
              Some (Some (saturating_sub harmonic_outs harmonic_ins))
            }
            else do {
              (ins_plurality, sum_ins) \<leftarrow> foldM ins_step (0, 0) inputs;
              mean_ins \<leftarrow> checked_div sum_ins ins_plurality;
              per_unit \<leftarrow> checked_div storm_param mean_ins;
              let arithmetic_ins = saturating_mul ins_plurality per_unit;
              Some (Some (saturating_sub harmonic_outs arithmetic_ins))
            }
          }))"

definition calc_contextual_masses :: "MassCalculator \<Rightarrow> PopulatedTransaction \<Rightarrow> u64 option option" where
  "calc_contextual_masses self tx =
     populated_inputs tx \<bind> (\<lambda>ins.
       calc_storage_mass (is_coinbase (ptx tx)) (map (\<lambda>(_, entry). entry_cell entry) ins)
         (map output_cell (tx_outputs (ptx tx))) (storage_mass_parameter self))"

section \<open>The storage mass formula\<close>

definition plurality_of :: "UtxoCell list \<Rightarrow> nat" where
  "plurality_of cells = sum_list (map (\<lambda>c. unat (cell_plurality c)) cells)"

definition amount_of :: "UtxoCell list \<Rightarrow> nat" where
  "amount_of cells = sum_list (map (\<lambda>c. unat (cell_amount c)) cells)"

text \<open>The sum of \<open>C p\<^sup>2 / a\<close>, each term rounded down.\<close>

definition harmonic_of :: "u64 \<Rightarrow> UtxoCell list \<Rightarrow> nat" where
  "harmonic_of C cells = sum_list (map (\<lambda>c. unat C * unat (cell_plurality c) * unat (cell_plurality c) div unat (cell_amount c)) cells)"

text \<open>What the documentation assumes of a cell: a value, at least one unit, and no overflow of \<open>C p\<^sup>2\<close>.\<close>

definition cell_ok :: "u64 \<Rightarrow> UtxoCell \<Rightarrow> bool" where
  "cell_ok C cell \<longleftrightarrow> cell_amount cell \<noteq> 0 \<and> cell_plurality cell \<noteq> 0
     \<and> unat C * unat (cell_plurality cell) * unat (cell_plurality cell) < 2 ^ 64"

lemma cell_term:
  assumes "cell_ok C cell"
  shows "\<exists>c q. checked_mul C (cell_plurality cell) \<bind> (\<lambda>c. checked_mul c (cell_plurality cell)) = Some c
    \<and> checked_div c (cell_amount cell) = Some q
    \<and> unat q = unat C * unat (cell_plurality cell) * unat (cell_plurality cell) div unat (cell_amount cell)"
proof -
  let ?p = "unat (cell_plurality cell)"
  have p: "0 < ?p" using assms by (simp add: cell_ok_def unat_gt_0)
  then have "unat C * ?p \<le> unat C * ?p * ?p" by simp
  moreover have "unat C * ?p * ?p < 2 ^ 64" using assms by (simp add: cell_ok_def)
  ultimately have "unat C * ?p < 2 ^ 64" by (rule le_less_trans)
  then obtain c where c: "checked_mul C (cell_plurality cell) = Some c" "unat c = unat C * ?p"
    by (simp add: checked_mul_def unat_word_ariths)
  obtain d where d: "checked_mul c (cell_plurality cell) = Some d" "unat d = unat C * ?p * ?p"
    using assms c by (simp add: cell_ok_def checked_mul_def unat_word_ariths)
  show ?thesis using assms c d by (simp add: checked_div_def cell_ok_def unat_div)
qed

lemma outs_loop_eq:
  assumes "list_all (cell_ok C) cells" "unat p + plurality_of cells < 2 ^ 64"
  shows "outs_loop C cells (p, h) = Some (if unat h + harmonic_of C cells < 2 ^ 64
    then Some (word_of_nat (unat p + plurality_of cells), word_of_nat (unat h + harmonic_of C cells)) else None)"
  using assms
proof (induction cells arbitrary: p h)
  case Nil
  show ?case using unat_lt [of h] by (simp add: plurality_of_def harmonic_of_def)
next
  case (Cons cell cells)
  let ?c = "unat C * unat (cell_plurality cell) * unat (cell_plurality cell) div unat (cell_amount cell)"
  obtain c q where c: "checked_mul C (cell_plurality cell) \<bind> (\<lambda>c. checked_mul c (cell_plurality cell)) = Some c"
    "checked_div c (cell_amount cell) = Some q" "unat q = ?c"
    using cell_term [of C cell] Cons.prems(1) by auto
  have sums: "plurality_of (cell # cells) = unat (cell_plurality cell) + plurality_of cells"
    "harmonic_of C (cell # cells) = ?c + harmonic_of C cells"
    by (simp_all add: plurality_of_def harmonic_of_def)
  obtain p' where p': "checked_add p (cell_plurality cell) = Some p'" "unat p' = unat p + unat (cell_plurality cell)"
    using Cons.prems(2) sums by (simp add: checked_add_def unat_word_ariths)
  show ?case
  proof (cases "checked_add h q")
    case None
    moreover from this have "2 ^ 64 \<le> unat h + ?c" using c(3) by (simp add: checked_add_eq_None)
    ultimately show ?thesis using c p' sums by simp
  next
    case (Some h')
    then have h': "unat h' = unat h + ?c" using c by (simp add: checked_add_eq_Some)
    have "outs_loop C cells (p', h') = Some (if unat h' + harmonic_of C cells < 2 ^ 64
        then Some (word_of_nat (unat p' + plurality_of cells), word_of_nat (unat h' + harmonic_of C cells)) else None)"
      using Cons.IH Cons.prems sums p' by simp
    then show ?thesis using Some c(1,2) p' h' sums by (simp add: add.assoc)
  qed
qed

lemma harmonic_ins_eq:
  assumes "list_all (cell_ok C) cells"
  shows "\<exists>r. foldM (harmonic_step C) h cells = Some r \<and> unat r = min (unat h + harmonic_of C cells) (2 ^ 64 - 1)"
  using assms
proof (induction cells arbitrary: h)
  case Nil
  show ?case using unat_lt [of h] by (simp add: harmonic_of_def)
next
  case (Cons cell cells)
  obtain c q where c: "checked_mul C (cell_plurality cell) \<bind> (\<lambda>c. checked_mul c (cell_plurality cell)) = Some c"
    "checked_div c (cell_amount cell) = Some q"
    "unat q = unat C * unat (cell_plurality cell) * unat (cell_plurality cell) div unat (cell_amount cell)"
    using cell_term [of C cell] Cons.prems by auto
  have step: "harmonic_step C h cell = Some (saturating_add h q)"
    using c(1,2) by (auto simp: harmonic_step_def bind_eq_Some_conv)
  have "harmonic_of C (cell # cells) = unat q + harmonic_of C cells" using c(3) by (simp add: harmonic_of_def)
  moreover obtain r where "foldM (harmonic_step C) (saturating_add h q) cells = Some r"
    "unat r = min (unat (saturating_add h q) + harmonic_of C cells) (2 ^ 64 - 1)"
    using Cons.IH [of "saturating_add h q"] Cons.prems by auto
  ultimately show ?case using step by (simp add: unat_saturating_add min_def)
qed

lemma ins_sums:
  assumes "unat p + plurality_of cells < 2 ^ 64" "unat a + amount_of cells < 2 ^ 64"
  shows "foldM ins_step (p, a) cells
    = Some (word_of_nat (unat p + plurality_of cells), word_of_nat (unat a + amount_of cells))"
  using assms
proof (induction cells arbitrary: p a)
  case (Cons cell cells)
  obtain p' a' where step: "checked_add p (cell_plurality cell) = Some p'" "checked_add a (cell_amount cell) = Some a'"
    "unat p' = unat p + unat (cell_plurality cell)" "unat a' = unat a + unat (cell_amount cell)"
    using Cons.prems by (simp add: checked_add_def unat_word_ariths plurality_of_def amount_of_def)
  have "foldM ins_step (p', a') cells
      = Some (word_of_nat (unat p' + plurality_of cells), word_of_nat (unat a' + amount_of cells))"
    using Cons.prems step by (intro Cons.IH) (simp_all add: plurality_of_def amount_of_def)
  moreover have "ins_step (p, a) cell = Some (p', a')" using step by (simp add: ins_step_def)
  ultimately show ?case using step by (simp add: plurality_of_def amount_of_def add.assoc del: of_nat_add)
qed (simp add: plurality_of_def amount_of_def)

text \<open>The relaxed cases, by the numbers of storage units.\<close>

definition relaxed_case :: "UtxoCell list \<Rightarrow> UtxoCell list \<Rightarrow> bool" where
  "relaxed_case ins outs \<longleftrightarrow> plurality_of outs = 1 \<or> plurality_of ins = 1 \<or> plurality_of outs = 2 \<and> plurality_of ins = 2"

lemma plurality_of_length: "list_all (cell_ok C) cells \<Longrightarrow> length cells \<le> plurality_of cells"
proof (induction cells)
  case (Cons cell cells)
  then have "0 < unat (cell_plurality cell)" by (simp add: cell_ok_def unat_gt_0)
  then show ?case using Cons by (simp add: plurality_of_def)
qed simp

lemma relaxed_formula_path_case:
  assumes "list_all (cell_ok C) ins" "plurality_of ins < 2 ^ 64" "unat op = plurality_of outs"
  shows "relaxed_formula_path op ins = Some (relaxed_case ins outs)"
proof -
  have one: "op = 1 \<longleftrightarrow> plurality_of outs = 1" "op = 2 \<longleftrightarrow> plurality_of outs = 2"
    using assms(3) by (auto simp: word_unat_eq_iff)
  have sum: "checked_sum (map cell_plurality ins) = Some (word_of_nat (plurality_of ins))"
    using assms(2) by (simp add: checked_sum_eq_Some unat_of_nat plurality_of_def comp_def)
  have small: "(word_of_nat (plurality_of ins) :: u64) = 1 \<longleftrightarrow> plurality_of ins = 1"
    "(word_of_nat (plurality_of ins) :: u64) = 2 \<longleftrightarrow> plurality_of ins = 2"
    using assms(2) by (auto simp: word_unat_eq_iff unat_of_nat)
  show ?thesis
    using plurality_of_length [OF assms(1)] by (auto simp: relaxed_formula_path_def relaxed_case_def sum one small)
qed

lemma unat_saturating_mul: "unat (saturating_mul a (b :: 'a::len word)) = min (unat a * unat b) (2 ^ LENGTH('a) - 1)"
proof -
  have "unat (- 1 :: 'a word) = 2 ^ LENGTH('a) - 1"
    by (simp add: unsigned_minus_1_eq_mask mask_eq_exp_minus_1)
  moreover have "min (unat a * unat b) (2 ^ LENGTH('a) - 1)
      = (if unat a * unat b < 2 ^ LENGTH('a) then unat a * unat b else 2 ^ LENGTH('a) - 1)" by auto
  ultimately show ?thesis by (simp add: saturating_mul_def unat_word_ariths)
qed

lemma saturating_sub_min:
  assumes "n < 2 ^ 64" "unat (r :: u64) = min m (2 ^ 64 - 1)"
  shows "saturating_sub (word_of_nat n) r = word_of_nat (n - m)"
proof -
  have "unat (saturating_sub (word_of_nat n) r) = n - min m (2 ^ 64 - 1)"
    using assms by (simp add: unat_saturating_sub unat_of_nat)
  also have "\<dots> = n - m" using assms(1) by (simp add: min_def)
  also have "\<dots> = unat (word_of_nat (n - m) :: u64)" using assms(1) by (simp add: unat_of_nat)
  finally show ?thesis by (simp add: word_unat_eq_iff)
qed

text \<open>
  C36: The storage mass is the formula of KIP-0009.  For cells with values and pluralities that the
  documentation assumes, some input, and sums that fit 64 bits: without outputs the mass is zero; it
  is incomputable exactly when the harmonic sum of the outputs does not fit; in the relaxed cases -
  one unit of outputs, one unit of inputs, or two of each - it is the harmonic sum of the outputs
  less that of the inputs, and otherwise less the units of the inputs times the parameter over their
  mean amount, never below zero.  The computation panics exactly when, outside the relaxed cases,
  the inputs hold fewer sompi than storage units, so that the mean amount is zero.
\<close>

theorem storage_mass_formula:
  assumes "list_all (cell_ok C) ins" "list_all (cell_ok C) outs" and "ins \<noteq> []"
    and "plurality_of ins < 2 ^ 64" "plurality_of outs < 2 ^ 64" "amount_of ins < 2 ^ 64"
  shows "calc_storage_mass False ins outs C =
    (if outs = [] then Some (Some 0)
     else if harmonic_of C outs \<ge> 2 ^ 64 then Some None
     else if relaxed_case ins outs then Some (Some (word_of_nat (harmonic_of C outs - harmonic_of C ins)))
     else if amount_of ins < plurality_of ins then None
     else Some (Some (word_of_nat (harmonic_of C outs
       - plurality_of ins * (unat C div (amount_of ins div plurality_of ins))))))"
proof (cases "outs = [] \<or> harmonic_of C outs \<ge> 2 ^ 64")
  case True
  then show ?thesis using outs_loop_eq [OF assms(2), of 0 0] assms(5)
    by (auto simp: calc_storage_mass_def plurality_of_def harmonic_of_def)
next
  case False
  let ?op = "word_of_nat (plurality_of outs) :: u64"
  have loop: "outs_loop C outs (0, 0) = Some (Some (?op, word_of_nat (harmonic_of C outs)))"
    using outs_loop_eq [OF assms(2), of 0 0] assms(5) False by simp
  have op: "unat ?op = plurality_of outs" using assms(5) by (simp add: unat_of_nat)
  have "0 < plurality_of outs" using plurality_of_length [OF assms(2)] False by (cases outs) auto
  then have "?op \<noteq> 0" using op by auto
  note head = loop this relaxed_formula_path_case [OF assms(1,4) op]
  show ?thesis
  proof (cases "relaxed_case ins outs")
    case True
    obtain r where "foldM (harmonic_step C) 0 ins = Some r" "unat r = min (harmonic_of C ins) (2 ^ 64 - 1)"
      using harmonic_ins_eq [OF assms(1), of 0] by auto
    then show ?thesis
      using True False head saturating_sub_min [of "harmonic_of C outs" r "harmonic_of C ins"]
      by (simp add: calc_storage_mass_def)
  next
    case arithmetic: False
    let ?ip = "word_of_nat (plurality_of ins) :: u64" and ?mean = "word_of_nat (amount_of ins) div word_of_nat (plurality_of ins) :: u64"
    have ip: "unat ?ip = plurality_of ins" "unat ?mean = amount_of ins div plurality_of ins"
      using assms(4,6) by (simp_all add: unat_div unat_of_nat)
    have pos: "0 < plurality_of ins" using plurality_of_length [OF assms(1)] assms(3) by (cases ins) auto
    then have "?ip \<noteq> 0" using ip by auto
    moreover have "?mean = 0 \<longleftrightarrow> amount_of ins < plurality_of ins"
      using ip(2) pos by (auto simp: word_unat_eq_iff div_eq_0_iff)
    moreover have "unat (saturating_mul ?ip (C div ?mean))
        = min (plurality_of ins * (unat C div (amount_of ins div plurality_of ins))) (2 ^ 64 - 1)"
      using ip by (simp add: unat_saturating_mul unat_div)
    ultimately show ?thesis
      using arithmetic False head ins_sums [of 0 ins 0] assms(4,6)
        saturating_sub_min [of "harmonic_of C outs" "saturating_mul ?ip (C div ?mean)"]
      by (simp add: calc_storage_mass_def checked_div_def Let_def)
  qed
qed

theorem storage_mass_formula_witness:
  "calc_storage_mass False [UtxoCell_new 1 50, UtxoCell_new 1 50, UtxoCell_new 1 50] [UtxoCell_new 1 100, UtxoCell_new 1 50] 1000
     = Some (Some 0)
   \<and> calc_storage_mass False [UtxoCell_new 2 1, UtxoCell_new 2 1] [UtxoCell_new 2 1] 1000 = None"
proof -
  have a: "list_all (cell_ok 1000) [UtxoCell_new 1 50, UtxoCell_new 1 50, UtxoCell_new 1 50]"
    "list_all (cell_ok 1000) [UtxoCell_new 1 100, UtxoCell_new 1 50]" "list_all (cell_ok 1000) [UtxoCell_new 2 1, UtxoCell_new 2 1]"
    "list_all (cell_ok 1000) [UtxoCell_new 2 1]"
    by (simp_all add: cell_ok_def UtxoCell_new_def)
  show ?thesis
    using storage_mass_formula [OF a(1) a(2)] storage_mass_formula [OF a(3) a(4)]
    by (simp add: plurality_of_def amount_of_def harmonic_of_def relaxed_case_def UtxoCell_new_def)
qed

end
