(* ===== verification/Tx_Hashing.thy ===== *)
theory Tx_Hashing
  imports Sighash
begin

unbundle bit_operations_syntax

text \<open>
  Transaction hashes, transaction ids and merkle roots: \<^verbatim>\<open>src/consensus/core/src/hashing/tx.rs\<close>, the
  constructors of \<^verbatim>\<open>Transaction\<close> in \<^verbatim>\<open>src/consensus/core/src/tx.rs\<close>,
  \<^verbatim>\<open>src/consensus/core/src/merkle.rs\<close> and \<^verbatim>\<open>src/crypto/merkle/src/lib.rs\<close>.  The keyed BLAKE2b hashers
  are the parameters \<open>H\<close> (\<^verbatim>\<open>TransactionHash\<close>), \<open>I\<close> (\<^verbatim>\<open>TransactionID\<close>) and \<open>M\<close>
  (\<^verbatim>\<open>MerkleBranchHash\<close>), applied to the bytes that the code writes.

  The lemmas show that the encodings are injective, that the array loop of the merkle root computes
  the root of the binary tree over the leaves, and so that the root of a block commits to every
  field of its transactions.
\<close>

section \<open>Encoding\<close>

type_synonym TxEncodingFlags = u8

definition FULL :: TxEncodingFlags where "FULL = 0"
definition EXCLUDE_SIGNATURE_SCRIPT :: TxEncodingFlags where "EXCLUDE_SIGNATURE_SCRIPT = 1"
definition EXCLUDE_MASS_COMMIT :: TxEncodingFlags where "EXCLUDE_MASS_COMMIT = 2"

definition flags_contain :: "TxEncodingFlags \<Rightarrow> TxEncodingFlags \<Rightarrow> bool" where
  "flags_contain flags f = (flags AND f = f)"

definition write_outpoint :: "TransactionOutpoint \<Rightarrow> u8 list" where
  "write_outpoint p = hash_bytes (transaction_id p) @ to_le 4 (outpoint_index p)"

definition write_input :: "TransactionInput \<Rightarrow> TxEncodingFlags \<Rightarrow> u8 list" where
  "write_input input encoding_flags =
     write_outpoint (previous_outpoint input)
     @ (if \<not> flags_contain encoding_flags EXCLUDE_SIGNATURE_SCRIPT
        then write_var_bytes (signature_script input) @ [sig_op_count input]
        else write_var_bytes [])
     @ to_le 8 (input_sequence input)"

definition write_output :: "TransactionOutput \<Rightarrow> u8 list" where
  "write_output out =
     to_le 8 (out_value out) @ to_le 2 (spk_version (out_spk out))
     @ write_var_bytes (spk_script (out_spk out))"

definition write_transaction :: "Transaction \<Rightarrow> TxEncodingFlags \<Rightarrow> u8 list" where
  "write_transaction tx encoding_flags =
     to_le 2 (tx_version tx)
     @ write_len (length (tx_inputs tx))
     @ concat (map (\<lambda>input. write_input input encoding_flags) (tx_inputs tx))
     @ write_len (length (tx_outputs tx))
     @ concat (map write_output (tx_outputs tx))
     @ to_le 8 (lock_time tx) @ subnetwork_id tx @ to_le 8 (tx_gas tx)
     @ write_var_bytes (tx_payload tx)
     @ (if \<not> flags_contain encoding_flags EXCLUDE_MASS_COMMIT \<and> tx_mass tx > 0
        then to_le 8 (tx_mass tx) else [])"

definition tx_hash :: "(u8 list \<Rightarrow> hash) \<Rightarrow> Transaction \<Rightarrow> hash" where
  "tx_hash H tx = H (write_transaction tx FULL)"

definition hash_pre_crescendo :: "(u8 list \<Rightarrow> hash) \<Rightarrow> Transaction \<Rightarrow> hash" where
  "hash_pre_crescendo H tx = H (write_transaction tx EXCLUDE_MASS_COMMIT)"

definition id_encoding :: "Transaction \<Rightarrow> u8 list" where
  "id_encoding tx = write_transaction tx
     (if is_coinbase tx then FULL else EXCLUDE_SIGNATURE_SCRIPT OR EXCLUDE_MASS_COMMIT)"

definition calc_id :: "(u8 list \<Rightarrow> hash) \<Rightarrow> Transaction \<Rightarrow> hash" where
  "calc_id I tx = I (id_encoding tx)"

section \<open>Construction\<close>

definition new_non_finalized ::
    "u16 \<Rightarrow> TransactionInput list \<Rightarrow> TransactionOutput list \<Rightarrow> u64 \<Rightarrow> SubnetworkId \<Rightarrow> u64 \<Rightarrow> u8 list
      \<Rightarrow> Transaction" where
  "new_non_finalized version inputs outputs lock subnetwork gas payload =
     \<lparr>tx_version = version, tx_inputs = inputs, tx_outputs = outputs, lock_time = lock,
      subnetwork_id = subnetwork, tx_gas = gas, tx_payload = payload, tx_mass = 0, tx_id = 0\<rparr>"

definition finalize :: "(u8 list \<Rightarrow> hash) \<Rightarrow> Transaction \<Rightarrow> Transaction" where
  "finalize I tx = tx\<lparr>tx_id := calc_id I tx\<rparr>"

definition set_mass :: "u64 \<Rightarrow> Transaction \<Rightarrow> Transaction" where
  "set_mass mass tx = tx\<lparr>tx_mass := mass\<rparr>"

definition Transaction_new ::
    "(u8 list \<Rightarrow> hash) \<Rightarrow> u16 \<Rightarrow> TransactionInput list \<Rightarrow> TransactionOutput list \<Rightarrow> u64
      \<Rightarrow> SubnetworkId \<Rightarrow> u64 \<Rightarrow> u8 list \<Rightarrow> Transaction" where
  "Transaction_new I version inputs outputs lock subnetwork gas payload =
     finalize I (new_non_finalized version inputs outputs lock subnetwork gas payload)"

definition Transaction_new_with_mass ::
    "(u8 list \<Rightarrow> hash) \<Rightarrow> u16 \<Rightarrow> TransactionInput list \<Rightarrow> TransactionOutput list \<Rightarrow> u64
      \<Rightarrow> SubnetworkId \<Rightarrow> u64 \<Rightarrow> u8 list \<Rightarrow> u64 \<Rightarrow> Transaction" where
  "Transaction_new_with_mass I version inputs outputs lock subnetwork gas payload mass =
     finalize I (set_mass mass (new_non_finalized version inputs outputs lock subnetwork gas payload))"

section \<open>Merkle roots\<close>

definition merkle_hash :: "(u8 list \<Rightarrow> hash) \<Rightarrow> hash \<Rightarrow> hash \<Rightarrow> hash" where
  "merkle_hash M left right = M (hash_bytes left @ hash_bytes right)"

fun next_power_of_two :: "nat \<Rightarrow> nat" where
  "next_power_of_two n = (if n \<le> 1 then 1 else 2 * next_power_of_two ((n + 1) div 2))"

declare next_power_of_two.simps [simp del]

text \<open>The indices of \<^verbatim>\<open>(0..n).step_by(2)\<close>.\<close>

definition step_by_2 :: "nat \<Rightarrow> nat list" where
  "step_by_2 n = map (\<lambda>k. 2 * k) [0..<(n + 1) div 2]"

text \<open>The loop over the array; reading or writing out of range panics.\<close>

fun merkle_loop ::
    "(u8 list \<Rightarrow> hash) \<Rightarrow> nat list \<Rightarrow> nat \<Rightarrow> hash option list \<Rightarrow> hash option list option" where
  "merkle_loop M [] offset merkles = Some merkles"
| "merkle_loop M (i # is) offset merkles =
     (if i < length merkles \<and> offset < length merkles
      then (case merkles ! i of
              None \<Rightarrow> merkle_loop M is (offset + 1) (merkles[offset := None])
            | Some left \<Rightarrow>
                if i + 1 < length merkles
                then merkle_loop M is (offset + 1) (merkles[offset := Some (merkle_hash M left
                       (case merkles ! (i + 1) of Some right \<Rightarrow> right | None \<Rightarrow> ZERO_HASH))])
                else None)
      else None)"

definition calc_merkle_root :: "(u8 list \<Rightarrow> hash) \<Rightarrow> hash list \<Rightarrow> hash option" where
  "calc_merkle_root M hashes =
     (if length hashes = 0 then Some ZERO_HASH
      else let next_pot = next_power_of_two (length hashes);
               vec_len = 2 * next_pot - 1;
               merkles = map Some hashes @ replicate (vec_len - length hashes) None
           in merkle_loop M (step_by_2 (vec_len - 1)) next_pot merkles \<bind> last)"

definition calc_hash_merkle_root ::
    "(u8 list \<Rightarrow> hash) \<Rightarrow> (u8 list \<Rightarrow> hash) \<Rightarrow> Transaction list \<Rightarrow> hash option" where
  "calc_hash_merkle_root M H txs = calc_merkle_root M (map (tx_hash H) txs)"

definition calc_hash_merkle_root_pre_crescendo ::
    "(u8 list \<Rightarrow> hash) \<Rightarrow> (u8 list \<Rightarrow> hash) \<Rightarrow> Transaction list \<Rightarrow> hash option" where
  "calc_hash_merkle_root_pre_crescendo M H txs = calc_merkle_root M (map (hash_pre_crescendo H) txs)"

definition calc_accepted_id_merkle_root_pre_crescendo ::
    "(u8 list \<Rightarrow> hash) \<Rightarrow> hash list \<Rightarrow> hash option" where
  "calc_accepted_id_merkle_root_pre_crescendo M accepted_tx_ids =
     calc_merkle_root M (sort accepted_tx_ids)"

section \<open>The encodings are injective\<close>

text \<open>An encoding \<open>f\<close> that determines \<open>g\<close> of what it encodes and where it ends.\<close>

definition prefix_code :: "'a set \<Rightarrow> ('a \<Rightarrow> u8 list) \<Rightarrow> ('a \<Rightarrow> 'b) \<Rightarrow> bool" where
  "prefix_code A f g =
     (\<forall>x \<in> A. \<forall>y \<in> A. \<forall>r s. f x @ r = f y @ s \<longrightarrow> g x = g y \<and> r = s)"

lemma concat_map_count_prefix:
  assumes "prefix_code A f g"
    and "length xs = length ys" and "set xs \<subseteq> A" "set ys \<subseteq> A"
    and "concat (map f xs) @ r = concat (map f ys) @ s"
  shows "map g xs = map g ys \<and> r = s"
  using assms(2-5)
proof (induction xs ys rule: list_induct2)
  case (Cons x xs y ys)
  have "f x @ (concat (map f xs) @ r) = f y @ (concat (map f ys) @ s)" using Cons.prems(3) by simp
  then have "g x = g y \<and> concat (map f xs) @ r = concat (map f ys) @ s"
    using assms(1) Cons.prems(1,2) unfolding prefix_code_def by (metis insert_subset list.simps(15))
  then show ?case using Cons by simp
qed simp

text \<open>A list written with its length in front.\<close>

lemma counted_prefix:
  assumes "prefix_code A f g"
    and "length xs < 2 ^ 64" "length ys < 2 ^ 64" and "set xs \<subseteq> A" "set ys \<subseteq> A"
    and "write_len (length xs) @ concat (map f xs) @ r = write_len (length ys) @ concat (map f ys) @ s"
  shows "map g xs = map g ys \<and> r = s"
proof -
  have "write_len (length xs) = write_len (length ys) \<and> concat (map f xs) @ r = concat (map f ys) @ s"
    using assms(6) by (simp add: append_eq_append_conv)
  then show ?thesis
    using concat_map_count_prefix [OF assms(1) _ assms(4,5)] write_len_inject [OF assms(2,3)] by blast
qed

text \<open>
  The fields of an input that an encoding covers: all of them, or all but the signature script and
  the count of signature operations.
\<close>

definition signed_part :: "TransactionInput \<Rightarrow> TransactionOutpoint \<times> u64" where
  "signed_part input = (previous_outpoint input, input_sequence input)"

lemma write_outpoint_prefix: "write_outpoint a @ r = write_outpoint b @ s \<longleftrightarrow> a = b \<and> r = s"
  by (auto simp: write_outpoint_def append_eq_append_conv to_le_inject)

lemma write_input_full:
  assumes "short (signature_script a)" "short (signature_script b)"
    and "\<not> flags_contain fl EXCLUDE_SIGNATURE_SCRIPT" and "write_input a fl @ r = write_input b fl @ s"
  shows "a = b \<and> r = s"
  using assms by (auto simp: write_input_def write_outpoint_prefix write_var_bytes_prefix
      append_eq_append_conv to_le_inject)

lemma write_input_signed:
  assumes "flags_contain fl EXCLUDE_SIGNATURE_SCRIPT" and "write_input a fl @ r = write_input b fl @ s"
  shows "signed_part a = signed_part b \<and> r = s"
  using assms by (auto simp: write_input_def write_outpoint_prefix append_eq_append_conv to_le_inject
      signed_part_def)

lemma write_output_prefix:
  assumes "short (spk_script (out_spk a))" "short (spk_script (out_spk b))"
    and "write_output a @ r = write_output b @ s"
  shows "a = b \<and> r = s"
  using assms by (auto simp: write_output_def write_var_bytes_prefix append_eq_append_conv to_le_inject)

text \<open>Lengths are 64-bit and a subnetwork id has its twenty bytes.\<close>

definition tx_fits :: "Transaction \<Rightarrow> bool" where
  "tx_fits tx = (length (tx_inputs tx) < 2 ^ 64 \<and> length (tx_outputs tx) < 2 ^ 64
     \<and> length (subnetwork_id tx) = SUBNETWORK_ID_SIZE \<and> short (tx_payload tx)
     \<and> (\<forall>input \<in> set (tx_inputs tx). short (signature_script input))
     \<and> (\<forall>out \<in> set (tx_outputs tx). short (spk_script (out_spk out))))"

text \<open>The fields that every encoding covers, and the inputs as an encoding covers them.\<close>

definition covered :: "Transaction \<Rightarrow> u16 \<times> TransactionOutput list \<times> u64 \<times> SubnetworkId \<times> u64 \<times> u8 list" where
  "covered tx = (tx_version tx, tx_outputs tx, lock_time tx, subnetwork_id tx, tx_gas tx, tx_payload tx)"

definition covered_mass :: "TxEncodingFlags \<Rightarrow> Transaction \<Rightarrow> u64" where
  "covered_mass fl tx = (if flags_contain fl EXCLUDE_MASS_COMMIT then 0 else tx_mass tx)"

lemma mass_suffix:
  "(if \<not> flags_contain fl EXCLUDE_MASS_COMMIT \<and> tx_mass a > 0 then to_le 8 (tx_mass a) else [])
   = (if \<not> flags_contain fl EXCLUDE_MASS_COMMIT \<and> tx_mass b > 0 then to_le 8 (tx_mass b) else [])
   \<Longrightarrow> covered_mass fl a = covered_mass fl b"
  by (auto simp: covered_mass_def to_le_inject word_gt_0 split: if_splits dest: arg_cong [of _ _ length])

lemma write_transaction_binds:
  assumes "tx_fits a" "tx_fits b" and "write_transaction a fl = write_transaction b fl"
    and inputs: "prefix_code {i. short (signature_script i)} (\<lambda>i. write_input i fl) g"
  shows "map g (tx_inputs a) = map g (tx_inputs b) \<and> covered a = covered b
    \<and> covered_mass fl a = covered_mass fl b"
proof -
  note fits = assms(1,2) [unfolded tx_fits_def]
  define tail where "tail = (\<lambda>tx :: Transaction. to_le 8 (lock_time tx) @ subnetwork_id tx
    @ to_le 8 (tx_gas tx) @ write_var_bytes (tx_payload tx)
    @ (if \<not> flags_contain fl EXCLUDE_MASS_COMMIT \<and> tx_mass tx > 0 then to_le 8 (tx_mass tx) else []))"
  define outs where "outs = (\<lambda>tx :: Transaction. write_len (length (tx_outputs tx))
    @ concat (map write_output (tx_outputs tx)) @ tail tx)"
  have head: "tx_version a = tx_version b
    \<and> write_len (length (tx_inputs a)) @ concat (map (\<lambda>i. write_input i fl) (tx_inputs a)) @ outs a
    = write_len (length (tx_inputs b)) @ concat (map (\<lambda>i. write_input i fl) (tx_inputs b)) @ outs b"
    using assms(3)
    by (simp add: write_transaction_def outs_def tail_def append_eq_append_conv to_le_inject)
  have ins: "map g (tx_inputs a) = map g (tx_inputs b) \<and> outs a = outs b"
    by (rule counted_prefix [OF inputs _ _ _ _ conjunct2 [OF head]]) (use fits in auto)
  have code: "prefix_code {out. short (spk_script (out_spk out))} write_output (\<lambda>x. x)"
    by (auto simp: prefix_code_def dest: write_output_prefix)
  have out: "map (\<lambda>x. x) (tx_outputs a) = map (\<lambda>x. x) (tx_outputs b) \<and> tail a = tail b"
    by (rule counted_prefix [OF code _ _ _ _ conjunct2 [OF ins, unfolded outs_def]]) (use fits in auto)
  then have rest: "lock_time a = lock_time b \<and> subnetwork_id a = subnetwork_id b \<and> tx_gas a = tx_gas b
    \<and> write_var_bytes (tx_payload a)
      @ (if \<not> flags_contain fl EXCLUDE_MASS_COMMIT \<and> tx_mass a > 0 then to_le 8 (tx_mass a) else [])
    = write_var_bytes (tx_payload b)
      @ (if \<not> flags_contain fl EXCLUDE_MASS_COMMIT \<and> tx_mass b > 0 then to_le 8 (tx_mass b) else [])"
    using fits unfolding tail_def by (simp add: append_eq_append_conv to_le_inject)
  have "short (tx_payload a)" "short (tx_payload b)" using fits by simp_all
  from write_var_bytes_prefix [OF this] rest have "tx_payload a = tx_payload b"
    and "covered_mass fl a = covered_mass fl b"
    by (blast, blast intro: mass_suffix)
  then show ?thesis using head ins out rest by (simp add: covered_def)
qed

lemma id_flags:
  "\<not> flags_contain FULL EXCLUDE_SIGNATURE_SCRIPT" "\<not> flags_contain FULL EXCLUDE_MASS_COMMIT"
  "flags_contain (EXCLUDE_SIGNATURE_SCRIPT OR EXCLUDE_MASS_COMMIT) EXCLUDE_SIGNATURE_SCRIPT"
  "flags_contain (EXCLUDE_SIGNATURE_SCRIPT OR EXCLUDE_MASS_COMMIT) EXCLUDE_MASS_COMMIT"
  by (simp_all add: flags_contain_def FULL_def EXCLUDE_SIGNATURE_SCRIPT_def EXCLUDE_MASS_COMMIT_def)

lemma write_transaction_ignores_id: "write_transaction (tx\<lparr>tx_id := i\<rparr>) fl = write_transaction tx fl"
  by (simp add: write_transaction_def)

text \<open>The full encoding determines every field but the cached id.\<close>

lemma full_encoding_binds:
  assumes "tx_fits a" "tx_fits b" and "write_transaction a FULL = write_transaction b FULL"
  shows "a\<lparr>tx_id := 0\<rparr> = b\<lparr>tx_id := 0\<rparr>"
proof -
  have "map (\<lambda>x. x) (tx_inputs a) = map (\<lambda>x. x) (tx_inputs b) \<and> covered a = covered b
    \<and> covered_mass FULL a = covered_mass FULL b"
    by (rule write_transaction_binds [OF assms])
      (auto simp: prefix_code_def dest: write_input_full [OF _ _ id_flags(1)])
  then show ?thesis by (simp add: covered_def covered_mass_def id_flags)
qed

lemma id_encoding_binds:
  assumes "tx_fits a" "tx_fits b" and "\<not> is_coinbase a" "\<not> is_coinbase b"
    and "id_encoding a = id_encoding b"
  shows "map signed_part (tx_inputs a) = map signed_part (tx_inputs b) \<and> covered a = covered b"
proof -
  let ?fl = "EXCLUDE_SIGNATURE_SCRIPT OR EXCLUDE_MASS_COMMIT"
  have "write_transaction a ?fl = write_transaction b ?fl"
    using assms(3-5) by (simp add: id_encoding_def)
  from write_transaction_binds [OF assms(1,2) this, where g = signed_part]
  show ?thesis using write_input_signed [OF id_flags(3)] unfolding prefix_code_def by blast
qed

lemma id_encoding_ignores:
  assumes "\<not> is_coinbase a" "map signed_part (tx_inputs a) = map signed_part (tx_inputs b)"
    and "covered a = covered b"
  shows "id_encoding a = id_encoding b"
proof -
  let ?fl = "EXCLUDE_SIGNATURE_SCRIPT OR EXCLUDE_MASS_COMMIT"
  have one: "write_input i ?fl = (case signed_part i of (p, s) \<Rightarrow> write_outpoint p @ write_var_bytes [] @ to_le 8 s)" for i
    using id_flags(3) by (simp add: write_input_def signed_part_def)
  have "map (\<lambda>i. write_input i ?fl) (tx_inputs a) = map (\<lambda>i. write_input i ?fl) (tx_inputs b)"
    unfolding one using arg_cong [OF assms(2), of "map (\<lambda>(p, s). write_outpoint p @ write_var_bytes [] @ to_le 8 s)"]
    by (simp add: comp_def)
  moreover have "length (tx_inputs a) = length (tx_inputs b)" using assms(2) by (metis length_map)
  ultimately show ?thesis
    using assms(1,3) id_flags(4) by (simp add: id_encoding_def write_transaction_def covered_def is_coinbase_def)
qed

section \<open>The array loop is the binary tree\<close>

text \<open>One level up: neighbours are hashed together, an odd one out with the zero hash.\<close>

fun level_up :: "(u8 list \<Rightarrow> hash) \<Rightarrow> hash list \<Rightarrow> hash list" where
  "level_up M (a # b # xs) = merkle_hash M a b # level_up M xs"
| "level_up M [a] = [merkle_hash M a ZERO_HASH]"
| "level_up M [] = []"

lemma length_level_up [simp]: "length (level_up M xs) = (length xs + 1) div 2"
  by (induction M xs rule: level_up.induct) auto

function merkle_tree :: "(u8 list \<Rightarrow> hash) \<Rightarrow> hash list \<Rightarrow> hash" where
  "merkle_tree M xs = (case xs of [] \<Rightarrow> ZERO_HASH | [a] \<Rightarrow> a | _ \<Rightarrow> merkle_tree M (level_up M xs))"
  by auto
termination by (relation "measure (\<lambda>(M, xs). length xs)") (auto split: list.splits)

declare merkle_tree.simps [simp del]

lemma merkle_tree_simps [simp]:
  "merkle_tree M [] = ZERO_HASH" "merkle_tree M [a] = a"
  "merkle_tree M (a # b # xs) = merkle_tree M (level_up M (a # b # xs))"
  by (subst merkle_tree.simps; simp)+

definition combine :: "(u8 list \<Rightarrow> hash) \<Rightarrow> hash option \<Rightarrow> hash option \<Rightarrow> hash option" where
  "combine M a b = map_option (\<lambda>left. merkle_hash M left
     (case b of Some right \<Rightarrow> right | None \<Rightarrow> ZERO_HASH)) a"

text \<open>The array as a queue: two cells are read at its front, one is written at its back.\<close>

fun collapse :: "(u8 list \<Rightarrow> hash) \<Rightarrow> hash option list \<Rightarrow> hash option" where
  "collapse M (a # b # q) = collapse M (q @ [combine M a b])"
| "collapse M [a] = a"
| "collapse M [] = None"

lemma merkle_loop_collapse:
  assumes "length m = 2 * P - 1" "0 < P" "j \<le> P - 1"
  shows "\<exists>m'. merkle_loop M (map (\<lambda>k. 2 * k) [j..<P - 1]) (P + j) m = Some m'
    \<and> m' \<noteq> [] \<and> last m' = collapse M (take (P - j) (drop (2 * j) m))"
  using assms(1,3)
proof (induction "P - 1 - j" arbitrary: j m)
  case 0
  then have j: "j = P - 1" and m: "m \<noteq> []" using \<open>0 < P\<close> by auto
  then have "take (P - j) (drop (2 * j) m) = [last m]"
    using 0(2) \<open>0 < P\<close> by (cases m rule: rev_cases) (auto simp: diff_mult_distrib2)
  then show ?case using j m by simp
next
  case (Suc n)
  let ?v = "combine M (m ! (2 * j)) (m ! (2 * j + 1))" and ?m = "m[P + j := combine M (m ! (2 * j)) (m ! (2 * j + 1))]"
  have j: "j < P - 1" and range: "2 * j + 1 < length m" "P + j < length m" using Suc.hyps(2) Suc.prems by linarith+
  have step: "merkle_loop M (map (\<lambda>k. 2 * k) [j..<P - 1]) (P + j) m
      = merkle_loop M (map (\<lambda>k. 2 * k) [Suc j..<P - 1]) (P + Suc j) ?m"
    unfolding upt_conv_Cons [OF j] using range
    by (cases "m ! (2 * j)"; cases "m ! (2 * j + 1)") (auto simp: combine_def)
  have front: "take (P - j) (drop (2 * j) m)
      = m ! (2 * j) # m ! (2 * j + 1) # take (P - j - 2) (drop (2 * j + 2) m)"
    using j range by (simp add: Cons_nth_drop_Suc [symmetric] take_Cons' numeral_2_eq_2)
  have rear: "take (P - Suc j) (drop (2 * Suc j) ?m) = take (P - j - 2) (drop (2 * j + 2) m) @ [?v]"
  proof -
    have len: "P - j - 2 < length (drop (2 * j + 2) m)" and suc: "P - Suc j = Suc (P - j - 2)"
      and pos: "2 * j + 2 + (P - j - 2) = P + j" using j range by auto
    have len': "P - j - 2 < length (drop (2 * j + 2) ?m)" using len by simp
    have at_end: "drop (2 * j + 2) ?m ! (P - j - 2) = ?m ! (P + j)"
      unfolding pos [symmetric] using range by (intro nth_drop) simp
    have "take (P - Suc j) (drop (2 * j + 2) ?m) = take (P - j - 2) (drop (2 * j + 2) ?m) @ [?m ! (P + j)]"
      unfolding suc take_Suc_conv_app_nth [OF len'] at_end ..
    moreover have "take (P - j - 2) (drop (2 * j + 2) ?m) = take (P - j - 2) (drop (2 * j + 2) m)"
      using pos by (intro nth_equalityI) auto
    ultimately show ?thesis using range by (simp add: algebra_simps)
  qed
  have "\<exists>m'. merkle_loop M (map (\<lambda>k. 2 * k) [Suc j..<P - 1]) (P + Suc j) ?m = Some m'
    \<and> m' \<noteq> [] \<and> last m' = collapse M (take (P - Suc j) (drop (2 * Suc j) ?m))"
    by (rule Suc.hyps(1)) (use Suc.hyps(2) Suc.prems j in auto)
  then show ?case unfolding step front rear by simp
qed

fun pair_up :: "(u8 list \<Rightarrow> hash) \<Rightarrow> hash option list \<Rightarrow> hash option list" where
  "pair_up M (a # b # xs) = combine M a b # pair_up M xs"
| "pair_up M [a] = []"
| "pair_up M [] = []"

lemma collapse_round:
  "even (length xs) \<Longrightarrow> collapse M (xs @ ys) = collapse M (ys @ pair_up M xs)"
  by (induction M xs arbitrary: ys rule: pair_up.induct) auto

lemma pair_up_None: "pair_up M (replicate k None) = replicate (k div 2) None"
proof (induction k rule: induct_nat_012)
  case (ge2 k)
  then show ?case by (simp add: combine_def)
qed simp_all

lemma pair_up_level:
  "even (length hs + k) \<Longrightarrow>
   pair_up M (map Some hs @ replicate k None) = map Some (level_up M hs) @ replicate (k div 2) None"
proof (induction M hs rule: level_up.induct)
  case (2 M a)
  then obtain k' where k: "k = Suc k'" "even k'" by (cases k) auto
  then have "k div 2 = k' div 2" by presburger
  then show ?case by (simp add: k(1) combine_def pair_up_None)
qed (simp_all add: combine_def pair_up_None)

lemma next_power_of_two_bound: "n \<le> next_power_of_two n" and next_power_of_two_pos: "0 < next_power_of_two n"
  by (induction n rule: next_power_of_two.induct) (subst next_power_of_two.simps; simp; linarith?)+

text \<open>It is the smallest power of two that is not below its argument.\<close>

lemma next_power_of_two_least: "\<exists>k. next_power_of_two n = 2 ^ k \<and> (k = 0 \<or> 2 ^ (k - 1) < n)"
proof (induction n rule: next_power_of_two.induct)
  case (1 n)
  show ?case
  proof (cases "n \<le> 1")
    case False
    then obtain k where k: "next_power_of_two ((n + 1) div 2) = 2 ^ k" "k = 0 \<or> 2 ^ (k - 1) < (n + 1) div 2"
      using 1 by blast
    have "2 ^ k < n"
    proof (cases k)
      case (Suc l)
      then have "2 ^ l < (n + 1) div 2" using k(2) by simp
      then show ?thesis using Suc by simp
    qed (use False in simp)
    then show ?thesis
      using k(1) False by (intro exI [of _ "Suc k"]) (simp add: next_power_of_two.simps [of n])
  qed (simp add: next_power_of_two.simps [of n] exI [of _ 0])
qed

lemma collapse_tree:
  "hs \<noteq> [] \<Longrightarrow> collapse M (map Some hs @ replicate (next_power_of_two (length hs) - length hs) None)
     = Some (merkle_tree M hs)"
proof (induction M hs rule: merkle_tree.induct)
  case (1 M hs)
  consider a where "hs = [a]" | a b xs where "hs = a # b # xs" using 1(2) by (metis neq_Nil_conv)
  then show ?case
  proof cases
    case 1
    then show ?thesis by (simp add: next_power_of_two.simps [of "Suc 0"])
  next
    case 2
    let ?n = "length hs" and ?Q = "next_power_of_two (length (level_up M hs))"
    let ?pad = "next_power_of_two ?n - ?n"
    have P: "next_power_of_two ?n = 2 * ?Q"
      using 2 by (subst next_power_of_two.simps) simp
    have le: "?n \<le> 2 * ?Q" using next_power_of_two_bound [of ?n] P by simp
    then have ev: "even (?n + ?pad)" and half: "?pad div 2 = ?Q - length (level_up M hs)"
      unfolding P by simp_all
    have "collapse M (map Some hs @ replicate ?pad None)
        = collapse M (pair_up M (map Some hs @ replicate ?pad None))"
      using collapse_round [of "map Some hs @ replicate ?pad None" M "[]"] ev by simp
    also have "\<dots> = collapse M (map Some (level_up M hs) @ replicate (?Q - length (level_up M hs)) None)"
      unfolding pair_up_level [OF ev] half ..
    also have "\<dots> = Some (merkle_tree M (level_up M hs))"
      by (rule "1.IH") (use 2 in auto)
    finally show ?thesis using 2 by simp
  qed
qed

lemma calc_merkle_root_tree: "calc_merkle_root M hashes = Some (merkle_tree M hashes)"
proof (cases "hashes = []")
  case False
  let ?P = "next_power_of_two (length hashes)"
  let ?m = "map Some hashes @ replicate (2 * ?P - 1 - length hashes) None"
  have P: "0 < ?P" "length hashes \<le> ?P" by (rule next_power_of_two_pos, rule next_power_of_two_bound)
  have "(2 * ?P - 1 - 1 + 1) div 2 = ?P - 1" using P by linarith
  then have steps: "step_by_2 (2 * ?P - 1 - 1) = map (\<lambda>k. 2 * k) [0..<?P - 1]"
    unfolding step_by_2_def by (rule arg_cong)
  have "length ?m = 2 * ?P - 1" using P by simp
  from merkle_loop_collapse [OF this P(1), of 0 M] obtain m' where
    loop: "merkle_loop M (map (\<lambda>k. 2 * k) [0..<?P - 1]) ?P ?m = Some m'"
    and last: "last m' = collapse M (take ?P ?m)" by auto
  have "take ?P ?m = map Some hashes @ replicate (?P - length hashes) None"
    using P by (simp add: min_def)
  then have "last m' = Some (merkle_tree M hashes)" using last collapse_tree [OF False] by simp
  then show ?thesis using False loop steps by (simp add: calc_merkle_root_def Let_def)
qed (simp add: calc_merkle_root_def)

section \<open>What ids and roots commit to\<close>

text \<open>The pairs that one level hashes, and those of the whole tree.\<close>

fun level_messages :: "hash list \<Rightarrow> u8 list set" where
  "level_messages (a # b # xs) = insert (hash_bytes a @ hash_bytes b) (level_messages xs)"
| "level_messages [a] = {hash_bytes a @ hash_bytes ZERO_HASH}"
| "level_messages [] = {}"

function branch_messages :: "(u8 list \<Rightarrow> hash) \<Rightarrow> hash list \<Rightarrow> u8 list set" where
  "branch_messages M xs =
     (if length xs \<le> 1 then {} else level_messages xs \<union> branch_messages M (level_up M xs))"
  by auto
termination by (relation "measure (\<lambda>(M, xs). length xs)") auto

declare branch_messages.simps [simp del]

lemma level_up_inject:
  assumes "inj_on M (level_messages xs \<union> level_messages ys)" and "length xs = length ys"
    and "level_up M xs = level_up M ys"
  shows "xs = ys"
  using assms
proof (induction M xs arbitrary: ys rule: level_up.induct)
  case (1 M a b xs)
  then obtain c d ys' where ys: "ys = c # d # ys'"
    by (metis Suc_length_conv length_Cons)
  have sub: "level_messages xs \<union> level_messages ys' \<subseteq> level_messages (a # b # xs) \<union> level_messages ys"
    using ys by auto
  have "hash_bytes a @ hash_bytes b = hash_bytes c @ hash_bytes d"
    using 1(4) by (intro inj_onD [OF 1(2)]) (auto simp: ys merkle_hash_def)
  moreover have "xs = ys'" using 1(3,4) ys by (intro "1.IH" inj_on_subset [OF 1(2) sub]) simp_all
  ultimately show ?case using ys by simp
next
  case (2 M a)
  then obtain b where ys: "ys = [b]" by (metis Suc_length_conv length_0_conv list.size(3,4))
  have "hash_bytes a @ hash_bytes ZERO_HASH = hash_bytes b @ hash_bytes ZERO_HASH"
    using 2(3) by (intro inj_onD [OF 2(1)]) (auto simp: ys merkle_hash_def)
  then show ?case using ys by simp
qed simp

lemma merkle_tree_inject:
  assumes "inj_on M (branch_messages M xs \<union> branch_messages M ys)" and "length xs = length ys"
    and "merkle_tree M xs = merkle_tree M ys"
  shows "xs = ys"
  using assms
proof (induction M xs arbitrary: ys rule: merkle_tree.induct)
  case (1 M xs)
  show ?case
  proof (cases "length xs \<le> 1")
    case True
    then show ?thesis using 1(3,4) by (cases xs; cases ys) auto
  next
    case False
    then obtain a b zs c d ws where xs: "xs = a # b # zs" and ys: "ys = c # d # ws"
      using 1(3) by (cases xs; cases ys; cases "tl xs"; cases "tl ys") auto
    let ?A = "branch_messages M xs \<union> branch_messages M ys"
    have long: "\<not> length ys \<le> 1" using False 1(3) by simp
    have A: "?A = (level_messages xs \<union> branch_messages M (level_up M xs))
        \<union> (level_messages ys \<union> branch_messages M (level_up M ys))"
      unfolding branch_messages.simps [of M xs] branch_messages.simps [of M ys] if_not_P [OF False] if_not_P [OF long] ..
    have sub: "branch_messages M (level_up M xs) \<union> branch_messages M (level_up M ys) \<subseteq> ?A"
      and sub': "level_messages xs \<union> level_messages ys \<subseteq> ?A" unfolding A by blast+
    have "level_up M xs = level_up M ys"
      by (rule "1.IH" [OF xs refl inj_on_subset [OF 1(2) sub]]) (use 1(3,4) xs ys in simp_all)
    then show ?thesis by (rule level_up_inject [OF inj_on_subset [OF 1(2) sub'] 1(3)])
  qed
qed

lemma tx_hash_ignores_id: "tx_hash H (tx\<lparr>tx_id := i\<rparr>) = tx_hash H tx"
  by (simp add: tx_hash_def write_transaction_def)

text \<open>
  C29: What a transaction id commits to.  Take two transactions that are both coinbase or both not,
  and a hash function that does not collide on their two encodings.  Coinbase transactions have the
  same id exactly when they agree on every field but the cached id, mass commitment included.  Other
  transactions have the same id exactly when they agree on version, outpoints and sequences of the
  inputs, outputs, lock time, subnetwork, gas and payload, whatever their signature scripts,
  signature operation counts and mass commitments are.
\<close>

theorem transaction_id_commits:
  assumes "tx_fits a" "tx_fits b" and "is_coinbase a = is_coinbase b"
    and "inj_on I {id_encoding a, id_encoding b}"
  shows "calc_id I a = calc_id I b \<longleftrightarrow>
    (if is_coinbase a then a\<lparr>tx_id := 0\<rparr> = b\<lparr>tx_id := 0\<rparr>
     else map signed_part (tx_inputs a) = map signed_part (tx_inputs b) \<and> covered a = covered b)"
proof -
  have "calc_id I a = calc_id I b \<longleftrightarrow> id_encoding a = id_encoding b"
    using inj_onD [OF assms(4)] by (auto simp: calc_id_def)
  also have "\<dots> \<longleftrightarrow> (if is_coinbase a then a\<lparr>tx_id := 0\<rparr> = b\<lparr>tx_id := 0\<rparr>
     else map signed_part (tx_inputs a) = map signed_part (tx_inputs b) \<and> covered a = covered b)"
  proof (cases "is_coinbase a")
    case True
    then have "id_encoding a = id_encoding b \<longleftrightarrow> write_transaction a FULL = write_transaction b FULL"
      using assms(3) by (simp add: id_encoding_def)
    then show ?thesis
      using True full_encoding_binds [OF assms(1,2)] write_transaction_ignores_id by metis
  next
    case False
    then show ?thesis
      using id_encoding_binds [OF assms(1,2)] id_encoding_ignores [of a b] assms(3) by auto
  qed
  finally show ?thesis .
qed

text \<open>A transaction with one input and one output, and a hash that keeps the version of a transaction.\<close>

definition sample_tx :: "u16 \<Rightarrow> u8 list \<Rightarrow> u64 \<Rightarrow> Transaction" where
  "sample_tx version script mass = set_mass mass (new_non_finalized version
     [\<lparr>previous_outpoint = TransactionOutpoint_new 7 0, signature_script = script,
       input_sequence = 0, sig_op_count = 1\<rparr>]
     [TransactionOutput_new 5 (ScriptPublicKey_from_vec 0 [0x51])] 0 SUBNETWORK_ID_NATIVE 0 [])"

definition sample_version_hash :: "u8 list \<Rightarrow> hash" where
  "sample_version_hash m = from_le (take 2 m)"

definition sample_branch_hash :: "u8 list \<Rightarrow> hash" where
  "sample_branch_hash m = hash_of_bytes (take 32 m)"

lemmas sample_tx_defs = sample_tx_def set_mass_def new_non_finalized_def TransactionOutpoint_new_def
  TransactionOutput_new_def ScriptPublicKey_from_vec_def

lemma sample_tx_fits: "length script < 100 \<Longrightarrow> tx_fits (sample_tx version script mass)"
  by (simp add: tx_fits_def sample_tx_defs short_def SUBNETWORK_ID_NATIVE_def SubnetworkId_from_byte_def
      SUBNETWORK_ID_SIZE_def)

lemma sample_tx_not_coinbase: "\<not> is_coinbase (sample_tx version script mass)"
  by (simp add: is_coinbase_def sample_tx_defs subnetwork_ids)

lemma sample_version_hash_write:
  "sample_version_hash (write_transaction (sample_tx version script mass) fl) = from_le (to_le 2 version)"
  by (simp add: sample_version_hash_def write_transaction_def sample_tx_defs)

lemma sample_coinbase_tx:
  "is_coinbase ((sample_tx v s m)\<lparr>subnetwork_id := SUBNETWORK_ID_COINBASE\<rparr>)"
  "tx_fits ((sample_tx v [] m)\<lparr>subnetwork_id := SUBNETWORK_ID_COINBASE\<rparr>)"
  by (simp_all add: is_coinbase_def tx_fits_def sample_tx_defs short_def subnetwork_ids
      SubnetworkId_from_byte_def SUBNETWORK_ID_SIZE_def)

theorem transaction_id_commits_witness:
  "calc_id sample_version_hash (sample_tx 1 [] 0) = calc_id sample_version_hash (sample_tx 1 [1, 2] 9)
   \<and> calc_id sample_version_hash (sample_tx 1 [] 0) \<noteq> calc_id sample_version_hash (sample_tx 2 [] 0)
   \<and> calc_id sample_version_hash ((sample_tx 1 [] 0)\<lparr>subnetwork_id := SUBNETWORK_ID_COINBASE\<rparr>)
     \<noteq> calc_id sample_version_hash ((sample_tx 2 [] 0)\<lparr>subnetwork_id := SUBNETWORK_ID_COINBASE\<rparr>)"
proof -
  let ?cb = "\<lambda>v. (sample_tx v [] 0)\<lparr>subnetwork_id := SUBNETWORK_ID_COINBASE\<rparr>"
  have enc: "sample_version_hash (id_encoding (sample_tx v s m)) = from_le (to_le 2 v)" for v s m
    by (simp add: id_encoding_def sample_version_hash_write)
  have enc_cb: "sample_version_hash (id_encoding (?cb v)) = from_le (to_le 2 v)" for v
    by (simp add: id_encoding_def sample_version_hash_def write_transaction_def sample_tx_defs)
  have same: "map signed_part (tx_inputs (sample_tx 1 [] 0)) = map signed_part (tx_inputs (sample_tx 1 [1, 2] 9))
      \<and> covered (sample_tx 1 [] 0) = covered (sample_tx 1 [1, 2] 9)"
    by (simp add: signed_part_def covered_def sample_tx_defs)
  have "id_encoding (sample_tx 1 [] 0) = id_encoding (sample_tx 1 [1, 2] 9)"
    using id_encoding_ignores [OF sample_tx_not_coinbase] same by blast
  then have inj: "inj_on sample_version_hash {id_encoding (sample_tx 1 [] 0), id_encoding (sample_tx 1 [1, 2] 9)}"
    by simp
  have differ: "from_le (to_le 2 (1 :: u16)) \<noteq> (from_le (to_le 2 (2 :: u16)) :: hash)"
    by code_simp
  have inj': "inj_on sample_version_hash {id_encoding (sample_tx 1 [] 0), id_encoding (sample_tx 2 [] 0)}"
    "inj_on sample_version_hash {id_encoding (?cb 1), id_encoding (?cb 2)}"
    using differ by (auto simp: inj_on_def enc enc_cb)
  have covers: "covered (sample_tx 1 [] 0) \<noteq> covered (sample_tx 2 [] 0)" "(?cb 1)\<lparr>tx_id := 0\<rparr> \<noteq> (?cb 2)\<lparr>tx_id := 0\<rparr>"
    by (simp_all add: covered_def sample_tx_defs)
  have kind: "is_coinbase (sample_tx v s m) = is_coinbase (sample_tx v' s' m')" for v s m v' s' m'
    by (simp add: sample_tx_not_coinbase)
  have kind_cb: "is_coinbase (?cb 1) = is_coinbase (?cb 2)" by (simp add: sample_coinbase_tx)
  show ?thesis
    using transaction_id_commits [OF sample_tx_fits sample_tx_fits kind inj] same
      transaction_id_commits [OF sample_tx_fits sample_tx_fits kind inj'(1)] covers
      transaction_id_commits [OF sample_coinbase_tx(2) sample_coinbase_tx(2) kind_cb inj'(2)]
    by (simp add: sample_tx_not_coinbase sample_coinbase_tx(1))
qed

text \<open>
  C30: The merkle root of a block commits to its transactions.  The computation never panics, and two
  blocks with the same number of transactions have the same root exactly when the transactions agree,
  in order, on every field but the cached id - signature scripts and mass commitments included -
  unless the transaction hash collides on their encodings or the branch hash on pairs of the two
  trees.
\<close>

theorem merkle_root_commits:
  assumes "list_all tx_fits txs" "list_all tx_fits txs'" and "length txs = length txs'"
    and "inj_on H ((\<lambda>tx. write_transaction tx FULL) ` (set txs \<union> set txs'))"
    and "inj_on M (branch_messages M (map (tx_hash H) txs) \<union> branch_messages M (map (tx_hash H) txs'))"
  shows "calc_hash_merkle_root M H txs \<noteq> None \<and>
    (calc_hash_merkle_root M H txs = calc_hash_merkle_root M H txs'
      \<longleftrightarrow> map (\<lambda>tx. tx\<lparr>tx_id := 0\<rparr>) txs = map (\<lambda>tx. tx\<lparr>tx_id := 0\<rparr>) txs')"
proof -
  have root: "calc_hash_merkle_root M H ts = Some (merkle_tree M (map (tx_hash H) ts))" for ts
    by (simp add: calc_hash_merkle_root_def calc_merkle_root_tree)
  have same: "(txs ! i)\<lparr>tx_id := 0\<rparr> = (txs' ! i)\<lparr>tx_id := 0\<rparr>"
    if "map (tx_hash H) txs = map (tx_hash H) txs'" "i < length txs" for i
  proof -
    have mem: "txs ! i \<in> set txs" "txs' ! i \<in> set txs'" using that(2) assms(3) by simp_all
    have "tx_hash H (txs ! i) = tx_hash H (txs' ! i)" using that assms(3) by (metis nth_map)
    then have "write_transaction (txs ! i) FULL = write_transaction (txs' ! i) FULL"
      using mem by (intro inj_onD [OF assms(4)]) (auto simp: tx_hash_def)
    then show ?thesis using assms(1,2) mem by (intro full_encoding_binds) (auto simp: list_all_iff)
  qed
  have hashes: "map (tx_hash H) (map (\<lambda>tx. tx\<lparr>tx_id := 0\<rparr>) ts) = map (tx_hash H) ts" for ts
    by (simp add: tx_hash_ignores_id)
  have "map (tx_hash H) txs = map (tx_hash H) txs'
      \<longleftrightarrow> map (\<lambda>tx. tx\<lparr>tx_id := 0\<rparr>) txs = map (\<lambda>tx. tx\<lparr>tx_id := 0\<rparr>) txs'"
  proof
    assume "map (tx_hash H) txs = map (tx_hash H) txs'"
    then show "map (\<lambda>tx. tx\<lparr>tx_id := 0\<rparr>) txs = map (\<lambda>tx. tx\<lparr>tx_id := 0\<rparr>) txs'"
      using same assms(3) by (intro nth_equalityI) simp_all
  qed (metis hashes)
  then show ?thesis
    using merkle_tree_inject [OF assms(5)] assms(3) unfolding root by auto
qed

theorem merkle_root_commits_witness:
  "calc_hash_merkle_root sample_branch_hash sample_version_hash [sample_tx 1 [] 0, sample_tx 2 [] 0]
   \<noteq> calc_hash_merkle_root sample_branch_hash sample_version_hash [sample_tx 2 [] 0, sample_tx 1 [] 0]"
proof -
  let ?a = "sample_tx 1 [] 0" and ?b = "sample_tx 2 [] 0" and ?H = sample_version_hash and ?M = sample_branch_hash
  have h: "tx_hash ?H ?a = 1" "tx_hash ?H ?b = 2"
    unfolding tx_hash_def sample_version_hash_write by code_simp+
  have fits: "list_all tx_fits [?a, ?b]" "list_all tx_fits [?b, ?a]" by (simp_all add: sample_tx_fits)
  have injH: "inj_on ?H ((\<lambda>tx. write_transaction tx FULL) ` (set [?a, ?b] \<union> set [?b, ?a]))"
    using h by (auto simp: inj_on_def tx_hash_def)
  have messages: "branch_messages ?M [x, y] = {hash_bytes x @ hash_bytes y}" for x y
    by (simp add: branch_messages.simps [of _ "[x, y]"] branch_messages.simps [of _ "[z]" for z])
  have injM: "inj_on ?M (branch_messages ?M (map (tx_hash ?H) [?a, ?b]) \<union> branch_messages ?M (map (tx_hash ?H) [?b, ?a]))"
    by (auto simp: h messages inj_on_def sample_branch_hash_def)
  have len: "length [?a, ?b] = length [?b, ?a]" by simp
  have "\<not> map (\<lambda>tx. tx\<lparr>tx_id := 0\<rparr>) [?a, ?b] = map (\<lambda>tx. tx\<lparr>tx_id := 0\<rparr>) [?b, ?a]"
    by (simp add: sample_tx_defs)
  then show ?thesis using merkle_root_commits [OF fits len injH injM] by blast
qed

end
