(* ===== verification/Headers.thy ===== *)
theory Headers
  imports Tx_Hashing
begin

text \<open>
  Block headers: \<^verbatim>\<open>src/consensus/core/src/header.rs\<close> with the compressed parents, the run-length
  helpers of \<^verbatim>\<open>src/utils/src/iter.rs\<close> and the header hash of
  \<^verbatim>\<open>src/consensus/core/src/hashing/header.rs\<close>.  The two activation scores that the code keeps in static
  atomics (\<^verbatim>\<open>src/consensus/core/src/pom.rs\<close>) are the arguments \<open>pom_level\<close> and \<open>service_commit\<close>, the
  \<^verbatim>\<open>BlockHash\<close> hasher is \<open>B\<close>, and \<^verbatim>\<open>dedup_with_count\<close> of the external \<^verbatim>\<open>itertools\<close> crate is the parameter
  \<open>dedup_counts\<close>.  An iterator that panics while it is consumed is a list computation that returns \<open>None\<close>.

  The lemmas show that the compressed form is a canonical representation of the list of levels, that
  runs received from a peer may nevertheless make the header hash panic, and that a block hash
  commits to every field of its header.
\<close>

section \<open>Compressed parents\<close>

type_synonym CompressedParents = "(u8 \<times> hash list) list"

datatype CompressedParentsError = LevelsExceeded | LevelsNotStrictlyIncreasing | NotFullyCompressed

definition expanded_len :: "CompressedParents \<Rightarrow> nat" where
  "expanded_len p = (if p = [] then 0 else unat (fst (last p)))"

definition parents_is_empty :: "CompressedParents \<Rightarrow> bool" where
  "parents_is_empty p = (p = [])"

text \<open>
  \<^verbatim>\<open>slice::partition_point\<close>: the binary search of the standard library, over a predicate that may
  panic.  The loop keeps a start and a size; the last test decides on which side of it the point is.
\<close>

function search_loop :: "('a \<Rightarrow> bool option) \<Rightarrow> 'a list \<Rightarrow> nat \<Rightarrow> nat \<Rightarrow> nat option" where
  "search_loop pred xs base sz =
     (if sz > 1
      then let half = sz div 2; mid = base + half
           in case pred (xs ! mid) of
                None \<Rightarrow> None
              | Some b \<Rightarrow> search_loop pred xs (if b then mid else base) (sz - half)
      else map_option (\<lambda>b. if b then base + 1 else base) (pred (xs ! base)))"
  by auto
termination by (relation "measure (\<lambda>(pred, xs, base, sz). sz)") auto

declare search_loop.simps [simp del]

definition partition_point :: "('a \<Rightarrow> bool option) \<Rightarrow> 'a list \<Rightarrow> nat option" where
  "partition_point pred xs = (if xs = [] then Some 0 else search_loop pred xs 0 (length xs))"

text \<open>The subtraction of the predicate is checked; indexing beyond the runs panics.\<close>

definition parents_get :: "CompressedParents \<Rightarrow> nat \<Rightarrow> hash list option option" where
  "parents_get p i =
     (if i \<ge> expanded_len p then Some None
      else if i = 0 then (if p = [] then None else Some (Some (snd (p ! 0))))
      else partition_point (\<lambda>(cum, _). if cum = 0 then None else Some (unat cum - 1 < i)) p \<bind> (\<lambda>k.
        if k < length p then Some (Some (snd (p ! k))) else None))"

fun expand_rle_from :: "nat \<Rightarrow> (nat \<times> 'a) list \<Rightarrow> 'a list option" where
  "expand_rle_from prev [] = Some []"
| "expand_rle_from prev ((cum, item) # rest) =
     (if prev < cum then map_option (\<lambda>xs. replicate (cum - prev) item @ xs) (expand_rle_from cum rest)
      else None)"

definition expand_rle :: "(nat \<times> 'a) list \<Rightarrow> 'a list option" where
  "expand_rle runs = expand_rle_from 0 runs"

definition expanded_iter :: "CompressedParents \<Rightarrow> hash list list option" where
  "expanded_iter p = expand_rle (map (\<lambda>(cum, v). (unat cum, v)) p)"

fun cumulate :: "nat \<Rightarrow> (nat \<times> 'a) list \<Rightarrow> (nat \<times> 'a) list" where
  "cumulate cumulative [] = []"
| "cumulate cumulative ((n, value) # rest) =
     (cumulative + n, value) # cumulate (cumulative + n) rest"

definition rle_cumulative :: "('a list \<Rightarrow> (nat \<times> 'a) list) \<Rightarrow> 'a list \<Rightarrow> (nat \<times> 'a) list" where
  "rle_cumulative dedup_counts xs = cumulate 0 (dedup_counts xs)"

definition parents_push :: "CompressedParents \<Rightarrow> hash list \<Rightarrow> CompressedParents option" where
  "parents_push p parents_at_level =
     (if p = [] then Some [(1, parents_at_level)]
      else case last p of (n, last_parents) \<Rightarrow>
        if last_parents = parents_at_level
        then map_option (\<lambda>c. butlast p @ [(c, last_parents)]) (checked_add n 1)
        else map_option (\<lambda>c. p @ [(c, parents_at_level)]) (checked_add n 1))"

definition parents_try_from_levels ::
    "(hash list list \<Rightarrow> (nat \<times> hash list) list) \<Rightarrow> hash list list
      \<Rightarrow> CompressedParentsError + CompressedParents" where
  "parents_try_from_levels dedup_counts parents =
     (if length parents > 255 then Inl LevelsExceeded
      else Inr (map (\<lambda>(n, level). (word_of_nat n, level)) (rle_cumulative dedup_counts parents)))"

fun check_runs :: "CompressedParents \<Rightarrow> CompressedParentsError + unit" where
  "check_runs ((last_cumulative_level, last_parents) # (cumulative_level, parents) # rest) =
     (if cumulative_level \<le> last_cumulative_level then Inl LevelsNotStrictlyIncreasing
      else if last_parents = parents then Inl NotFullyCompressed
      else check_runs ((cumulative_level, parents) # rest))"
| "check_runs [run] = Inr ()"
| "check_runs [] = Inr ()"

definition parents_try_from_runs :: "CompressedParents \<Rightarrow> CompressedParentsError + CompressedParents" where
  "parents_try_from_runs parents = res_bind (check_runs parents) (\<lambda>_. Inr parents)"

definition set_direct_parents ::
    "(hash list list \<Rightarrow> (nat \<times> hash list) list) \<Rightarrow> CompressedParents \<Rightarrow> hash list
      \<Rightarrow> CompressedParents option" where
  "set_direct_parents dedup_counts p direct_parents =
     (if p = [] then Some [(1, direct_parents)]
      else expanded_iter p \<bind> (\<lambda>parents.
        if parents = [] then None
        else case parents_try_from_levels dedup_counts (parents[0 := direct_parents]) of
               Inl _ \<Rightarrow> None | Inr q \<Rightarrow> Some q))"

section \<open>Headers\<close>

record Header =
  header_hash :: hash
  header_version :: u16
  parents_by_level :: CompressedParents
  hash_merkle_root :: hash
  accepted_id_merkle_root :: hash
  utxo_commitment :: hash
  timestamp :: u64
  header_bits :: u32
  header_nonce :: u64
  header_daa_score :: u64
  header_blue_work :: "192 word"
  header_blue_score :: u64
  pruning_point :: hash
  pom_final_state :: u64
  service_state_hash :: hash
  pom_tier :: u8

definition write_var_array :: "hash list \<Rightarrow> u8 list" where
  "write_var_array arr = write_len (length arr) @ concat (map hash_bytes arr)"

definition write_blue_work :: "192 word \<Rightarrow> u8 list" where
  "write_blue_work work = write_var_bytes (dropWhile (\<lambda>byte. byte = 0) (rev (to_le 24 work)))"

definition hash_input ::
    "Header \<Rightarrow> u64 \<Rightarrow> u64 \<Rightarrow> u64 option \<Rightarrow> hash option \<Rightarrow> u8 option \<Rightarrow> u8 list option" where
  "hash_input header nonce time final_state service_hash tier =
     map_option (\<lambda>levels.
       to_le 2 (header_version header) @ write_len (expanded_len (parents_by_level header))
       @ concat (map write_var_array levels)
       @ hash_bytes (hash_merkle_root header) @ hash_bytes (accepted_id_merkle_root header)
       @ hash_bytes (utxo_commitment header) @ to_le 8 time @ to_le 4 (header_bits header)
       @ to_le 8 nonce @ to_le 8 (header_daa_score header) @ to_le 8 (header_blue_score header)
       @ write_blue_work (header_blue_work header) @ hash_bytes (pruning_point header)
       @ (case final_state of Some s \<Rightarrow> to_le 8 s | None \<Rightarrow> [])
       @ (case service_hash of Some h \<Rightarrow> hash_bytes h | None \<Rightarrow> [])
       @ (case tier of Some t \<Rightarrow> [t] | None \<Rightarrow> []))
     (expanded_iter (parents_by_level header))"

definition hash_internal ::
    "(u8 list \<Rightarrow> hash) \<Rightarrow> Header \<Rightarrow> u64 \<Rightarrow> u64 \<Rightarrow> u64 option \<Rightarrow> hash option \<Rightarrow> u8 option \<Rightarrow> hash option" where
  "hash_internal B header nonce time final_state service_hash tier =
     map_option B (hash_input header nonce time final_state service_hash tier)"

definition hash_override_nonce_time :: "(u8 list \<Rightarrow> hash) \<Rightarrow> Header \<Rightarrow> u64 \<Rightarrow> u64 \<Rightarrow> hash option" where
  "hash_override_nonce_time B header nonce time = hash_internal B header nonce time None None None"

definition pom_level_active :: "u64 \<Rightarrow> u64 \<Rightarrow> bool" where
  "pom_level_active pom_level daa_score = (daa_score \<ge> pom_level)"

definition service_commit_active :: "u64 \<Rightarrow> u64 \<Rightarrow> bool" where
  "service_commit_active service_commit daa_score = (daa_score \<ge> service_commit)"

definition calc_header_hash :: "(u8 list \<Rightarrow> hash) \<Rightarrow> u64 \<Rightarrow> u64 \<Rightarrow> Header \<Rightarrow> hash option" where
  "calc_header_hash B pom_level service_commit header =
     (let final_state = (if pom_level_active pom_level (header_daa_score header)
                         then Some (pom_final_state header) else None);
          h6 = service_commit_active service_commit (header_daa_score header);
          service_hash = (if h6 then Some (service_state_hash header) else None);
          tier = (if h6 then Some (pom_tier header) else None)
      in hash_internal B header (header_nonce header) (timestamp header) final_state service_hash tier)"

definition header_finalize :: "(u8 list \<Rightarrow> hash) \<Rightarrow> u64 \<Rightarrow> u64 \<Rightarrow> Header \<Rightarrow> Header option" where
  "header_finalize B pom_level service_commit header =
     map_option (\<lambda>h. header\<lparr>header_hash := h\<rparr>) (calc_header_hash B pom_level service_commit header)"

definition new_finalized ::
    "(u8 list \<Rightarrow> hash) \<Rightarrow> u64 \<Rightarrow> u64 \<Rightarrow> u16 \<Rightarrow> CompressedParents \<Rightarrow> hash \<Rightarrow> hash \<Rightarrow> hash \<Rightarrow> u64 \<Rightarrow> u32 \<Rightarrow> u64 \<Rightarrow> u64
      \<Rightarrow> 192 word \<Rightarrow> u64 \<Rightarrow> hash \<Rightarrow> u64 \<Rightarrow> hash \<Rightarrow> u8 \<Rightarrow> Header option" where
  "new_finalized B pom_level service_commit version parents merkle accepted utxo time bits nonce daa
     work score pp final_state service_hash tier =
     header_finalize B pom_level service_commit
       \<lparr>header_hash = 0, header_version = version, parents_by_level = parents, hash_merkle_root = merkle,
        accepted_id_merkle_root = accepted, utxo_commitment = utxo, timestamp = time, header_bits = bits,
        header_nonce = nonce, header_daa_score = daa, header_blue_work = work, header_blue_score = score,
        pruning_point = pp, pom_final_state = final_state, service_state_hash = service_hash,
        pom_tier = tier\<rparr>"

definition direct_parents :: "Header \<Rightarrow> hash list option" where
  "direct_parents header = map_option (\<lambda>r. case r of Some ps \<Rightarrow> ps | None \<Rightarrow> [])
     (parents_get (parents_by_level header) 0)"

section \<open>Runs and levels\<close>

text \<open>Runs that continue after level \<open>prev\<close>: growing, none empty, neighbours different.\<close>

fun runs_after :: "nat \<Rightarrow> CompressedParents \<Rightarrow> bool" where
  "runs_after prev [] = True"
| "runs_after prev ((cum, v) # rest) =
     (prev < unat cum \<and> (rest = [] \<or> v \<noteq> snd (hd rest)) \<and> runs_after (unat cum) rest)"

definition wf_parents :: "CompressedParents \<Rightarrow> bool" where
  "wf_parents p = runs_after 0 p"

abbreviation levels_after :: "nat \<Rightarrow> CompressedParents \<Rightarrow> hash list list option" where
  "levels_after prev p \<equiv> expand_rle_from prev (map (\<lambda>(cum, v). (unat cum, v)) p)"

lemma check_runs_ok:
  "check_runs p = Inr () \<longleftrightarrow>
     p = [] \<or> ((tl p = [] \<or> snd (hd p) \<noteq> snd (hd (tl p))) \<and> runs_after (unat (fst (hd p))) (tl p))"
  by (induction p rule: check_runs.induct) (auto simp: word_le_nat_alt)

lemma wf_parents_iff: "wf_parents p \<longleftrightarrow> check_runs p = Inr () \<and> (p = [] \<or> fst (hd p) \<noteq> 0)"
  by (cases p) (auto simp: wf_parents_def check_runs_ok unat_gt_0)

lemma levels_after_ex:
  "runs_after prev p \<Longrightarrow> \<exists>ls. levels_after prev p = Some ls
     \<and> length ls = (if p = [] then 0 else unat (fst (last p)) - prev)
     \<and> (p = [] \<or> prev < unat (fst (last p)))"
proof (induction p arbitrary: prev)
  case (Cons run p)
  obtain c v where [simp]: "run = (c, v)" by force
  from Cons obtain ls where "levels_after (unat c) p = Some ls"
    "length ls = (if p = [] then 0 else unat (fst (last p)) - unat c)" "p = [] \<or> unat c < unat (fst (last p))"
    by auto
  then show ?case using Cons.prems by auto
qed simp

lemma levels_after_Cons:
  "levels_after prev ((c, v) # p) = Some ls \<Longrightarrow>
   \<exists>ls'. levels_after (unat c) p = Some ls' \<and> ls = replicate (unat c - prev) v @ ls' \<and> prev < unat c"
  by (auto split: if_splits)

lemma levels_after_hd: "levels_after prev ((c, v) # p) = Some ls \<Longrightarrow> ls \<noteq> [] \<and> hd ls = v"
  by (drule levels_after_Cons) (auto simp: hd_append)

lemma replicate_shift:
  assumes "replicate m v @ xs = replicate n v @ ys" "m < n"
  shows "xs \<noteq> [] \<and> hd xs = v"
proof -
  have "replicate n v = replicate m v @ replicate (n - m) v" using assms(2) by (simp flip: replicate_add)
  then have "xs = replicate (n - m) v @ ys" using assms(1) by simp
  then show ?thesis using assms(2) by (cases "n - m") auto
qed

lemma next_level_differs:
  assumes "runs_after prev ((c, v) # p)" "levels_after (unat c) p = Some ls"
  shows "\<not> (ls \<noteq> [] \<and> hd ls = v)"
proof (cases p)
  case (Cons run q)
  then show ?thesis using assms levels_after_hd by (cases run) auto
qed (use assms in auto)

lemma levels_after_inject:
  assumes "runs_after prev p" "runs_after prev q" "levels_after prev p = Some ls" "levels_after prev q = Some ls"
  shows "p = q"
  using assms
proof (induction p arbitrary: prev q ls)
  case Nil
  then show ?case using levels_after_hd by (cases q) auto
next
  case (Cons run p)
  obtain c v where run: "run = (c, v)" by force
  have "ls \<noteq> []" using Cons.prems(3) levels_after_hd unfolding run by blast
  then obtain d w q' where q: "q = (d, w) # q'" using Cons.prems(4) by (cases q) auto
  have vw: "v = w" using levels_after_hd Cons.prems(3,4) unfolding run q by metis
  obtain lp where lp: "levels_after (unat c) p = Some lp" "ls = replicate (unat c - prev) v @ lp" "prev < unat c"
    using levels_after_Cons Cons.prems(3) unfolding run by blast
  obtain lq where lq: "levels_after (unat d) q' = Some lq" "ls = replicate (unat d - prev) v @ lq" "prev < unat d"
    using levels_after_Cons Cons.prems(4) unfolding q vw by blast
  have "\<not> unat c - prev < unat d - prev"
    using replicate_shift [of "unat c - prev" v lp "unat d - prev" lq] lp lq
      next_level_differs [of prev c v p lp] Cons.prems(1) unfolding run by auto
  moreover have "\<not> unat d - prev < unat c - prev"
    using replicate_shift [of "unat d - prev" v lq "unat c - prev" lp] lp lq
      next_level_differs [of prev d v q' lq] Cons.prems(2) unfolding q vw by auto
  ultimately have "unat c = unat d" using lp(3) lq(3) by linarith
  then have cd: "c = d" by (simp add: word_unat_eq_iff)
  have "p = q'"
    using Cons.IH [of "unat c" q' lp] Cons.prems(1,2) lp lq unfolding run q cd by auto
  then show ?case using run q vw cd by simp
qed

lemma runs_sorted: "runs_after prev p \<Longrightarrow> j < length p \<Longrightarrow> prev < unat (fst (p ! j))"
proof (induction p arbitrary: prev j)
  case (Cons run p)
  obtain c v where [simp]: "run = (c, v)" by force
  show ?case
  proof (cases j)
    case (Suc k)
    then have "unat c < unat (fst (p ! k))" using Cons by auto
    then show ?thesis using Suc Cons.prems by simp
  qed (use Cons.prems in simp)
qed simp

lemma level_in_run:
  "runs_after prev p \<Longrightarrow> levels_after prev p = Some ls \<Longrightarrow> i < length ls \<Longrightarrow>
   \<exists>k < length p. (\<forall>j < length p. unat (fst (p ! j)) \<le> prev + i \<longleftrightarrow> j < k) \<and> ls ! i = snd (p ! k)"
proof (induction p arbitrary: prev ls i)
  case (Cons run p)
  obtain c v where run: "run = (c, v)" by force
  obtain lp where lp: "levels_after (unat c) p = Some lp" "ls = replicate (unat c - prev) v @ lp" "prev < unat c"
    using levels_after_Cons Cons.prems(2) unfolding run by blast
  have rest: "runs_after (unat c) p" using Cons.prems(1) run by simp
  show ?case
  proof (cases "i < unat c - prev")
    case True
    have "unat c \<le> unat (fst ((run # p) ! j))" if "j < length (run # p)" for j
      using that runs_sorted [OF rest, of "j - 1"] run by (cases j) auto
    then have "\<not> unat (fst ((run # p) ! j)) \<le> prev + i" if "j < length (run # p)" for j
      using that True by fastforce
    then show ?thesis using True lp(2) run by (intro exI [of _ 0]) (auto simp: nth_append)
  next
    case False
    let ?i = "i - (unat c - prev)"
    have "?i < length lp" and pos: "unat c + ?i = prev + i" using False Cons.prems(3) lp by auto
    from Cons.IH [OF rest lp(1) this(1)] obtain k where k: "k < length p"
      "\<forall>j < length p. unat (fst (p ! j)) \<le> prev + i \<longleftrightarrow> j < k" "lp ! ?i = snd (p ! k)"
      unfolding pos by blast
    have "unat (fst ((run # p) ! j)) \<le> prev + i \<longleftrightarrow> j < Suc k" if "j < length (run # p)" for j
      using that k(2) False run lp(3) by (cases j) auto
    then show ?thesis using k(1,3) False lp(2) by (intro exI [of _ "Suc k"]) (auto simp: nth_append)
  qed
qed simp

lemma search_loop_point:
  assumes "\<forall>j < length xs. pred (xs ! j) = Some (j < k)"
  shows "base + sz \<le> length xs \<Longrightarrow> 1 \<le> sz \<Longrightarrow> base \<le> k \<Longrightarrow> k \<le> base + sz \<Longrightarrow> search_loop pred xs base sz = Some k"
proof (induction sz arbitrary: base rule: less_induct)
  case (less sz)
  show ?case
  proof (cases "sz > 1")
    case True
    let ?half = "sz div 2"
    have half: "0 < ?half" "?half \<le> sz - ?half" "sz - ?half < sz" using True by auto
    have "pred (xs ! (base + ?half)) = Some (base + ?half < k)" using assms less.prems True by simp
    moreover have "search_loop pred xs (if base + ?half < k then base + ?half else base) (sz - ?half) = Some k"
      using less.prems half by (intro less.IH) auto
    ultimately show ?thesis using True by (subst search_loop.simps) (simp add: Let_def)
  next
    case False
    then have "sz = 1" "pred (xs ! base) = Some (base < k)" using assms less.prems by auto
    then show ?thesis using less.prems by (subst search_loop.simps) auto
  qed
qed

lemma parents_get_level:
  assumes "wf_parents p" "expanded_iter p = Some ls"
  shows "parents_get p i = Some (if i < length ls then Some (ls ! i) else None)"
proof -
  have wf: "runs_after 0 p" and ls: "levels_after 0 p = Some ls"
    using assms by (simp_all add: wf_parents_def expanded_iter_def expand_rle_def)
  have len: "expanded_len p = length ls" using levels_after_ex [OF wf] ls by (auto simp: expanded_len_def)
  show ?thesis
  proof (cases "i < length ls")
    case True
    from level_in_run [OF wf ls True] obtain k where k: "k < length p"
      "\<forall>j < length p. unat (fst (p ! j)) \<le> i \<longleftrightarrow> j < k" "ls ! i = snd (p ! k)" by auto
    have "(case p ! j of (cum, _) \<Rightarrow> if cum = 0 then None else Some (unat cum - 1 < i)) = Some (j < k)"
      if "j < length p" for j
    proof -
      have "0 < unat (fst (p ! j))" using runs_sorted [OF wf that] .
      moreover have "unat (fst (p ! j)) - 1 < i \<longleftrightarrow> unat (fst (p ! j)) \<le> i" using calculation by linarith
      ultimately show ?thesis using k(2) that by (cases "p ! j") (auto simp: unat_gt_0)
    qed
    then have "partition_point (\<lambda>(cum, _). if cum = 0 then None else Some (unat cum - 1 < i)) p = Some k"
      unfolding partition_point_def using k(1) by (auto intro!: search_loop_point)
    moreover have "ls ! 0 = snd (p ! 0) \<and> p \<noteq> []" if "i = 0"
    proof -
      have ne: "0 < length p" using k(1) by linarith
      then have "\<not> unat (fst (p ! 0)) \<le> i" using runs_sorted [OF wf, of 0] that by linarith
      then have "k = 0" using k(2) ne by blast
      then show ?thesis using k ne that by auto
    qed
    ultimately show ?thesis using True k(1,3) len by (auto simp: parents_get_def)
  qed (simp add: parents_get_def len)
qed

definition end_level :: "nat \<Rightarrow> CompressedParents \<Rightarrow> nat" where
  "end_level prev p = (if p = [] then prev else unat (fst (last p)))"

lemma runs_after_snoc:
  "runs_after prev (p @ [(c, v)]) \<longleftrightarrow>
     runs_after prev p \<and> end_level prev p < unat c \<and> (p = [] \<or> snd (last p) \<noteq> v)"
proof (induction p arbitrary: prev)
  case (Cons run p)
  obtain d w where [simp]: "run = (d, w)" by force
  show ?case by (auto simp: Cons end_level_def hd_append)
qed (auto simp: end_level_def)

lemma levels_after_snoc:
  "levels_after prev (p @ [(c, v)]) = levels_after prev p \<bind> (\<lambda>ls.
     if end_level prev p < unat c then Some (ls @ replicate (unat c - end_level prev p) v) else None)"
proof (induction p arbitrary: prev)
  case (Cons run p)
  obtain d w where [simp]: "run = (d, w)" by force
  have "end_level prev (run # p) = end_level (unat d) p" by (simp add: end_level_def)
  then show ?case using Cons by (cases "levels_after (unat d) p") auto
qed (simp add: end_level_def)

lemma wf_levels:
  assumes "wf_parents p"
  obtains ls where "expanded_iter p = Some ls" "expanded_len p = length ls" "end_level 0 p = length ls"
  using levels_after_ex [of 0 p] assms
  by (auto simp: wf_parents_def expanded_iter_def expand_rle_def expanded_len_def end_level_def)

lemma parents_push_level:
  assumes "wf_parents p" "expanded_iter p = Some ls"
  shows "if length ls < 255
    then \<exists>q. parents_push p parents = Some q \<and> wf_parents q \<and> expanded_iter q = Some (ls @ [parents])
    else parents_push p parents = None"
proof (cases p rule: rev_cases)
  case Nil
  then show ?thesis
    using assms by (auto simp: parents_push_def wf_parents_def expanded_iter_def expand_rle_def)
next
  case (snoc q run)
  obtain c v where run: "run = (c, v)" by force
  have wf: "runs_after 0 q" "end_level 0 q < unat c" "q = [] \<or> snd (last q) \<noteq> v"
    using assms(1) by (simp_all add: wf_parents_def snoc run runs_after_snoc)
  have ls: "levels_after 0 (q @ [(c, v)]) = Some ls"
    using assms(2) by (simp only: expanded_iter_def expand_rle_def snoc run)
  obtain lq where lq: "levels_after 0 q = Some lq" "ls = lq @ replicate (unat c - end_level 0 q) v"
    using ls wf(2) unfolding levels_after_snoc by (cases "levels_after 0 q") auto
  have len: "length ls = unat c"
    using wf_levels [OF assms(1)] assms(2) by (metis end_level_def fst_conv last_snoc option.inject run snoc snoc_eq_iff_butlast)
  show ?thesis
  proof (cases "checked_add c 1")
    case None
    then show ?thesis using len by (simp add: parents_push_def snoc run checked_add_eq_None)
  next
    case (Some d)
    then have d: "unat d = unat c + 1" by (simp add: checked_add_eq_Some)
    then have small: "length ls < 255" using len unat_lt [of d] by simp
    show ?thesis
    proof (cases "v = parents")
      case True
      have push: "parents_push p parents = Some (q @ [(d, v)])" using True Some by (simp add: parents_push_def snoc run)
      have "Suc (unat c) - end_level 0 q = Suc (unat c - end_level 0 q)" using wf(2) by simp
      then have "levels_after 0 (q @ [(d, v)]) = Some (ls @ [v])"
        unfolding levels_after_snoc using lq wf(2) d by (simp add: replicate_append_same)
      then show ?thesis
        using push small wf d True
        by (auto simp: wf_parents_def runs_after_snoc expanded_iter_def expand_rle_def)
    next
      case False
      have push: "parents_push p parents = Some (p @ [(d, parents)])" using False Some by (simp add: parents_push_def snoc run)
      have end': "end_level 0 p = unat c" by (simp add: end_level_def snoc run)
      have "levels_after 0 (p @ [(d, parents)]) = Some (ls @ [parents])"
        unfolding levels_after_snoc end' using ls d by (simp add: snoc run)
      moreover have "runs_after 0 (p @ [(d, parents)])"
        unfolding runs_after_snoc end' using assms(1) d False by (simp add: wf_parents_def snoc run)
      ultimately show ?thesis
        using push small by (auto simp: wf_parents_def expanded_iter_def expand_rle_def)
    qed
  qed
qed

text \<open>
  What the documentation of \<^verbatim>\<open>dedup_with_count\<close> promises: non-empty runs of equal elements, neighbours
  different, that spell the list.
\<close>

definition dedup_counts_ok :: "('a list \<Rightarrow> (nat \<times> 'a) list) \<Rightarrow> bool" where
  "dedup_counts_ok f = (\<forall>xs. concat (map (\<lambda>(n, x). replicate n x) (f xs)) = xs
     \<and> (\<forall>r \<in> set (f xs). 0 < fst r) \<and> (\<forall>i. Suc i < length (f xs) \<longrightarrow> snd (f xs ! i) \<noteq> snd (f xs ! Suc i)))"

lemma cumulate_levels:
  assumes "\<forall>r \<in> set runs. 0 < fst r" "\<forall>i. Suc i < length runs \<longrightarrow> snd (runs ! i) \<noteq> snd (runs ! Suc i)"
    and "start + length (concat (map (\<lambda>(n, x). replicate n x) runs)) \<le> 255"
  shows "let p = map (\<lambda>(n, level). (word_of_nat n :: u8, level)) (cumulate start runs)
    in runs_after start p \<and> levels_after start p = Some (concat (map (\<lambda>(n, x). replicate n x) runs))"
  using assms
proof (induction runs arbitrary: start)
  case (Cons run runs)
  obtain n v where run: "run = (n, v)" by force
  let ?p = "map (\<lambda>(n, level). (word_of_nat n :: u8, level)) (cumulate (start + n) runs)"
  have "\<forall>i. Suc i < length runs \<longrightarrow> snd (runs ! i) \<noteq> snd (runs ! Suc i)" using Cons.prems(2) by fastforce
  then have IH: "runs_after (start + n) ?p" "levels_after (start + n) ?p = Some (concat (map (\<lambda>(n, x). replicate n x) runs))"
    using Cons.IH [of "start + n"] Cons.prems(1,3) run by (auto simp: Let_def)
  have word: "unat (word_of_nat (start + n) :: u8) = start + n"
    using Cons.prems(3) run by (simp add: unat_of_nat del: of_nat_add)
  have "?p = [] \<or> v \<noteq> snd (hd ?p)"
  proof (cases runs)
    case (Cons r rs)
    then have "v \<noteq> snd r" using Cons.prems(2) run by (metis Suc_less_eq length_Cons nth_Cons_0 nth_Cons_Suc snd_conv zero_less_Suc)
    then show ?thesis using Cons by (cases r) simp
  qed simp
  then show ?case using IH word Cons.prems(1) run by (simp add: Let_def del: of_nat_add)
qed simp

lemma try_from_levels_roundtrip:
  assumes "dedup_counts_ok f"
  shows "parents_try_from_levels f ls = (if length ls > 255 then Inl LevelsExceeded
      else Inr (map (\<lambda>(n, level). (word_of_nat n, level)) (rle_cumulative f ls)))"
    and "parents_try_from_levels f ls = Inr p \<Longrightarrow> wf_parents p \<and> expanded_iter p = Some ls"
proof -
  assume p: "parents_try_from_levels f ls = Inr p"
  have spec: "concat (map (\<lambda>(n, x). replicate n x) (f ls)) = ls" "\<forall>r \<in> set (f ls). 0 < fst r"
    "\<forall>i. Suc i < length (f ls) \<longrightarrow> snd (f ls ! i) \<noteq> snd (f ls ! Suc i)"
    using assms unfolding dedup_counts_ok_def by blast+
  have "length ls \<le> 255" and p': "p = map (\<lambda>(n, level). (word_of_nat n, level)) (cumulate 0 (f ls))"
    using p by (auto simp: parents_try_from_levels_def rle_cumulative_def split: if_splits)
  then show "wf_parents p \<and> expanded_iter p = Some ls"
    using cumulate_levels [OF spec(2,3), of 0] spec(1)
    by (simp add: Let_def wf_parents_def expanded_iter_def expand_rle_def)
qed (simp add: parents_try_from_levels_def)

text \<open>
  C33: Compressed parents are a canonical form of the list of levels.  Runs that the conversion from
  the wire accepts, and whose first run is not empty, expand without a panic; the expanded length
  is the number of levels, \<open>get\<close> returns the parents of a level and none beyond the last, \<open>push\<close>
  appends a level and panics exactly when there are 255, and no other accepted runs expand to the
  same levels.
\<close>

theorem compressed_parents_canonical:
  assumes "parents_try_from_runs runs = Inr p" "p = [] \<or> fst (hd p) \<noteq> 0"
  shows "\<exists>ls. expanded_iter p = Some ls \<and> expanded_len p = length ls
    \<and> parents_get p i = Some (if i < length ls then Some (ls ! i) else None)
    \<and> (if length ls < 255
       then \<exists>q. parents_push p parents = Some q \<and> expanded_iter q = Some (ls @ [parents])
       else parents_push p parents = None)
    \<and> (parents_try_from_runs runs' = Inr p' \<and> expanded_iter p' = Some ls \<longrightarrow> p' = p)"
proof -
  have accepted: "check_runs q = Inr ()" "r = q" if "parents_try_from_runs r = Inr q" for r q
    using that by (auto simp: parents_try_from_runs_def res_bind_eq_Inr)
  have wf: "wf_parents p" using accepted [OF assms(1)] assms(2) by (simp add: wf_parents_iff)
  obtain ls where ls: "expanded_iter p = Some ls" "expanded_len p = length ls" by (rule wf_levels [OF wf])
  have "p' = p" if "parents_try_from_runs runs' = Inr p'" "expanded_iter p' = Some ls"
  proof -
    have "fst (hd p') \<noteq> 0" if "p' \<noteq> []"
      using \<open>expanded_iter p' = Some ls\<close> that
      by (cases p') (auto simp: expanded_iter_def expand_rle_def split: if_splits)
    then have "wf_parents p'" using accepted [OF that(1)] by (auto simp: wf_parents_iff)
    then show ?thesis
      using levels_after_inject [of 0 p' p ls] wf ls(1) that(2)
      by (simp add: wf_parents_def expanded_iter_def expand_rle_def)
  qed
  then show ?thesis
    using ls parents_get_level [OF wf ls(1)] parents_push_level [OF wf ls(1), of parents]
    by (intro exI [of _ ls]) (auto split: if_splits)
qed

theorem compressed_parents_canonical_witness:
  "expanded_iter [(2, [7]), (3, [8])] = Some [[7], [7], [8]]
   \<and> parents_get [(2, [7]), (3, [8])] 1 = Some (Some [7])
   \<and> (\<exists>q. parents_push [(2, [7]), (3, [8])] [8] = Some q \<and> expanded_iter q = Some [[7], [7], [8], [8]])"
proof -
  let ?p = "[(2, [7]), (3, [8])] :: CompressedParents"
  have accepted: "parents_try_from_runs ?p = Inr ?p" "?p = [] \<or> fst (hd ?p) \<noteq> 0"
    by (simp_all add: parents_try_from_runs_def)
  have levels: "expanded_iter ?p = Some [[7], [7], [8]]" by code_simp
  from compressed_parents_canonical [OF accepted, of 1 "[8]"] obtain ls where "expanded_iter ?p = Some ls"
    "parents_get ?p 1 = Some (if 1 < length ls then Some (ls ! 1) else None)"
    "if length ls < 255 then \<exists>q. parents_push ?p [8] = Some q \<and> expanded_iter q = Some (ls @ [[8]])
     else parents_push ?p [8] = None" by blast
  moreover from this(1) have "ls = [[7], [7], [8]]" unfolding levels by (rule sym [OF option.inject [THEN iffD1]])
  ultimately show ?thesis using levels by (simp del: One_nat_def)
qed

section \<open>The header hash\<close>

lemma accepted_runs_expand:
  assumes "check_runs p = Inr ()"
  shows "expanded_iter p = None \<longleftrightarrow> p \<noteq> [] \<and> fst (hd p) = 0"
proof (cases "p \<noteq> [] \<and> fst (hd p) = 0")
  case True
  then show ?thesis by (cases p) (auto simp: expanded_iter_def expand_rle_def)
next
  case False
  then have "wf_parents p" using assms by (auto simp: wf_parents_iff)
  then show ?thesis using wf_levels False by (metis option.distinct(1))
qed

text \<open>
  C34: Runs received from a peer pass the conversion when their cumulative levels grow and neighbours
  differ, but nothing there asks that the first level be positive.  For accepted runs the block hash
  panics exactly when the first cumulative level is zero.
\<close>

theorem zero_level_runs_panic:
  assumes "parents_try_from_runs runs = Inr p"
  shows "calc_header_hash B pom_level service_commit (header\<lparr>parents_by_level := p\<rparr>) = None
    \<longleftrightarrow> p \<noteq> [] \<and> fst (hd p) = 0"
proof -
  have "check_runs p = Inr ()" using assms by (auto simp: parents_try_from_runs_def res_bind_eq_Inr)
  from accepted_runs_expand [OF this] show ?thesis
    by (simp add: calc_header_hash_def hash_internal_def hash_input_def Let_def)
qed

definition sample_header :: "u64 \<Rightarrow> CompressedParents \<Rightarrow> Header" where
  "sample_header tip_nonce parents =
     \<lparr>header_hash = 0, header_version = 1, parents_by_level = parents, hash_merkle_root = 1,
      accepted_id_merkle_root = 2, utxo_commitment = 3, timestamp = 4, header_bits = 5,
      header_nonce = tip_nonce, header_daa_score = 6, header_blue_work = 7, header_blue_score = 8,
      pruning_point = 9, pom_final_state = 10, service_state_hash = 11, pom_tier = 2\<rparr>"

theorem zero_level_runs_panic_witness:
  "parents_try_from_runs [(0, [7])] = Inr [(0, [7])]
   \<and> calc_header_hash (\<lambda>m. 0) 0 0 ((sample_header 0 [])\<lparr>parents_by_level := [(0, [7])]\<rparr>) = None
   \<and> calc_header_hash (\<lambda>m. 0) 0 0 ((sample_header 0 [])\<lparr>parents_by_level := [(1, [7])]\<rparr>) \<noteq> None"
proof -
  have "parents_try_from_runs [(c, [7])] = Inr [(c, [7])]" for c by (simp add: parents_try_from_runs_def)
  then show ?thesis
    using zero_level_runs_panic [of "[(0, [7])]" "[(0, [7])]"] zero_level_runs_panic [of "[(1, [7])]" "[(1, [7])]"]
    by simp
qed

text \<open>What the block hash covers: everything but the cached hash and the fields that are not active yet.\<close>

definition committed :: "u64 \<Rightarrow> u64 \<Rightarrow> Header \<Rightarrow> Header" where
  "committed pom_level service_commit h = h\<lparr>header_hash := 0,
     pom_final_state := (if pom_level_active pom_level (header_daa_score h) then pom_final_state h else 0),
     service_state_hash := (if service_commit_active service_commit (header_daa_score h) then service_state_hash h else 0),
     pom_tier := (if service_commit_active service_commit (header_daa_score h) then pom_tier h else 0)\<rparr>"

definition header_message :: "u64 \<Rightarrow> u64 \<Rightarrow> Header \<Rightarrow> u8 list option" where
  "header_message pom_level service_commit h = hash_input h (header_nonce h) (timestamp h)
     (if pom_level_active pom_level (header_daa_score h) then Some (pom_final_state h) else None)
     (if service_commit_active service_commit (header_daa_score h) then Some (service_state_hash h) else None)
     (if service_commit_active service_commit (header_daa_score h) then Some (pom_tier h) else None)"

definition header_fits :: "Header \<Rightarrow> bool" where
  "header_fits h = (wf_parents (parents_by_level h)
     \<and> list_all (\<lambda>(_, v). length v < 2 ^ 64) (parents_by_level h))"

lemma calc_header_hash_message:
  "calc_header_hash B pom_level service_commit h = map_option B (header_message pom_level service_commit h)"
  by (simp add: calc_header_hash_def header_message_def hash_internal_def Let_def)

lemma stripped_inject:
  assumes "length xs = length ys" "dropWhile (\<lambda>x. x = z) xs = dropWhile (\<lambda>x. x = z) ys"
  shows "xs = ys"
proof -
  have split: "zs = replicate (length zs - length (dropWhile (\<lambda>x. x = z) zs)) z @ dropWhile (\<lambda>x. x = z) zs" for zs
    by (induction zs) (auto simp: Suc_diff_le length_dropWhile_le)
  show ?thesis using split [of xs] split [of ys] assms by simp
qed

lemma write_blue_work_prefix: "write_blue_work v @ r = write_blue_work w @ s \<longleftrightarrow> v = w \<and> r = s"
proof
  let ?strip = "\<lambda>w :: 192 word. dropWhile (\<lambda>byte. byte = 0) (rev (to_le 24 w))"
  have short: "short (?strip w)" for w
    using length_dropWhile_le [of "\<lambda>byte. byte = 0" "rev (to_le 24 w)"] by (simp add: short_def)
  assume "write_blue_work v @ r = write_blue_work w @ s"
  then have "?strip v = ?strip w \<and> r = s"
    unfolding write_blue_work_def using write_var_bytes_prefix [OF short short] by blast
  then show "v = w \<and> r = s" using stripped_inject [of "rev (to_le 24 v)" "rev (to_le 24 w)" 0] by (simp add: to_le_inject)
qed simp

lemma levels_code:
  "prefix_code {v. length v < 2 ^ 64} write_var_array (\<lambda>v. v)"
proof -
  have code: "prefix_code UNIV hash_bytes (\<lambda>h. h)" by (simp add: prefix_code_def)
  show ?thesis unfolding prefix_code_def write_var_array_def append_assoc
  proof (intro ballI allI impI)
    fix v w :: "hash list" and r s
    assume "v \<in> {v. length v < 2 ^ 64}" "w \<in> {v. length v < 2 ^ 64}"
      "write_len (length v) @ concat (map hash_bytes v) @ r = write_len (length w) @ concat (map hash_bytes w) @ s"
    then show "v = w \<and> r = s" using counted_prefix [OF code, of v w r s] by simp
  qed
qed

lemma levels_after_set: "levels_after prev p = Some ls \<Longrightarrow> set ls \<subseteq> snd ` set p"
  by (induction p arbitrary: prev ls) (auto split: if_splits, blast)

lemma expanded_levels:
  assumes "header_fits h"
  obtains ls where "expanded_iter (parents_by_level h) = Some ls" "expanded_len (parents_by_level h) = length ls"
    "length ls < 2 ^ 64" "set ls \<subseteq> {v. length v < 2 ^ 64}"
proof -
  have wf: "wf_parents (parents_by_level h)" using assms by (simp add: header_fits_def)
  obtain ls where ls: "expanded_iter (parents_by_level h) = Some ls" "expanded_len (parents_by_level h) = length ls"
    by (rule wf_levels [OF wf])
  have "length ls < 256" using ls(2) unat_lt [of "fst (last (parents_by_level h))"]
    by (auto simp: expanded_len_def split: if_splits)
  moreover have "set ls \<subseteq> {v. length v < 2 ^ 64}"
    using levels_after_set [of 0 "parents_by_level h" ls] ls(1) assms
    by (fastforce simp: expanded_iter_def expand_rle_def header_fits_def list_all_iff)
  ultimately show thesis using that ls by simp
qed

lemma header_message_binds:
  assumes "header_fits a" "header_fits b"
    and "header_message pom_level service_commit a = header_message pom_level service_commit b"
  shows "committed pom_level service_commit a = committed pom_level service_commit b"
proof -
  obtain la where la: "expanded_iter (parents_by_level a) = Some la" "expanded_len (parents_by_level a) = length la"
    "length la < 2 ^ 64" "set la \<subseteq> {v. length v < 2 ^ 64}" by (rule expanded_levels [OF assms(1)])
  obtain lb where lb: "expanded_iter (parents_by_level b) = Some lb" "expanded_len (parents_by_level b) = length lb"
    "length lb < 2 ^ 64" "set lb \<subseteq> {v. length v < 2 ^ 64}" by (rule expanded_levels [OF assms(2)])
  define tail where "tail = (\<lambda>h :: Header.
    (if pom_level_active pom_level (header_daa_score h) then to_le 8 (pom_final_state h) else [])
    @ (if service_commit_active service_commit (header_daa_score h) then hash_bytes (service_state_hash h) else [])
    @ (if service_commit_active service_commit (header_daa_score h) then [pom_tier h] else []))"
  define rest where "rest = (\<lambda>h :: Header. hash_bytes (hash_merkle_root h) @ hash_bytes (accepted_id_merkle_root h)
    @ hash_bytes (utxo_commitment h) @ to_le 8 (timestamp h) @ to_le 4 (header_bits h)
    @ to_le 8 (header_nonce h) @ to_le 8 (header_daa_score h) @ to_le 8 (header_blue_score h)
    @ write_blue_work (header_blue_work h) @ hash_bytes (pruning_point h) @ tail h)"
  have message: "header_message pom_level service_commit h
      = Some (to_le 2 (header_version h) @ write_len (length ls) @ concat (map write_var_array ls) @ rest h)"
    if "expanded_iter (parents_by_level h) = Some ls" "expanded_len (parents_by_level h) = length ls" for h ls
    using that by (simp add: header_message_def hash_input_def rest_def tail_def)
  have "header_version a = header_version b \<and> write_len (length la) @ concat (map write_var_array la) @ rest a
      = write_len (length lb) @ concat (map write_var_array lb) @ rest b"
    using assms(3) unfolding message [OF la(1,2)] message [OF lb(1,2)] by (simp add: to_le_inject)
  then have head: "header_version a = header_version b" "la = lb" "rest a = rest b"
    using counted_prefix [OF levels_code la(3) lb(3) la(4) lb(4), of "rest a" "rest b"] by auto
  have "parents_by_level a = parents_by_level b"
    using levels_after_inject [of 0 "parents_by_level a" "parents_by_level b" la] head(2) la(1) lb(1) assms(1,2)
    by (simp add: wf_parents_def expanded_iter_def expand_rle_def header_fits_def)
  moreover have fixed: "hash_merkle_root a = hash_merkle_root b \<and> accepted_id_merkle_root a = accepted_id_merkle_root b
      \<and> utxo_commitment a = utxo_commitment b \<and> timestamp a = timestamp b \<and> header_bits a = header_bits b
      \<and> header_nonce a = header_nonce b \<and> header_daa_score a = header_daa_score b
      \<and> header_blue_score a = header_blue_score b \<and> header_blue_work a = header_blue_work b
      \<and> pruning_point a = pruning_point b \<and> tail a = tail b"
    using head(3) unfolding rest_def by (simp add: to_le_inject write_blue_work_prefix)
  moreover have "pom_final_state (committed pom_level service_commit a) = pom_final_state (committed pom_level service_commit b)
      \<and> service_state_hash (committed pom_level service_commit a) = service_state_hash (committed pom_level service_commit b)
      \<and> pom_tier (committed pom_level service_commit a) = pom_tier (committed pom_level service_commit b)"
    using fixed unfolding tail_def committed_def
    by (cases "pom_level_active pom_level (header_daa_score b)"; cases "service_commit_active service_commit (header_daa_score b)")
      (simp_all add: to_le_inject)
  ultimately show ?thesis using head(1) by (simp add: committed_def)
qed

lemma header_message_committed:
  "header_message pom_level service_commit (committed pom_level service_commit h)
   = header_message pom_level service_commit h"
  by (simp add: header_message_def committed_def hash_input_def)

text \<open>
  C35: A block hash commits to its header.  For headers with well-formed parents the hash is computed
  without a panic, and two headers have the same hash exactly when they agree on every field - the
  parents of every level, nonce and time included - other than the cached hash and the fields whose
  activation score is not reached, unless the block hash collides on their two encodings.
\<close>

theorem block_hash_commits:
  assumes "header_fits a" "header_fits b"
    and "inj_on (map_option B) {header_message pom_level service_commit a, header_message pom_level service_commit b}"
  shows "calc_header_hash B pom_level service_commit a \<noteq> None \<and>
    (calc_header_hash B pom_level service_commit a = calc_header_hash B pom_level service_commit b
      \<longleftrightarrow> committed pom_level service_commit a = committed pom_level service_commit b)"
proof -
  have "header_message pom_level service_commit a \<noteq> None"
    using expanded_levels [OF assms(1)] by (auto simp: header_message_def hash_input_def)
  moreover have "header_message pom_level service_commit a = header_message pom_level service_commit b
      \<longleftrightarrow> committed pom_level service_commit a = committed pom_level service_commit b"
    using header_message_binds [OF assms(1,2)] by (metis header_message_committed)
  ultimately show ?thesis using inj_onD [OF assms(3)] by (auto simp: calc_header_hash_message)
qed

text \<open>A hash that keeps the nonce of a header without parents.\<close>

definition sample_nonce_hash :: "u8 list \<Rightarrow> hash" where
  "sample_nonce_hash m = from_le (take 8 (drop 118 m))"

theorem block_hash_commits_witness:
  "calc_header_hash sample_nonce_hash 0 9 (sample_header 1 []) \<noteq> calc_header_hash sample_nonce_hash 0 9 (sample_header 2 [])
   \<and> calc_header_hash sample_nonce_hash 0 9 (sample_header 1 [])
     = calc_header_hash sample_nonce_hash 0 9 ((sample_header 1 [])\<lparr>pom_tier := 3\<rparr>)"
proof -
  have fits: "header_fits (sample_header n [])" "header_fits ((sample_header n [])\<lparr>pom_tier := 3\<rparr>)" for n
    by (simp_all add: header_fits_def wf_parents_def sample_header_def)
  have nonce: "map_option sample_nonce_hash (header_message 0 9 (sample_header n [])) = Some (from_le (to_le 8 n))" for n
    by (simp add: header_message_def hash_input_def sample_header_def expanded_iter_def expand_rle_def
        expanded_len_def sample_nonce_hash_def)
  have "from_le (to_le 8 (1 :: u64)) \<noteq> (from_le (to_le 8 (2 :: u64)) :: hash)" by code_simp
  then have inj: "inj_on (map_option sample_nonce_hash)
      {header_message 0 9 (sample_header 1 []), header_message 0 9 (sample_header 2 [])}"
    by (auto simp: inj_on_def nonce simp del: map_option_eq_Some)
  have "header_message 0 9 (sample_header 1 []) = header_message 0 9 ((sample_header 1 [])\<lparr>pom_tier := 3\<rparr>)"
    by (simp add: header_message_def hash_input_def sample_header_def service_commit_active_def)
  then have inj': "inj_on (map_option sample_nonce_hash)
      {header_message 0 9 (sample_header 1 []), header_message 0 9 ((sample_header 1 [])\<lparr>pom_tier := 3\<rparr>)}"
    by simp
  have "committed 0 9 (sample_header 1 []) \<noteq> committed 0 9 (sample_header 2 [])"
    "committed 0 9 (sample_header 1 []) = committed 0 9 ((sample_header 1 [])\<lparr>pom_tier := 3\<rparr>)"
    by (simp_all add: committed_def sample_header_def service_commit_active_def)
  then show ?thesis
    using block_hash_commits [OF fits(1) fits(1) inj] block_hash_commits [OF fits(1) fits(2) inj'] by simp
qed

end
