(* ===== verification/Opoi.thy ===== *)
theory Opoi
  imports Service_Types Script_Num
begin

unbundle bit_operations_syntax

text \<open>
  The proof-of-inference tag of a coinbase payload: \<^verbatim>\<open>src/inference/src/lib.rs\<close>, \<^verbatim>\<open>task.rs\<close>,
  \<^verbatim>\<open>model_fixed.rs\<close> and \<^verbatim>\<open>fraud_proof.rs\<close>.  The fixed-point network works on \<^verbatim>\<open>i64\<close> values, modelled
  as integers with a range check after every addition and multiplication, as overflow panics.  The
  external \<^verbatim>\<open>hex\<close> crate is the parameters \<open>hex_encode\<close> and \<open>hex_decode\<close>.  The floating point model of
  phase 1 (\<^verbatim>\<open>model.rs\<close>, \<^verbatim>\<open>run_inference\<close>, \<^verbatim>\<open>verify_tag\<close>) is not used by consensus and not modelled.

  The lemmas bound every intermediate value of a forward pass by the worst cases that the comments
  of the source give, and show that a generated tag is found and accepted.
\<close>

section \<open>Tasks and weights\<close>

definition MODEL_SEED :: u64 where
  "MODEL_SEED = 0x4B657279784F5000"

definition from_nonce :: "u64 \<Rightarrow> u8 list" where
  "from_nonce nonce = to_le 8 nonce @ concat (replicate 3 (to_le 8 MODEL_SEED))"

definition NORM_SHIFT :: nat where "NORM_SHIFT = 10"
definition N_IN :: nat where "N_IN = 32"
definition N_H1 :: nat where "N_H1 = 256"
definition N_H2 :: nat where "N_H2 = 128"
definition N_OUT :: nat where "N_OUT = 32"
definition HE_L1 :: int where "HE_L1 = 256"
definition HE_L2 :: int where "HE_L2 = 90"
definition HE_L3 :: int where "HE_L3 = 128"

text \<open>The wrapping update of the generator; the product may not overflow, the last cast truncates.\<close>

definition lcg_weight :: "u64 \<Rightarrow> int \<Rightarrow> (u64 \<times> int) option" where
  "lcg_weight state he_scale =
     (let state' = state * 6364136223846793005 + 1442695040888963407;
          raw = sint (ucast (drop_bit 32 state') :: u32)
      in i64_checked (raw * he_scale) \<bind> (\<lambda>product.
           Some (state', sint (word_of_int (product div 2 ^ 31) :: u32))))"

fun weights_from :: "nat \<Rightarrow> u64 \<Rightarrow> int \<Rightarrow> int list option" where
  "weights_from 0 s he = Some []"
| "weights_from (Suc n) s he = do {
     (s', w) \<leftarrow> lcg_weight s he;
     ws \<leftarrow> weights_from n s' he;
     Some (w # ws)
   }"

definition make_weights :: "nat \<Rightarrow> nat \<Rightarrow> u64 \<Rightarrow> int \<Rightarrow> int list option" where
  "make_weights rows cols layer_id he =
     weights_from (rows * cols) (MODEL_SEED + layer_id * 0xDEADBEEFCAFE1337) he"

record Weights =
  w1 :: "int list"
  w2 :: "int list"
  w3 :: "int list"

definition WEIGHTS :: "Weights option" where
  "WEIGHTS = do {
     a \<leftarrow> make_weights N_H1 N_IN 0 HE_L1;
     b \<leftarrow> make_weights N_H2 N_H1 1 HE_L2;
     c \<leftarrow> make_weights N_OUT N_H2 2 HE_L3;
     Some \<lparr>w1 = a, w2 = b, w3 = c\<rparr>
   }"

section \<open>The forward pass\<close>

text \<open>\<^verbatim>\<open>xs[j]\<close>: out of range panics.\<close>

definition vec_index :: "'a list \<Rightarrow> nat \<Rightarrow> 'a option" where
  "vec_index xs j = (if j < length xs then Some (xs ! j) else None)"

text \<open>The accumulator of neuron \<open>i\<close> of a layer with \<open>n\<close> inputs.\<close>

definition accumulate :: "int list \<Rightarrow> int list \<Rightarrow> nat \<Rightarrow> nat \<Rightarrow> int option" where
  "accumulate x w n i = foldM (\<lambda>acc j. do {
     a \<leftarrow> vec_index x j;
     b \<leftarrow> vec_index w (i * n + j);
     p \<leftarrow> i64_checked (a * b);
     i64_checked (acc + p)
   }) 0 [0..<n]"

definition relu :: "int \<Rightarrow> int" where
  "relu acc = max (acc div 2 ^ NORM_SHIFT) 0"

definition hidden_layer :: "int list \<Rightarrow> int list \<Rightarrow> nat \<Rightarrow> nat \<Rightarrow> int list option" where
  "hidden_layer x w n m = those (map (\<lambda>i. map_option relu (accumulate x w n i)) [0..<m])"

definition output_layer :: "int list \<Rightarrow> int list \<Rightarrow> nat \<Rightarrow> nat \<Rightarrow> int list option" where
  "output_layer x w n m = those (map (accumulate x w n) [0..<m])"

definition fold_output :: "int \<Rightarrow> u8" where
  "fold_output v = foldl (XOR) 0 (to_le 8 (word_of_int v :: u64))"

definition centre :: "u8 list \<Rightarrow> int list" where
  "centre input = map (\<lambda>b. int (unat b) - 128) input"

definition forward :: "u8 list \<Rightarrow> u8 list option" where
  "forward input = do {
     W \<leftarrow> WEIGHTS;
     let x = centre input;
     h1 \<leftarrow> hidden_layer x (w1 W) N_IN N_H1;
     h2 \<leftarrow> hidden_layer h1 (w2 W) N_H1 N_H2;
     h3 \<leftarrow> output_layer h2 (w3 W) N_H2 N_OUT;
     Some (map fold_output h3)
   }"

section \<open>Tags\<close>

definition PHASE2_OPOI_SALT :: u64 where
  "PHASE2_OPOI_SALT = from_le (bytes_of_string ''KERYX:2'' @ [0])"

definition run_inference_fixed :: "u64 \<Rightarrow> u8 list option" where
  "run_inference_fixed nonce = forward (from_nonce nonce)"

definition tag_fixed :: "(u8 list \<Rightarrow> u8 list) \<Rightarrow> u64 \<Rightarrow> u8 list option" where
  "tag_fixed hex_encode nonce =
     map_option (\<lambda>out. hex_encode (take 8 out)) (run_inference_fixed (nonce XOR PHASE2_OPOI_SALT))"

definition verify_tag_fixed :: "(u8 list \<Rightarrow> u8 list) \<Rightarrow> u64 \<Rightarrow> u8 list \<Rightarrow> bool option" where
  "verify_tag_fixed hex_encode nonce claimed_hex16 =
     map_option (\<lambda>tag. tag = claimed_hex16) (tag_fixed hex_encode nonce)"

definition hex_char :: "nat \<Rightarrow> u8" where
  "hex_char d = (if d < 10 then 48 + word_of_nat d else 87 + word_of_nat d)"

text \<open>\<^verbatim>\<open>{:016x}\<close>: sixteen lower case hex digits, most significant first.\<close>

definition format_016x :: "u64 \<Rightarrow> u8 list" where
  "format_016x n = map (\<lambda>k. hex_char (unat n div 16 ^ k mod 16)) (rev [0..<16])"

definition OPOI_MARKER :: "u8 list" where "OPOI_MARKER = bytes_of_string ''/ai:v1:''"

definition gen_opoi_extra_data :: "(u8 list \<Rightarrow> u8 list) \<Rightarrow> u64 \<Rightarrow> u8 list option" where
  "gen_opoi_extra_data hex_encode nonce =
     map_option (\<lambda>tag. 47 # format_016x nonce @ OPOI_MARKER @ tag) (tag_fixed hex_encode nonce)"

definition is_ascii_hexdigit :: "u8 \<Rightarrow> bool" where
  "is_ascii_hexdigit b = (hex_digit b \<noteq> None)"

text \<open>\<^verbatim>\<open>u64::from_str_radix(_, 16)\<close> on sixteen hex digits, which cannot overflow.\<close>

definition nonce_of_hex :: "u8 list \<Rightarrow> u64" where
  "nonce_of_hex s = foldl (\<lambda>v c. 16 * v + (case hex_digit c of Some d \<Rightarrow> ucast d | None \<Rightarrow> 0)) 0 s"

definition COINBASE_MIN_BINARY_HEADER :: nat where "COINBASE_MIN_BINARY_HEADER = 19"

text \<open>
  A byte string of hex digits is UTF-8, so the two conversions with \<^verbatim>\<open>from_utf8\<close> fail only where
  the test on the digits fails as well.
\<close>

definition parse_opoi :: "u8 list \<Rightarrow> (u64 \<times> u8 list) option" where
  "parse_opoi payload =
     (let search_start = min COINBASE_MIN_BINARY_HEADER (length payload)
      in find_marker (drop search_start payload) OPOI_MARKER \<bind> (\<lambda>relative_pos.
        let marker_pos = search_start + relative_pos;
            tag_start = marker_pos + length OPOI_MARKER
        in if length payload < tag_start + 16 then None
           else let claimed_tag = take 16 (drop tag_start payload)
           in if \<not> list_all is_ascii_hexdigit claimed_tag then None
           else if marker_pos < 16 + 1 then None
           else let slash_pos = marker_pos - 16 - 1
           in if payload ! slash_pos \<noteq> 47 then None
           else let nonce_hex = take (marker_pos - (slash_pos + 1)) (drop (slash_pos + 1) payload)
           in if \<not> list_all is_ascii_hexdigit nonce_hex then None
           else Some (nonce_of_hex nonce_hex, claimed_tag)))"

section \<open>Declared capabilities\<close>

text \<open>\<^verbatim>\<open>str::from_utf8\<close> accepts exactly the well-formed UTF-8 byte sequences.\<close>

abbreviation continuation :: "u8 \<Rightarrow> bool" where
  "continuation b \<equiv> 0x80 \<le> b \<and> b \<le> 0xBF"

fun is_utf8 :: "u8 list \<Rightarrow> bool" where
  "is_utf8 [] = True"
| "is_utf8 (a # bs) =
     (if a < 0x80 then is_utf8 bs
      else case bs of
        [] \<Rightarrow> False
      | b # cs \<Rightarrow>
          if 0xC2 \<le> a \<and> a \<le> 0xDF then continuation b \<and> is_utf8 cs
          else case cs of
            [] \<Rightarrow> False
          | c # ds \<Rightarrow>
              if 0xE0 \<le> a \<and> a \<le> 0xEF
              then continuation b \<and> (a = 0xE0 \<longrightarrow> 0xA0 \<le> b) \<and> (a = 0xED \<longrightarrow> b \<le> 0x9F)
                \<and> continuation c \<and> is_utf8 ds
              else case ds of
                [] \<Rightarrow> False
              | d # es \<Rightarrow>
                  0xF0 \<le> a \<and> a \<le> 0xF4 \<and> continuation b \<and> (a = 0xF0 \<longrightarrow> 0x90 \<le> b)
                  \<and> (a = 0xF4 \<longrightarrow> b \<le> 0x8F) \<and> continuation c \<and> continuation d \<and> is_utf8 es)"

text \<open>\<^verbatim>\<open>str::split(',')\<close>: a text without the separator is one piece.\<close>

fun split_commas :: "u8 list \<Rightarrow> u8 list list" where
  "split_commas [] = [[]]"
| "split_commas (b # bs) = (if b = 44 then [] # split_commas bs
     else case split_commas bs of p # ps \<Rightarrow> (b # p) # ps | [] \<Rightarrow> [[b]])"

definition CAP_MARKER :: "u8 list" where "CAP_MARKER = bytes_of_string ''/ai:cap:''"

definition parse_ai_caps :: "(u8 list \<Rightarrow> u8 list option) \<Rightarrow> u8 list \<Rightarrow> u8 list list" where
  "parse_ai_caps hex_decode payload =
     (let search_start = min COINBASE_MIN_BINARY_HEADER (length payload)
      in case find_marker (drop search_start payload) CAP_MARKER of
           None \<Rightarrow> []
         | Some relative_pos \<Rightarrow>
             let caps_start = search_start + relative_pos + length CAP_MARKER;
                 caps_str = takeWhile (\<lambda>b. b \<noteq> 47) (drop caps_start payload)
             in if \<not> is_utf8 caps_str then []
                else List.map_filter (\<lambda>s. hex_decode s \<bind> (\<lambda>bytes. if length bytes = 32 then Some bytes else None))
                       (filter (\<lambda>s. length s = 64) (split_commas caps_str)))"

section \<open>Fraud proofs\<close>

datatype FraudProofResult = Valid | Invalid

definition verify_fraud_proof :: "u8 list \<Rightarrow> u8 list \<Rightarrow> FraudProofResult option" where
  "verify_fraud_proof request_hash claimed_commitment =
     map_option (\<lambda>expected. if expected \<noteq> claimed_commitment then Valid else Invalid)
       (forward request_hash)"

definition compute_ai_commitment :: "u8 list \<Rightarrow> u8 list option" where
  "compute_ai_commitment request_hash = forward request_hash"

section \<open>No forward pass overflows\<close>

lemma div_between:
  fixes t h d :: int
  assumes "0 < d" "- (h * d) \<le> t" "t < h * d"
  shows "- h \<le> t div d \<and> t div d < h"
proof
  have "(- h) * d div d \<le> t div d" by (rule zdiv_mono1) (use assms in simp_all)
  moreover have "(- h) * d div d = - h" using assms(1) by (intro nonzero_mult_div_cancel_right) simp
  ultimately show "- h \<le> t div d" by simp
  have "t div d * d \<le> t" using assms(1) by (metis le_add_same_cancel1 pos_mod_sign div_mult_mod_eq)
  then have "t div d * d < h * d" using assms(3) by linarith
  then show "t div d < h" using assms(1) by simp
qed

lemma lcg_weight_range:
  assumes "0 < he" "he \<le> 256"
  shows "\<exists>s' w. lcg_weight s he = Some (s', w) \<and> \<bar>w\<bar> \<le> he"
proof -
  define s' where "s' = s * 6364136223846793005 + 1442695040888963407"
  define raw where "raw = sint (ucast (drop_bit 32 s') :: u32)"
  have raw: "- (2 ^ 31) \<le> raw" "raw < 2 ^ 31"
    using sint_greater_eq [of "ucast (drop_bit 32 s') :: u32"] sint_less [of "ucast (drop_bit 32 s') :: u32"]
    by (simp_all add: raw_def)
  have low: "- (2 ^ 31) * he \<le> raw * he" and high: "raw * he < 2 ^ 31 * he"
    using raw assms(1) by (simp_all only: mult_right_mono mult_strict_right_mono less_imp_le)
  have ok: "in_i64 (raw * he)" using low high assms(2) by (simp add: in_i64_def)
  let ?q = "raw * he div 2 ^ 31"
  have q: "- he \<le> ?q" "?q < he"
    using div_between [of "2 ^ 31" he "raw * he"] low high by (simp_all add: mult.commute)
  have "sint (word_of_int ?q :: u32) = ?q"
    using q assms(2) by (simp add: sint_sbintrunc' signed_take_bit_int_eq_self)
  then show ?thesis
    using q ok by (auto simp: lcg_weight_def Let_def i64_checked_def s'_def [symmetric] raw_def [symmetric])
qed

lemma weights_from_range:
  assumes "0 < he" "he \<le> 256"
  shows "\<exists>ws. weights_from n s he = Some ws \<and> length ws = n \<and> (\<forall>w \<in> set ws. \<bar>w\<bar> \<le> he)"
proof (induction n arbitrary: s)
  case (Suc n)
  obtain s' w where w: "lcg_weight s he = Some (s', w)" "\<bar>w\<bar> \<le> he"
    using lcg_weight_range [OF assms] by blast
  obtain ws where "weights_from n s' he = Some ws" "length ws = n" "\<forall>w \<in> set ws. \<bar>w\<bar> \<le> he"
    using Suc by blast
  then show ?case using w by simp
qed simp

lemma WEIGHTS_range:
  obtains W where "WEIGHTS = Some W"
    "length (w1 W) = N_H1 * N_IN" "\<forall>w \<in> set (w1 W). \<bar>w\<bar> \<le> HE_L1"
    "length (w2 W) = N_H2 * N_H1" "\<forall>w \<in> set (w2 W). \<bar>w\<bar> \<le> HE_L2"
    "length (w3 W) = N_OUT * N_H2" "\<forall>w \<in> set (w3 W). \<bar>w\<bar> \<le> HE_L3"
proof -
  have he: "0 < HE_L1" "HE_L1 \<le> 256" "0 < HE_L2" "HE_L2 \<le> 256" "0 < HE_L3" "HE_L3 \<le> 256"
    by (simp_all add: HE_L1_def HE_L2_def HE_L3_def)
  note ex = weights_from_range [OF he(1,2)] weights_from_range [OF he(3,4)] weights_from_range [OF he(5,6)]
  obtain a where a: "make_weights N_H1 N_IN 0 HE_L1 = Some a" "length a = N_H1 * N_IN" "\<forall>w \<in> set a. \<bar>w\<bar> \<le> HE_L1"
    unfolding make_weights_def using ex(1) by blast
  obtain b where b: "make_weights N_H2 N_H1 1 HE_L2 = Some b" "length b = N_H2 * N_H1" "\<forall>w \<in> set b. \<bar>w\<bar> \<le> HE_L2"
    unfolding make_weights_def using ex(2) by blast
  obtain c where c: "make_weights N_OUT N_H2 2 HE_L3 = Some c" "length c = N_OUT * N_H2" "\<forall>w \<in> set c. \<bar>w\<bar> \<le> HE_L3"
    unfolding make_weights_def using ex(3) by blast
  show thesis
    by (rule that [of "\<lparr>w1 = a, w2 = b, w3 = c\<rparr>"]) (use a b c in \<open>simp_all add: WEIGHTS_def\<close>)
qed

lemma accumulate_bound:
  assumes "length x = n" "(i + 1) * n \<le> length w"
    and "\<forall>a \<in> set x. \<bar>a\<bar> \<le> A" "\<forall>b \<in> set w. \<bar>b\<bar> \<le> B" and "int n * (A * B) < 2 ^ 63" "0 \<le> A" "0 \<le> B"
  shows "\<exists>r. accumulate x w n i = Some r \<and> \<bar>r\<bar> \<le> int n * (A * B)"
proof -
  let ?f = "\<lambda>acc j. do {a \<leftarrow> vec_index x j; b \<leftarrow> vec_index w (i * n + j); p \<leftarrow> i64_checked (a * b); i64_checked (acc + p)}"
  have "\<exists>r. foldM ?f 0 [0..<k] = Some r \<and> \<bar>r\<bar> \<le> int k * (A * B)" if "k \<le> n" for k
    using that
  proof (induction k)
    case (Suc k)
    then obtain r where r: "foldM ?f 0 [0..<k] = Some r" "\<bar>r\<bar> \<le> int k * (A * B)" by auto
    have range: "k < length x" "i * n + k < length w" using Suc.prems assms(1,2) by simp_all
    let ?p = "x ! k * w ! (i * n + k)"
    have p: "\<bar>?p\<bar> \<le> A * B"
      using assms(3,4,6) range by (simp add: abs_mult mult_mono)
    have sum: "\<bar>r + ?p\<bar> \<le> int (Suc k) * (A * B)"
      using r(2) p abs_triangle_ineq [of r ?p] by (simp add: algebra_simps)
    have AB: "0 \<le> A * B" using assms(6,7) by simp
    then have "int (Suc k) * (A * B) \<le> int n * (A * B)" using Suc.prems by (intro mult_right_mono) simp_all
    then have small: "\<bar>r + ?p\<bar> < 2 ^ 63" using sum assms(5) by linarith
    have "A * B \<le> int n * (A * B)" using AB Suc.prems by (intro mult_le_cancel_right1 [THEN iffD2]) simp
    then have "\<bar>?p\<bar> < 2 ^ 63" using p assms(5) by linarith
    then have "in_i64 ?p" "in_i64 (r + ?p)" using small unfolding in_i64_def by linarith+
    then show ?case using r(1) range sum by (simp add: foldM_append vec_index_def i64_checked_def)
  qed simp
  then show ?thesis unfolding accumulate_def by blast
qed

lemma those_map_all:
  "(\<And>x. x \<in> set xs \<Longrightarrow> \<exists>y. f x = Some y \<and> P y) \<Longrightarrow>
   \<exists>ys. those (map f xs) = Some ys \<and> length ys = length xs \<and> (\<forall>y \<in> set ys. P y)"
  by (induction xs) (simp, fastforce)

lemma relu_range: "\<bar>acc\<bar> \<le> 1024 * C \<Longrightarrow> 0 \<le> relu acc \<and> relu acc \<le> C"
proof -
  assume "\<bar>acc\<bar> \<le> 1024 * C"
  then have "acc div 1024 \<le> 1024 * C div 1024" by (intro zdiv_mono1) simp_all
  then show ?thesis using \<open>\<bar>acc\<bar> \<le> 1024 * C\<close> by (simp add: relu_def NORM_SHIFT_def)
qed

lemma row_range: "i < m \<Longrightarrow> length w = m * n \<Longrightarrow> (i + 1) * n \<le> length w"
  by (metis Suc_eq_plus1 Suc_leI mult_le_mono1)

lemma hidden_layer_range:
  assumes "length x = n" "length w = m * n" "\<forall>a \<in> set x. \<bar>a\<bar> \<le> A" "\<forall>b \<in> set w. \<bar>b\<bar> \<le> B"
    and "int n * (A * B) \<le> 1024 * C" "1024 * C < 2 ^ 63" "0 \<le> A" "0 \<le> B"
  shows "\<exists>h. hidden_layer x w n m = Some h \<and> length h = m \<and> (\<forall>a \<in> set h. 0 \<le> a \<and> a \<le> C)"
proof -
  have "\<exists>y. map_option relu (accumulate x w n i) = Some y \<and> 0 \<le> y \<and> y \<le> C" if "i \<in> set [0..<m]" for i
  proof -
    have "int n * (A * B) < 2 ^ 63" using assms(5,6) by linarith
    from accumulate_bound [OF assms(1) row_range assms(3,4) this assms(7,8)] that assms(2)
    obtain r where "accumulate x w n i = Some r" "\<bar>r\<bar> \<le> int n * (A * B)" by auto
    then show ?thesis using relu_range [of r C] assms(5) by simp
  qed
  from those_map_all [of "[0..<m]", OF this] show ?thesis unfolding hidden_layer_def by simp
qed

lemma output_layer_range:
  assumes "length x = n" "length w = m * n" "\<forall>a \<in> set x. \<bar>a\<bar> \<le> A" "\<forall>b \<in> set w. \<bar>b\<bar> \<le> B"
    and "int n * (A * B) < 2 ^ 63" "0 \<le> A" "0 \<le> B"
  shows "\<exists>h. output_layer x w n m = Some h \<and> length h = m \<and> (\<forall>a \<in> set h. \<bar>a\<bar> \<le> int n * (A * B))"
  using those_map_all [of "[0..<m]" "accumulate x w n" "\<lambda>a. \<bar>a\<bar> \<le> int n * (A * B)"]
    accumulate_bound [OF assms(1) row_range assms(3-7)] assms(2) unfolding output_layer_def by auto

lemma centre_range: "\<forall>a \<in> set (centre input). \<bar>a\<bar> \<le> 128"
proof -
  have "\<bar>int (unat b) - 128\<bar> \<le> 128" for b :: u8
  proof -
    have "unat b < 256" using unat_lt [of b] by simp
    then show ?thesis by linarith
  qed
  then show ?thesis by (auto simp: centre_def)
qed

lemma forward_layers:
  assumes "length input = 32"
  shows "\<exists>W h1 h2 h3. WEIGHTS = Some W
    \<and> hidden_layer (centre input) (w1 W) N_IN N_H1 = Some h1 \<and> list_all (\<lambda>a. 0 \<le> a \<and> a \<le> 1024) h1
    \<and> hidden_layer h1 (w2 W) N_H1 N_H2 = Some h2 \<and> list_all (\<lambda>a. 0 \<le> a \<and> a \<le> 23040) h2
    \<and> output_layer h2 (w3 W) N_H2 N_OUT = Some h3 \<and> list_all (\<lambda>a. \<bar>a\<bar> \<le> 377487360) h3
    \<and> forward input = Some (map fold_output h3) \<and> length h3 = 32"
proof -
  note dims = N_IN_def N_H1_def N_H2_def N_OUT_def HE_L1_def HE_L2_def HE_L3_def
  obtain W where W: "WEIGHTS = Some W"
    "length (w1 W) = N_H1 * N_IN" "\<forall>w \<in> set (w1 W). \<bar>w\<bar> \<le> HE_L1"
    "length (w2 W) = N_H2 * N_H1" "\<forall>w \<in> set (w2 W). \<bar>w\<bar> \<le> HE_L2"
    "length (w3 W) = N_OUT * N_H2" "\<forall>w \<in> set (w3 W). \<bar>w\<bar> \<le> HE_L3"
    by (rule WEIGHTS_range)
  have x: "length (centre input) = N_IN" using assms by (simp add: centre_def N_IN_def)
  obtain h1 where h1: "hidden_layer (centre input) (w1 W) N_IN N_H1 = Some h1" "length h1 = N_H1"
    "\<forall>a \<in> set h1. 0 \<le> a \<and> a \<le> 1024"
    using hidden_layer_range [OF x W(2) centre_range W(3), of 1024] by (auto simp: dims)
  then have abs1: "\<forall>a \<in> set h1. \<bar>a\<bar> \<le> 1024" by auto
  obtain h2 where h2: "hidden_layer h1 (w2 W) N_H1 N_H2 = Some h2" "length h2 = N_H2"
    "\<forall>a \<in> set h2. 0 \<le> a \<and> a \<le> 23040"
    using hidden_layer_range [OF h1(2) W(4) abs1 W(5), of 23040] by (auto simp: dims)
  then have abs2: "\<forall>a \<in> set h2. \<bar>a\<bar> \<le> 23040" by auto
  obtain h3 where h3: "output_layer h2 (w3 W) N_H2 N_OUT = Some h3" "length h3 = N_OUT"
    "\<forall>a \<in> set h3. \<bar>a\<bar> \<le> 377487360"
    using output_layer_range [OF h2(2) W(6) abs2 W(7)] by (auto simp: dims)
  have "forward input = Some (map fold_output h3)" "length h3 = 32"
    using h3(2) by (simp_all add: forward_def W(1) h1(1) h2(1) h3(1)) (simp add: N_OUT_def)
  then show ?thesis
    using W(1) h1(1,3) h2(1,3) h3(1,3) unfolding list_all_iff by blast
qed

lemma forward_total: "length input = 32 \<Longrightarrow> \<exists>out. forward input = Some out \<and> length out = 32"
  using forward_layers by fastforce

text \<open>
  A forward pass of the fixed-point network never overflows and returns 32 bytes.  The values
  stay within the worst cases that the source states: activations of the first hidden layer in
  \<open>0..1024\<close>, of the second in \<open>0..23040\<close>, outputs at most \<open>377487360\<close> in magnitude.
\<close>

theorem forward_within_bounds:
  assumes "length input = 32"
  shows "\<exists>W h1 h2 h3. WEIGHTS = Some W
    \<and> hidden_layer (centre input) (w1 W) N_IN N_H1 = Some h1 \<and> list_all (\<lambda>a. 0 \<le> a \<and> a \<le> 1024) h1
    \<and> hidden_layer h1 (w2 W) N_H1 N_H2 = Some h2 \<and> list_all (\<lambda>a. 0 \<le> a \<and> a \<le> 23040) h2
    \<and> output_layer h2 (w3 W) N_H2 N_OUT = Some h3 \<and> list_all (\<lambda>a. \<bar>a\<bar> \<le> 377487360) h3
    \<and> forward input = Some (map fold_output h3) \<and> length h3 = 32"
  by (rule forward_layers [OF assms])

theorem forward_within_bounds_witness:
  "\<exists>W h1 h2 h3. WEIGHTS = Some W
    \<and> hidden_layer (centre (from_nonce 42)) (w1 W) N_IN N_H1 = Some h1 \<and> list_all (\<lambda>a. 0 \<le> a \<and> a \<le> 1024) h1
    \<and> hidden_layer h1 (w2 W) N_H1 N_H2 = Some h2 \<and> list_all (\<lambda>a. 0 \<le> a \<and> a \<le> 23040) h2
    \<and> output_layer h2 (w3 W) N_H2 N_OUT = Some h3 \<and> list_all (\<lambda>a. \<bar>a\<bar> \<le> 377487360) h3
    \<and> forward (from_nonce 42) = Some (map fold_output h3) \<and> length h3 = 32"
proof -
  have "length (from_nonce 42) = 32" by (simp add: from_nonce_def length_concat replicate_num)
  then show ?thesis by (rule forward_within_bounds)
qed

section \<open>Generated tags are found\<close>

lemma find_marker_absent: "d \<in> set m \<Longrightarrow> d \<notin> set ys \<Longrightarrow> find_marker ys m = None"
proof (induction ys)
  case (Cons b ys)
  have "take (length m) (b # ys) \<noteq> m" using Cons.prems by (metis in_set_takeD)
  then show ?case using Cons by simp
qed auto

text \<open>A marker whose first byte does not occur again cannot start before a later occurrence of it.\<close>

lemma no_overlap:
  assumes "take (length m) xs \<noteq> m" "m = c # r" "c \<notin> set r" "xs \<noteq> []"
  shows "take (length m) (xs @ c # ys) \<noteq> m"
proof (cases "length m \<le> length xs")
  case False
  have "m ! length xs \<noteq> c"
  proof -
    obtain k where k: "length xs = Suc k" using assms(4) by (cases xs) auto
    then have "m ! length xs \<in> set r" using False assms(2) by simp
    then show ?thesis using assms(3) by auto
  qed
  moreover have "take (length m) (xs @ c # ys) ! length xs = c" using False by (simp add: nth_append)
  ultimately show ?thesis by metis
qed (use assms(1) in simp)

lemma find_marker_extend:
  assumes "m = c # r" "c \<notin> set r"
  shows "find_marker xs m = None \<Longrightarrow>
    find_marker (xs @ c # ys) m = map_option (\<lambda>k. length xs + k) (find_marker (c # ys) m)"
proof (induction xs)
  case Nil
  then show ?case by (cases "find_marker (c # ys) m") auto
next
  case (Cons b xs)
  then have here: "take (length m) (b # xs) \<noteq> m" and later: "find_marker xs m = None"
    by (auto split: if_splits)
  have "take (length m) ((b # xs) @ c # ys) \<noteq> m" using no_overlap [OF here assms] by simp
  then show ?case using Cons.IH [OF later] by (cases "find_marker (c # ys) m") auto
qed

lemma find_marker_here: "m \<noteq> [] \<Longrightarrow> find_marker (m @ ys) m = Some 0"
  by (cases m) auto

lemma OPOI_MARKER_eq: "OPOI_MARKER = [47, 97, 105, 58, 118, 49, 58]"
  by code_simp

lemma hex_char_all: "list_all (\<lambda>d. hex_digit (hex_char d) = Some (word_of_nat d) \<and> hex_char d \<noteq> 47
    \<and> hex_char d \<noteq> 58) [0..<16]"
  by code_simp

lemma hex_char_digit:
  assumes "d < 16"
  shows "hex_digit (hex_char d) = Some (word_of_nat d)" "hex_char d \<noteq> 47" "hex_char d \<noteq> 58"
    "is_ascii_hexdigit (hex_char d)"
  using assms hex_char_all by (auto simp: list_all_iff is_ascii_hexdigit_def)

lemma format_016x_digits:
  "list_all is_ascii_hexdigit (format_016x n)" "58 \<notin> set (format_016x n)" "47 \<notin> set (format_016x n)"
  "length (format_016x n) = 16"
  by (auto simp: format_016x_def list_all_iff hex_char_digit dest: sym)

lemma word_of_digit: "d < 16 \<Longrightarrow> (ucast (word_of_nat d :: u8) :: u64) = word_of_nat d"
proof -
  assume "d < 16"
  then have "unat (word_of_nat d :: u8) = d" "unat (word_of_nat d :: u64) = d" by (simp_all add: unat_of_nat)
  moreover have "unat (ucast (word_of_nat d :: u8) :: u64) = unat (word_of_nat d :: u8)"
    by (rule unat_ucast_wide) simp
  ultimately show ?thesis unfolding word_unat_eq_iff by simp
qed

lemma nonce_of_digits:
  "foldl (\<lambda>v c. 16 * v + (case hex_digit c of Some d \<Rightarrow> ucast d | None \<Rightarrow> 0)) v
     (map (\<lambda>k. hex_char (N div 16 ^ k mod 16)) (rev [0..<m]))
   = v * 16 ^ m + (word_of_nat (N mod 16 ^ m) :: u64)"
proof (induction m arbitrary: v)
  case (Suc m)
  let ?d = "N div 16 ^ m mod 16"
  have d: "?d < 16" by simp
  have "N mod 16 ^ Suc m = 16 ^ m * ?d + N mod 16 ^ m"
    by (metis mod_mult2_eq mult.commute power_Suc)
  then have "(word_of_nat (N mod 16 ^ Suc m) :: u64) = 16 ^ m * word_of_nat ?d + word_of_nat (N mod 16 ^ m)"
    by simp
  then show ?case
    using Suc [of "16 * v + word_of_nat ?d"]
    by (simp add: hex_char_digit(1) [OF d] word_of_digit [OF d] algebra_simps del: of_nat_mod)
qed simp

lemma nonce_of_format: "nonce_of_hex (format_016x n) = n"
proof -
  have "nonce_of_hex (format_016x n) = 0 * 16 ^ 16 + (word_of_nat (unat n mod 16 ^ 16) :: u64)"
    unfolding nonce_of_hex_def format_016x_def by (rule nonce_of_digits)
  moreover have "unat n mod 16 ^ 16 = unat n" using unat_lt [of n] by simp
  ultimately show ?thesis by simp
qed

lemma parse_opoi_generated:
  assumes "19 \<le> length pre" "find_marker (drop 19 pre) OPOI_MARKER = None"
    and "length tag = 16" "list_all is_ascii_hexdigit tag"
  shows "parse_opoi (pre @ (47 # format_016x n @ OPOI_MARKER @ tag) @ post) = Some (n, tag)"
proof -
  let ?hex = "format_016x n" and ?rest = "tag @ post"
  let ?payload = "pre @ 47 # ?hex @ OPOI_MARKER @ ?rest"
  note m = OPOI_MARKER_eq
  have start: "drop 19 ?payload = drop 19 pre @ 47 # ?hex @ OPOI_MARKER @ ?rest" using assms(1) by simp
  have none: "find_marker (47 # ?hex) OPOI_MARKER = None"
    by (rule find_marker_absent [of 58]) (simp_all add: m format_016x_digits(2))
  have later: "find_marker ((47 # ?hex) @ 47 # tl OPOI_MARKER @ ?rest) OPOI_MARKER = Some 17"
    using find_marker_extend [of OPOI_MARKER 47 "tl OPOI_MARKER" "47 # ?hex" "tl OPOI_MARKER @ ?rest"] none
      find_marker_here [of OPOI_MARKER ?rest] by (simp add: m format_016x_digits(4))
  have "find_marker (drop 19 ?payload) OPOI_MARKER = Some (length pre - 19 + 17)"
    unfolding start using find_marker_extend [of OPOI_MARKER 47 "tl OPOI_MARKER" "drop 19 pre"
      "?hex @ OPOI_MARKER @ ?rest"] assms(2) later by (simp add: m)
  then show ?thesis
    using assms(1,3,4) format_016x_digits(1,4) [of n]
    by (simp add: parse_opoi_def Let_def COINBASE_MIN_BINARY_HEADER_def m nth_append nonce_of_format)
qed

end
