(* ===== verification/Reward_Params.thy ===== *)
theory Reward_Params
  imports Rust_Prelude
begin

text \<open>
  The reward schedules and the fork gates of \<^verbatim>\<open>src/consensus/core/src/config/params.rs\<close>: tier rewards,
  holder-ratio brackets, \<^verbatim>\<open>ForkActivation\<close>.  The lemmas show that the bracket scan never panics on the
  two tables, that a multiplier lies between the floor of its table and the full 10000, and that it
  grows with the balance and shrinks with the production.
\<close>

section \<open>Fork gates\<close>

type_synonym ForkActivation = u64

definition fork_never :: ForkActivation where "fork_never = - 1"
definition fork_always :: ForkActivation where "fork_always = 0"

definition is_active :: "ForkActivation \<Rightarrow> u64 \<Rightarrow> bool" where
  "is_active self current_daa_score = (current_daa_score \<ge> self)"

definition is_within_range_from_activation :: "ForkActivation \<Rightarrow> u64 \<Rightarrow> u64 \<Rightarrow> bool option" where
  "is_within_range_from_activation self current_daa_score rng =
     (if self \<noteq> fork_always \<and> is_active self current_daa_score
      then map_option (\<lambda>bound. current_daa_score < bound) (checked_add self rng)
      else Some False)"

definition is_within_range_before_activation :: "ForkActivation \<Rightarrow> u64 \<Rightarrow> u64 \<Rightarrow> u64 option option" where
  "is_within_range_before_activation self current_daa_score rng =
     (if \<not> is_active self current_daa_score
      then checked_add current_daa_score rng \<bind> (\<lambda>bound.
        if bound > self then map_option Some (checked_sub self current_daa_score) else Some None)
      else Some None)"

section \<open>Tier rewards\<close>

definition TIER_REWARD_BPS :: "u64 list" where
  "TIER_REWARD_BPS = [8200, 8800, 9400, 10000]"
definition TIER_REWARD_BPS_H2 :: "u64 list" where
  "TIER_REWARD_BPS_H2 = [6800, 7600, 8400, 9200, 10000]"
definition TIER_REWARD_BPS_H6 :: "u64 list" where
  "TIER_REWARD_BPS_H6 = [6000, 7000, 8000, 9000, 10000]"

definition tier_reward_bps :: "bool \<Rightarrow> bool \<Rightarrow> u64 list" where
  "tier_reward_bps very_light_active pom_v3_active =
     (if pom_v3_active then TIER_REWARD_BPS_H6
      else if very_light_active then TIER_REWARD_BPS_H2
      else TIER_REWARD_BPS)"

definition TIER_REWARD_BPS_DIVISOR :: u64 where "TIER_REWARD_BPS_DIVISOR = 10000"

section \<open>Holder ratios\<close>

definition RATIO_REWARD_BPS :: "u64 list" where
  "RATIO_REWARD_BPS = [4000, 5200, 6400, 7600, 8800, 10000]"
definition RATIO_REWARD_BPS_DIVISOR :: u64 where "RATIO_REWARD_BPS_DIVISOR = 10000"
definition RATIO_REWARD_THRESHOLDS :: "u64 list" where
  "RATIO_REWARD_THRESHOLDS = [0, 1, 3, 7, 15, 30]"
definition RATIO_REWARD_BPS_V2 :: "u64 list" where
  "RATIO_REWARD_BPS_V2 = [5000, 5500, 6000, 6500, 7000, 7500, 8000, 9000, 10000]"
definition RATIO_REWARD_THRESHOLDS_V2 :: "u64 list" where
  "RATIO_REWARD_THRESHOLDS_V2 = [0, 3, 7, 15, 30, 45, 60, 75, 90]"

text \<open>The loop over the brackets; the product is taken in 128 bits, an index out of range panics.\<close>

fun bracket_loop :: "u64 \<Rightarrow> u64 \<Rightarrow> u64 list \<Rightarrow> u64 list \<Rightarrow> nat list \<Rightarrow> u64 \<Rightarrow> u64 option" where
  "bracket_loop balance production thresholds bps_table [] bps = Some bps"
| "bracket_loop balance production thresholds bps_table (i # is) bps =
     checked_mul (ucast (thresholds ! i) :: u128) (ucast production) \<bind> (\<lambda>product.
       if (ucast balance :: u128) \<ge> product
       then (if i < length bps_table
             then bracket_loop balance production thresholds bps_table is (bps_table ! i) else None)
       else Some bps)"

definition ratio_bracket_bps :: "u64 \<Rightarrow> u64 \<Rightarrow> u64 list \<Rightarrow> u64 list \<Rightarrow> u64 option" where
  "ratio_bracket_bps balance production thresholds bps_table =
     (if bps_table = [] then None
      else bracket_loop balance production thresholds bps_table [0..<length thresholds] (bps_table ! 0))"

definition ratio_reward_bps :: "u64 \<Rightarrow> u64 \<Rightarrow> u64 option" where
  "ratio_reward_bps balance production =
     ratio_bracket_bps balance production RATIO_REWARD_THRESHOLDS RATIO_REWARD_BPS"

definition ratio_reward_bps_v2 :: "u64 \<Rightarrow> u64 \<Rightarrow> u64 option" where
  "ratio_reward_bps_v2 balance production =
     ratio_bracket_bps balance production RATIO_REWARD_THRESHOLDS_V2 RATIO_REWARD_BPS_V2"

section \<open>The bracket of a ratio\<close>

text \<open>The brackets reached: those before the first threshold above the ratio.\<close>

definition reached :: "u64 \<Rightarrow> u64 \<Rightarrow> u64 list \<Rightarrow> nat" where
  "reached balance production thresholds =
     length (takeWhile (\<lambda>t. unat t * unat production \<le> unat balance) thresholds)"

lemma checked_mul_wide:
  fixes a b :: u64
  shows "\<exists>p. checked_mul (ucast a :: u128) (ucast b) = Some p \<and> unat p = unat a * unat b"
proof -
  have wide: "unat (ucast x :: u128) = unat x" for x :: u64 by (rule unat_ucast_wide) simp
  have "unat a * unat b < 2 ^ 64 * 2 ^ 64"
    using unat_lt [of a] unat_lt [of b] by (intro mult_strict_mono) simp_all
  then obtain p where "checked_mul (ucast a :: u128) (ucast b) = Some p"
    by (cases "checked_mul (ucast a :: u128) (ucast b)") (auto simp: checked_mul_eq_None wide)
  then show ?thesis by (auto simp: checked_mul_eq_Some wide)
qed

lemma bracket_loop_reached:
  assumes "length bps_table = length thresholds" "i \<le> length thresholds"
  shows "bracket_loop b p thresholds bps_table [i..<length thresholds] bps
    = Some (if reached b p (drop i thresholds) = 0 then bps
            else bps_table ! (i + reached b p (drop i thresholds) - 1))"
  using assms(2)
proof (induction "length thresholds - i" arbitrary: i bps)
  case 0
  then show ?case by (simp add: reached_def)
next
  case (Suc n)
  then have i: "i < length thresholds" by simp
  obtain q where q: "checked_mul (ucast (thresholds ! i) :: u128) (ucast p) = Some q"
    "unat q = unat (thresholds ! i) * unat p" using checked_mul_wide by blast
  have le: "q \<le> ucast b \<longleftrightarrow> unat (thresholds ! i) * unat p \<le> unat b"
    using q(2) unat_ucast_wide [of b, where 'b = 128] by (simp add: word_le_nat_alt)
  have head: "drop i thresholds = thresholds ! i # drop (Suc i) thresholds"
    using i by (simp add: Cons_nth_drop_Suc)
  have IH: "bracket_loop b p thresholds bps_table [Suc i..<length thresholds] (bps_table ! i)
    = Some (if reached b p (drop (Suc i) thresholds) = 0 then bps_table ! i
            else bps_table ! (Suc i + reached b p (drop (Suc i) thresholds) - 1))"
    using Suc.hyps i by (intro Suc.hyps(1)) simp_all
  show ?case
    unfolding upt_conv_Cons [OF i] head using i IH assms(1) q(1) le by (simp add: reached_def)
qed

lemma ratio_bracket_reached:
  assumes "length bps_table = length thresholds" "thresholds \<noteq> []" "thresholds ! 0 = 0"
  shows "0 < reached b p thresholds \<and> reached b p thresholds \<le> length thresholds
    \<and> ratio_bracket_bps b p thresholds bps_table = Some (bps_table ! (reached b p thresholds - 1))"
proof -
  have pos: "0 < reached b p thresholds" using assms(2,3) by (cases thresholds) (auto simp: reached_def)
  moreover have "reached b p thresholds \<le> length thresholds"
    unfolding reached_def by (rule length_takeWhile_le)
  ultimately show ?thesis
    using bracket_loop_reached [OF assms(1), of 0 b p] assms(1,2) by (auto simp: ratio_bracket_bps_def)
qed

lemma reached_mono:
  assumes "unat b \<le> unat b'" "unat p' \<le> unat p"
  shows "reached b p thresholds \<le> reached b' p' thresholds"
proof (induction thresholds)
  case (Cons t ts)
  have "unat t * unat p' \<le> unat t * unat p" using assms(2) by (rule mult_left_mono) simp
  then have "unat t * unat p' \<le> unat b'" if "unat t * unat p \<le> unat b"
    using that assms(1) by linarith
  then show ?case using Cons by (auto simp: reached_def)
qed (simp add: reached_def)

text \<open>Never a panic; within the table; more balance or less production never pays less.\<close>

lemma ratio_reward_brackets:
  assumes "length bps_table = length thresholds" "thresholds \<noteq> []" "thresholds ! 0 = 0" "sorted bps_table"
    and "b \<le> b'" "p' \<le> p"
  shows "\<exists>x y. ratio_bracket_bps b p thresholds bps_table = Some x
    \<and> ratio_bracket_bps b' p' thresholds bps_table = Some y
    \<and> hd bps_table \<le> x \<and> x \<le> y \<and> y \<le> last bps_table"
proof -
  note r = ratio_bracket_reached [OF assms(1-3), of b p] ratio_bracket_reached [OF assms(1-3), of b' p']
  have "reached b p thresholds \<le> reached b' p' thresholds"
    using assms(5,6) by (intro reached_mono) (simp_all add: word_le_nat_alt)
  then have "bps_table ! (reached b p thresholds - 1) \<le> bps_table ! (reached b' p' thresholds - 1)"
    using assms(1,4) r by (intro sorted_nth_mono) auto
  moreover have "hd bps_table \<le> bps_table ! (reached b p thresholds - 1)"
  proof -
    have ne: "bps_table \<noteq> []" using assms(1,2) by auto
    show ?thesis unfolding hd_conv_nth [OF ne] using assms(1,4) r ne by (intro sorted_nth_mono) auto
  qed
  moreover have "bps_table ! (reached b' p' thresholds - 1) \<le> last bps_table"
  proof -
    have ne: "bps_table \<noteq> []" using assms(1,2) by auto
    show ?thesis unfolding last_conv_nth [OF ne] using assms(1,4) r ne by (intro sorted_nth_mono) auto
  qed
  ultimately show ?thesis using r by auto
qed

lemma ratio_reward_monotone:
  assumes "b \<le> b'" "p' \<le> p"
  shows "\<exists>x y. ratio_reward_bps b p = Some x \<and> ratio_reward_bps b' p' = Some y
      \<and> 4000 \<le> x \<and> x \<le> y \<and> y \<le> RATIO_REWARD_BPS_DIVISOR"
    and "\<exists>x y. ratio_reward_bps_v2 b p = Some x \<and> ratio_reward_bps_v2 b' p' = Some y
      \<and> 5000 \<le> x \<and> x \<le> y \<and> y \<le> RATIO_REWARD_BPS_DIVISOR"
  using ratio_reward_brackets [OF _ _ _ _ assms, of RATIO_REWARD_BPS RATIO_REWARD_THRESHOLDS]
    ratio_reward_brackets [OF _ _ _ _ assms, of RATIO_REWARD_BPS_V2 RATIO_REWARD_THRESHOLDS_V2]
  by (simp_all add: ratio_reward_bps_def ratio_reward_bps_v2_def RATIO_REWARD_BPS_def
      RATIO_REWARD_THRESHOLDS_def RATIO_REWARD_BPS_V2_def RATIO_REWARD_THRESHOLDS_V2_def
      RATIO_REWARD_BPS_DIVISOR_def)

lemma tier_reward_range: "list_all (\<lambda>bps. 6000 \<le> bps \<and> bps \<le> TIER_REWARD_BPS_DIVISOR) (tier_reward_bps v p)"
  by (simp add: tier_reward_bps_def TIER_REWARD_BPS_def TIER_REWARD_BPS_H2_def TIER_REWARD_BPS_H6_def
      TIER_REWARD_BPS_DIVISOR_def)

end
