(* ===== verification/Address_Text.thy ===== *)
theory Address_Text
  imports Addresses
begin

unbundle bit_operations_syntax

text \<open>
  The text form of addresses: regrouping between five-bit and eight-bit symbols is exact, the
  checksum separates addresses that differ in one symbol, and the text of an address decodes to it.
\<close>

section \<open>The number that a list of symbols spells\<close>

definition horner :: "nat \<Rightarrow> u8 list \<Rightarrow> nat" where
  "horner w xs = foldl (\<lambda>a x. a * 2 ^ w + unat x) 0 xs"

abbreviation symbols :: "nat \<Rightarrow> u8 list \<Rightarrow> bool" where
  "symbols w xs \<equiv> list_all (\<lambda>x. unat x < 2 ^ w) xs"

lemma horner_Nil [simp]: "horner w [] = 0"
  by (simp add: horner_def)

lemma horner_snoc [simp]: "horner w (xs @ [x]) = horner w xs * 2 ^ w + unat x"
  by (simp add: horner_def)

lemma digit_less: "a < A \<Longrightarrow> b < B \<Longrightarrow> a * B + b < A * (B :: nat)"
proof -
  assume "a < A" "b < B"
  then have "a * B + b < (a + 1) * B" by simp
  also have "\<dots> \<le> A * B" using \<open>a < A\<close> by (intro mult_right_mono) simp_all
  finally show ?thesis .
qed

lemma horner_less: "symbols w xs \<Longrightarrow> horner w xs < 2 ^ (w * length xs)"
proof (induction xs rule: rev_induct)
  case (snoc x xs)
  then have "horner w xs * 2 ^ w + unat x < 2 ^ (w * length xs) * 2 ^ w" by (intro digit_less) simp_all
  then show ?case by (simp add: power_add mult.commute)
qed simp

lemma horner_inject:
  "length xs = length ys \<Longrightarrow> symbols w xs \<Longrightarrow> symbols w ys \<Longrightarrow> horner w xs = horner w ys \<Longrightarrow> xs = ys"
proof (induction xs arbitrary: ys rule: rev_induct)
  case (snoc x xs)
  then obtain zs z where ys: "ys = zs @ [z]" by (cases ys rule: rev_cases) auto
  have eq: "horner w xs * 2 ^ w + unat x = horner w zs * 2 ^ w + unat z"
    and lt: "unat x < 2 ^ w" "unat z < 2 ^ w"
    using snoc.prems by (simp_all add: ys)
  from eq lt have "unat x = unat z"
    by (metis mod_less mod_mult_self3)
  with eq have "x = z" "horner w xs = horner w zs" by (simp_all add: word_unat_eq_iff)
  with snoc show ?case by (simp add: ys)
qed simp

section \<open>Regrouping is exact\<close>

text \<open>
  The state after some input: the array holds the leading digits, the buffer the bits that do not
  yet fill one, and together they spell the input.
\<close>

definition conv_inv :: "nat \<Rightarrow> nat \<Rightarrow> conv_state \<Rightarrow> bool" where
  "conv_inv w spelt s = (case s of (out, idx, buff, bits) \<Rightarrow>
     idx \<le> length out \<and> symbols w (take idx out) \<and> unat buff < 2 ^ bits
     \<and> horner w (take idx out) * 2 ^ bits + unat buff = spelt)"

lemma unat_drop_bit: "unat (drop_bit b x) = unat x div 2 ^ b"
  unfolding unat_drop_bit_eq by (rule drop_bit_eq_div)

lemma unat_and_mask: "unat (buff AND (push_bit b 1 - 1) :: u16) = unat buff mod 2 ^ b"
proof -
  have "push_bit b 1 - 1 = (mask b :: u16)" by (simp add: mask_eq_exp_minus_1 push_bit_eq_mult)
  then have "unat (buff AND (push_bit b 1 - 1)) = take_bit b (unat buff)"
    unfolding unsigned_take_bit_eq [symmetric] by (simp add: take_bit_eq_mask)
  then show ?thesis by (simp add: take_bit_eq_mod)
qed

lemma conv_emit_inv:
  assumes "0 < w" "w \<le> 8" "bits < 16" "idx + bits div w \<le> length out"
    and "conv_inv w spelt (out, idx, buff, bits)"
  shows "\<exists>out' buff'. conv_emit w (out, idx, buff, bits) = Some (out', idx + bits div w, buff', bits mod w)
    \<and> length out' = length out \<and> conv_inv w spelt (out', idx + bits div w, buff', bits mod w)"
  using assms
proof (induction w "(out, idx, buff, bits)" arbitrary: out idx buff bits rule: conv_emit.induct)
  case (1 w out idx buff bits)
  show ?case
  proof (cases "w \<le> bits")
    case False
    then show ?thesis using 1(3-) by (simp add: conv_emit.simps [of w out])
  next
    case True
    let ?b = "bits - w"
    let ?out = "out[idx := ucast (drop_bit ?b buff)]" and ?buff = "buff AND (push_bit ?b 1 - 1)"
    have div: "bits div w = Suc (?b div w)" and mod: "bits mod w = ?b mod w"
      using True \<open>0 < w\<close> by (simp_all add: le_div_geq le_mod_geq)
    have idx: "idx < length out" using 1(5) div by simp
    have inv: "unat buff < 2 ^ bits" "horner w (take idx out) * 2 ^ bits + unat buff = spelt"
      "symbols w (take idx out)" using 1(6) by (simp_all add: conv_inv_def)
    have bits: "(2::nat) ^ bits = 2 ^ w * 2 ^ ?b" using True by (simp add: power_add [symmetric])
    have small: "unat buff div 2 ^ ?b < 2 ^ w"
      using inv(1) bits by (simp add: less_mult_imp_div_less)
    moreover have "(2::nat) ^ w \<le> 2 ^ 8" using \<open>w \<le> 8\<close> by (intro power_increasing) auto
    ultimately have digit: "unat (ucast (drop_bit ?b buff) :: u8) = unat buff div 2 ^ ?b"
      unfolding unsigned_ucast_eq unat_drop_bit by (simp add: take_bit_eq_mod)
    have rest: "unat ?buff = unat buff mod 2 ^ ?b" by (rule unat_and_mask)
    have taken: "take (Suc idx) ?out = take idx out @ [ucast (drop_bit ?b buff)]"
      using idx by (simp add: take_Suc_conv_app_nth)
    have "conv_inv w spelt (?out, idx + 1, ?buff, ?b)"
      using inv idx small bits
      by (auto simp: conv_inv_def taken digit rest [simplified] add_mult_distrib mult.assoc
          div_mult_mod_eq)
    then show ?thesis
      using 1(1) [OF _ refl idx] 1(2-5) True idx div mod
      by (auto simp: conv_emit.simps [of w out] Let_def)
  qed
qed

lemma unat_shift_or:
  fixes buff :: u16 and c :: u8
  assumes "unat buff < 2 ^ bits" "bits + k \<le> 16" "unat c < 2 ^ k"
  shows "unat (push_bit k buff OR ucast c) = unat buff * 2 ^ k + unat c"
proof -
  have "unat buff * 2 ^ k < 2 ^ bits * 2 ^ k" using assms(1) by simp
  also have "\<dots> \<le> 2 ^ 16" unfolding power_add [symmetric] using assms(2) by (intro power_increasing) auto
  finally have shift: "unat (push_bit k buff) = push_bit k (unat buff)"
    unfolding unsigned_push_bit_eq by (simp add: take_bit_eq_mod push_bit_eq_mult)
  have "\<not> bit (unat c) n" if "k \<le> n" for n
    using assms(3) that by (metis bit_take_bit_iff linorder_not_less take_bit_nat_eq_self)
  then have "push_bit k (unat buff) + unat c = push_bit k (unat buff) OR unat c"
    by (intro disjunctive_add_eq_or) (auto simp: bit_push_bit_iff_nat bit_eq_iff bit_and_iff)
  moreover have "unat (ucast c :: u16) = unat c" by (rule unat_ucast_wide) simp
  ultimately show ?thesis
    unfolding unsigned_or_eq shift by (simp add: push_bit_eq_mult)
qed

lemma div_add_step: "0 < w \<Longrightarrow> T div w + (T mod w + k) div w = (T + k) div (w :: nat)"
proof -
  assume "0 < w"
  have "T + k = (T mod w + k) + (T div w) * w" using div_mult_mod_eq [of T w] by linarith
  then have "(T + k) div w = ((T mod w + k) + (T div w) * w) div w" by simp
  also have "\<dots> = T div w + (T mod w + k) div w" using \<open>0 < w\<close> by (subst div_mult_self1) auto
  finally show ?thesis by simp
qed

lemma conv_fold:
  assumes "0 < w" "w \<le> 8" "w + k \<le> 16"
  shows "symbols k xs \<Longrightarrow> (k * length xs) div w \<le> length out \<Longrightarrow>
    \<exists>out' buff'. foldM (conv_symbol k w) (out, 0, 0, 0) xs
        = Some (out', (k * length xs) div w, buff', (k * length xs) mod w)
      \<and> length out' = length out
      \<and> conv_inv w (horner k xs) (out', (k * length xs) div w, buff', (k * length xs) mod w)"
proof (induction xs rule: rev_induct)
  case Nil
  then show ?case by (simp add: conv_inv_def)
next
  case (snoc x xs)
  let ?T = "k * length xs"
  have le: "?T div w \<le> (k * length (xs @ [x])) div w" by (intro div_le_mono) simp
  obtain out' buff' where IH: "foldM (conv_symbol k w) (out, 0, 0, 0) xs = Some (out', ?T div w, buff', ?T mod w)"
    "length out' = length out" "conv_inv w (horner k xs) (out', ?T div w, buff', ?T mod w)"
    using snoc le by auto
  have bits: "?T mod w + k < 16" using assms(3) mod_less_divisor [OF assms(1), of ?T] by linarith
  let ?buff = "push_bit k buff' OR ucast x"
  have buff: "unat ?buff = unat buff' * 2 ^ k + unat x"
    using IH(3) snoc.prems(1) bits by (intro unat_shift_or) (auto simp: conv_inv_def)
  have small: "unat buff' * 2 ^ k + unat x < 2 ^ (?T mod w + k)"
    using IH(3) snoc.prems(1) unfolding power_add by (intro digit_less) (auto simp: conv_inv_def)
  have h: "horner w (take (?T div w) out') * 2 ^ (?T mod w) + unat buff' = horner k xs"
    using IH(3) by (simp add: conv_inv_def)
  have inv: "conv_inv w (horner k (xs @ [x])) (out', ?T div w, ?buff, ?T mod w + k)"
    using small h IH(3) by (simp add: conv_inv_def buff h [symmetric] power_add add_mult_distrib2 add_mult_distrib mult.assoc)
  have room: "?T div w + (?T mod w + k) div w \<le> length out'"
    using snoc.prems(2) IH(2) div_add_step [OF assms(1), of ?T k] by (simp add: algebra_simps)
  have step: "conv_symbol k w (out', ?T div w, buff', ?T mod w) x
      = conv_emit w (out', ?T div w, ?buff, ?T mod w + k)" by (simp add: conv_symbol_def)
  have len: "k * length (xs @ [x]) = ?T + k" by simp
  show ?case
    unfolding len using IH(1,2)
      conv_emit_inv [OF assms(1,2) bits room inv, unfolded div_add_step [OF assms(1)] mod_add_left_eq]
    by (simp add: foldM_append step)
qed

lemma groups_of_5:
  assumes "T = 5 * q + (r :: nat)" and "r < 5"
  shows "(T + 4) div 5 = (if r = 0 then q else Suc q)"
    and "5 * (if r = 0 then q else Suc q) - T = (if r = 0 then 0 else 5 - r)"
  using assms by (auto intro!: div_nat_eqI)

lemma groups_of_8:
  assumes "m = (8 * n + 4) div (5 :: nat)"
  shows "5 * m div 8 = n" and "5 * m mod 8 = 5 * m - 8 * n"
proof -
  have "8 * n + 4 = 5 * m + (8 * n + 4) mod 5" using assms by simp
  moreover have "(8 * n + 4) mod 5 < 5" by simp
  ultimately have b: "8 * n \<le> 5 * m" "5 * m < 8 * n + 8" by linarith+
  then show d: "5 * m div 8 = n" by (intro div_nat_eqI) simp_all
  show "5 * m mod 8 = 5 * m - 8 * n" unfolding d [symmetric] by (simp add: minus_mult_div_eq_mod)
qed
lemma conv8to5_spells:
  "\<exists>ys. conv8to5 xs = Some ys \<and> length ys = (8 * length xs + 4) div 5 \<and> symbols 5 ys
     \<and> horner 5 ys = horner 8 xs * 2 ^ (5 * length ys - 8 * length xs)"
proof -
  let ?T = "8 * length xs" and ?pad = "if length xs mod 5 = 0 then 0 else 1 :: nat"
  let ?out = "replicate (length xs * 8 div 5 + ?pad) (0 :: u8)"
  have xs: "symbols 8 xs" using unsigned_less [where 'b = 8 and 'a = nat] by (simp add: list_all_iff)
  obtain out buff where run: "foldM (conv_symbol 8 5) (?out, 0, 0, 0) xs = Some (out, ?T div 5, buff, ?T mod 5)"
    and len: "length out = length xs * 8 div 5 + ?pad"
    and inv: "conv_inv 5 (horner 8 xs) (out, ?T div 5, buff, ?T mod 5)"
    using conv_fold [of 5 8 xs ?out] xs by (auto simp: mult.commute)
  have pad: "length xs mod 5 = 0 \<longleftrightarrow> ?T mod 5 = 0" by presburger
  have inv': "symbols 5 (take (?T div 5) out)" "unat buff < 2 ^ (?T mod 5)"
    "horner 5 (take (?T div 5) out) * 2 ^ (?T mod 5) + unat buff = horner 8 xs"
    using inv by (simp_all add: conv_inv_def)
  have T: "?T = 5 * (?T div 5) + ?T mod 5" "?T mod 5 < 5" by simp_all
  show ?thesis
  proof (cases "?T mod 5 = 0")
    case True
    then have full: "length out = ?T div 5" using len pad by (simp add: mult.commute)
    have conv: "conv8to5 xs = Some out" using run True by (simp add: conv8to5_def Let_def)
    have "symbols 5 out" "horner 5 out = horner 8 xs" using inv' full True by simp_all
    then show ?thesis
      using conv full groups_of_5 [OF T] True by (intro exI [of _ out]) simp
  next
    case False
    let ?b = "?T mod 5" and ?i = "?T div 5"
    let ?d = "ucast (push_bit (5 - ?b) buff) :: u8"
    have b: "0 < ?b" "?b < 5" using False by simp_all
    have i: "length out = Suc ?i" "(?T + 4) div 5 = Suc ?i" "5 * Suc ?i - ?T = 5 - ?b"
      using len pad False groups_of_5 [OF T] by (simp_all add: mult.commute)
    have "unat buff * 2 ^ (5 - ?b) < 2 ^ ?b * 2 ^ (5 - ?b)" using inv'(2) by simp
    also have "\<dots> = 2 ^ 5" using b unfolding power_add [symmetric] by simp
    finally have small: "unat buff * 2 ^ (5 - ?b) < 32" by simp
    have p: "unat (push_bit (5 - ?b) buff) = unat buff * 2 ^ (5 - ?b)"
      unfolding unsigned_push_bit_eq using small by (simp add: take_bit_eq_mod push_bit_eq_mult)
    have d: "unat ?d = unat buff * 2 ^ (5 - ?b)"
      unfolding unsigned_ucast_eq p using small by (simp add: take_bit_eq_mod)
    have out: "out[?i := ?d] = take ?i out @ [?d]"
      using i(1) by (simp add: list_update_append take_Suc_conv_app_nth upd_conv_take_nth_drop)
    have pow: "(2::nat) ^ 5 = 2 ^ ?b * 2 ^ (5 - ?b)" using b unfolding power_add [symmetric] by simp
    have "horner 5 (take ?i out) * 2 ^ 5 + unat buff * 2 ^ (5 - ?b)
        = (horner 5 (take ?i out) * 2 ^ ?b + unat buff) * 2 ^ (5 - ?b)"
      unfolding pow by (simp add: add_mult_distrib)
    then have "horner 5 (out[?i := ?d]) = horner 8 xs * 2 ^ (5 - ?b)"
      unfolding out horner_snoc d inv'(3) .
    moreover have "symbols 5 (out[?i := ?d])" unfolding out using inv'(1) small d by simp
    moreover have "conv8to5 xs = Some (out[?i := ?d])"
      using run b i(1) pad False by (simp add: conv8to5_def Let_def)
    ultimately show ?thesis using i by auto
  qed
qed

lemma conv5to8_spells:
  assumes "symbols 5 xs"
  shows "\<exists>ys r. conv5to8 xs = Some ys \<and> length ys = 5 * length xs div 8
     \<and> horner 8 ys * 2 ^ (5 * length xs mod 8) + r = horner 5 xs \<and> r < 2 ^ (5 * length xs mod 8)"
proof -
  let ?T = "5 * length xs" let ?out = "replicate (length xs * 5 div 8) (0 :: u8)"
  obtain out buff where "foldM (conv_symbol 5 8) (?out, 0, 0, 0) xs = Some (out, ?T div 8, buff, ?T mod 8)"
    "length out = length xs * 5 div 8" "conv_inv 8 (horner 5 xs) (out, ?T div 8, buff, ?T mod 8)"
    using conv_fold [of 8 5 xs ?out] assms by (auto simp: mult.commute)
  then show ?thesis by (auto simp: conv5to8_def conv_inv_def mult.commute)
qed

lemma symbols8 [simp]: "symbols 8 xs"
  using unsigned_less [where 'b = 8 and 'a = nat] by (simp add: list_all_iff)

lemma digits_cancel: "a * P + r = b * P \<Longrightarrow> r < P \<Longrightarrow> a = (b :: nat)"
proof -
  assume eq: "a * P + r = b * P" and r: "r < P"
  have "a = (a * P + r) div P" "b = (b * P) div P" using r by simp_all
  then show "a = b" using eq by simp
qed

lemma conv_roundtrip: "conv8to5 xs \<bind> conv5to8 = Some xs"
proof -
  obtain ys where ys: "conv8to5 xs = Some ys" "length ys = (8 * length xs + 4) div 5" "symbols 5 ys"
    "horner 5 ys = horner 8 xs * 2 ^ (5 * length ys - 8 * length xs)"
    using conv8to5_spells by blast
  obtain zs r where zs: "conv5to8 ys = Some zs" "length zs = 5 * length ys div 8"
    "horner 8 zs * 2 ^ (5 * length ys mod 8) + r = horner 5 ys" "r < 2 ^ (5 * length ys mod 8)"
    using conv5to8_spells [OF ys(3)] by blast
  have n: "5 * length ys div 8 = length xs" "5 * length ys mod 8 = 5 * length ys - 8 * length xs"
    using groups_of_8 [OF ys(2)] by simp_all
  have "horner 8 zs * 2 ^ (5 * length ys mod 8) + r = horner 8 xs * 2 ^ (5 * length ys mod 8)"
    using zs(3) ys(4) n(2) by simp
  then have "horner 8 zs = horner 8 xs"
    using zs(4) by (rule digits_cancel)
  then have "zs = xs" using zs(2) n(1) by (intro horner_inject [OF _ symbols8 symbols8]) simp_all
  then show ?thesis using ys(1) zs(1) by simp
qed

section \<open>The checksum\<close>

definition generators :: "u64 \<Rightarrow> u64" where
  "generators x =
     (if bit x 0 then 0x98f2bc8e61 else 0) XOR (if bit x 1 then 0x79b76d99e2 else 0)
     XOR (if bit x 2 then 0xf33e5fb3c4 else 0) XOR (if bit x 3 then 0xae2eabe2a8 else 0)
     XOR (if bit x 4 then 0x1e4f43e470 else 0)"

lemma and_numeral_bit:
  "(x :: u64) AND 0x01 \<noteq> 0 \<longleftrightarrow> bit x 0" "x AND 0x02 \<noteq> 0 \<longleftrightarrow> bit x 1" "x AND 0x04 \<noteq> 0 \<longleftrightarrow> bit x 2"
  "x AND 0x08 \<noteq> 0 \<longleftrightarrow> bit x 3" "x AND 0x10 \<noteq> 0 \<longleftrightarrow> bit x 4"
  using and_exp_eq_0_iff_not_bit [of x 0] and_exp_eq_0_iff_not_bit [of x 1]
    and_exp_eq_0_iff_not_bit [of x 2] and_exp_eq_0_iff_not_bit [of x 3] and_exp_eq_0_iff_not_bit [of x 4]
  by simp_all

lemma xor_if: "(if P then c XOR g else c) = c XOR (if P then g else (0 :: u64))"
  by simp

lemma mask35: "0x07ffffffff = (mask 35 :: u64)"
  by (simp add: mask_eq_exp_minus_1)

lemma polymod_step_alt:
  "polymod_step c d = (push_bit 5 (take_bit 35 c) XOR ucast d) XOR generators (drop_bit 35 c)"
  unfolding polymod_step_def Let_def and_numeral_bit xor_if generators_def mask35 take_bit_eq_mask
  by (simp only: xor.assoc)

lemma bit_if: "bit (if P then g else (0 :: u64)) n \<longleftrightarrow> P \<and> bit g n"
  by simp

lemma take_bit_if: "take_bit k (if P then g else (0 :: u64)) = (if P then take_bit k g else 0)"
  by simp

lemma generators_fit: "take_bit 40 (generators x) = generators x"
  unfolding generators_def take_bit_xor take_bit_if by (simp split del: if_split cong: if_cong)

lemma generators_bits:
  "bit (generators x) 0 = bit x 0" "bit (generators x) 1 = bit x 1" "bit (generators x) 2 = bit x 2"
  "bit (generators x) 3 = bit x 3" "bit (generators x) 4 = bit x 4"
  unfolding generators_def bit_xor_iff bit_if by simp_all

lemma generators_low: "take_bit 5 (generators x) = take_bit 5 x"
proof (rule bit_word_eqI)
  fix n :: nat
  have "n < 5 \<Longrightarrow> n = 0 \<or> n = 1 \<or> n = 2 \<or> n = 3 \<or> n = 4" by arith
  then show "bit (take_bit 5 (generators x)) n \<longleftrightarrow> bit (take_bit 5 x) n"
    unfolding bit_take_bit_iff using generators_bits [of x] by blast
qed

lemma polymod_step_fits [simp]: "take_bit 40 (polymod_step c d) = polymod_step c d"
proof -
  have "take_bit 40 (push_bit 5 (take_bit 35 c)) = push_bit 5 (take_bit 35 c)"
    by (rule bit_word_eqI) (auto simp: bit_take_bit_iff bit_push_bit_iff)
  moreover have "take_bit 40 (ucast d :: u64) = ucast d"
    by (rule bit_word_eqI) (auto simp: bit_take_bit_iff bit_ucast_iff dest: bit_imp_le_length)
  ultimately show ?thesis by (simp add: polymod_step_alt take_bit_xor generators_fit)
qed

lemma fits_top: "take_bit 40 c = c \<Longrightarrow> drop_bit 35 c = take_bit 5 (drop_bit 35 (c :: u64))"
  using drop_bit_take_bit [of 35 40 c] by simp

lemma xor_cancel: "(x :: u64) XOR a = x XOR b \<longleftrightarrow> a = b" "a XOR x = b XOR x \<longleftrightarrow> a = (b :: u64)"
proof -
  have cancel: "x XOR (x XOR y) = y" for y by (simp add: xor.assoc [symmetric])
  show "x XOR a = x XOR b \<longleftrightarrow> a = b" by (metis cancel)
  then show "a XOR x = b XOR x \<longleftrightarrow> a = b" by (simp add: xor.commute)
qed

lemma push_bit_5_cancel: "push_bit 5 (take_bit 35 c) = push_bit 5 (take_bit 35 c') \<longleftrightarrow> take_bit 35 c = take_bit 35 (c' :: u64)"
proof
  assume eq: "push_bit 5 (take_bit 35 c) = push_bit 5 (take_bit 35 c')"
  show "take_bit 35 c = take_bit 35 c'"
  proof (rule bit_word_eqI)
    fix n :: nat
    have "bit (push_bit 5 (take_bit 35 c)) (n + 5) = bit (push_bit 5 (take_bit 35 c')) (n + 5)"
      by (simp only: eq)
    then show "bit (take_bit 35 c) n \<longleftrightarrow> bit (take_bit 35 c') n"
      by (auto simp: bit_push_bit_iff bit_take_bit_iff)
  qed
qed simp

lemma polymod_step_inject_state:
  assumes "take_bit 40 c = c" "take_bit 40 c' = c'" "polymod_step c d = polymod_step c' d"
  shows "c = c'"
proof -
  have low: "take_bit 5 (push_bit 5 x) = (0 :: u64)" for x
    by (rule bit_word_eqI) (auto simp: bit_take_bit_iff bit_push_bit_iff)
  have "take_bit 5 (polymod_step c d) = take_bit 5 (polymod_step c' d)" using assms(3) by simp
  then have "take_bit 5 (drop_bit 35 c) = take_bit 5 (drop_bit 35 c')"
    unfolding polymod_step_alt take_bit_xor low generators_low by (simp add: xor_cancel)
  then have "drop_bit 35 c = drop_bit 35 c'"
    by (rule trans [OF fits_top [OF assms(1)] trans [OF _ fits_top [OF assms(2), symmetric]]])
  moreover from this assms(3) have "take_bit 35 c = take_bit 35 c'"
    by (simp add: polymod_step_alt xor_cancel push_bit_5_cancel)
  ultimately show ?thesis by (metis bits_ident)
qed

lemma polymod_step_inject_symbol: "polymod_step c d = polymod_step c d' \<Longrightarrow> d = d'"
proof -
  assume "polymod_step c d = polymod_step c d'"
  then have "(ucast d :: u64) = ucast d'" by (simp add: polymod_step_alt xor_cancel)
  then have "unat (ucast d :: u64) = unat (ucast d' :: u64)" by simp
  then show ?thesis by (simp add: unat_ucast_wide word_unat_eq_iff)
qed

lemma polymod_steps_inject:
  "take_bit 40 c = c \<Longrightarrow> take_bit 40 c' = c' \<Longrightarrow> foldl polymod_step c xs = foldl polymod_step c' xs \<Longrightarrow> c = c'"
proof (induction xs arbitrary: c c')
  case (Cons x xs)
  have "polymod_step c x = polymod_step c' x" using Cons.IH Cons.prems(3) by simp
  then show ?case using Cons.prems polymod_step_inject_state by blast
qed simp

lemma checksum_separates:
  assumes "i < length us" and "d \<noteq> us ! i"
  shows "checksum (us[i := d]) prefix \<noteq> checksum us prefix"
proof
  assume "checksum (us[i := d]) prefix = checksum us prefix"
  then have eq: "foldl polymod_step 1 (prefix @ [0] @ us[i := d] @ replicate 8 0)
      = foldl polymod_step 1 (prefix @ [0] @ us @ replicate 8 0)"
    by (simp add: checksum_def polymod_def xor_cancel)
  let ?c = "foldl polymod_step 1 (prefix @ [0] @ take i us)"
  have upd: "us[i := e] = take i us @ e # drop (Suc i) us" for e
    using assms(1) by (rule upd_conv_take_nth_drop)
  have run: "foldl polymod_step 1 (prefix @ [0] @ us[i := e] @ replicate 8 0)
      = foldl polymod_step (polymod_step ?c e) (drop (Suc i) us @ replicate 8 0)" for e
    by (simp add: upd)
  have "foldl polymod_step (polymod_step ?c d) (drop (Suc i) us @ replicate 8 0)
      = foldl polymod_step (polymod_step ?c (us ! i)) (drop (Suc i) us @ replicate 8 0)"
    by (rule trans [OF run [of d, symmetric] trans [OF eq run [of "us ! i", unfolded list_update_id]]])
  then have "polymod_step ?c d = polymod_step ?c (us ! i)"
    by (rule polymod_steps_inject [OF polymod_step_fits polymod_step_fits])
  then show False using assms(2) polymod_step_inject_symbol by blast
qed

lemma checksum_fits: "take_bit 40 (checksum us prefix) = checksum us prefix"
proof -
  have "take_bit 40 (foldl polymod_step c (xs @ [x])) = foldl polymod_step c (xs @ [x])" for c xs x by simp
  from this [of 1 "prefix @ [0] @ us @ replicate 7 0" 0] show ?thesis
    by (simp add: checksum_def polymod_def take_bit_xor numeral_eq_Suc)
qed

section \<open>Characters\<close>

lemma charset_table: "list_all (\<lambda>n. rev_char (CHARSET ! n) = word_of_nat n) [0..<32]"
  by code_simp

lemma rev_charset_table:
  "list_all (\<lambda>n. REV_CHARSET ! n = 100
     \<or> unat (REV_CHARSET ! n) < 32 \<and> CHARSET ! unat (REV_CHARSET ! n) = word_of_nat n) [0..<123]"
  by code_simp

lemma rev_char_charset [simp]: "unat x < 32 \<Longrightarrow> rev_char (CHARSET ! unat x) = x"
  using charset_table by (simp add: list_all_iff)

lemma rev_char_cases:
  assumes "rev_char b \<noteq> 100"
  shows "unat (rev_char b) < 32" and "CHARSET ! unat (rev_char b) = b"
proof -
  have "length REV_CHARSET = 123" by (simp add: REV_CHARSET_def)
  then have b: "unat b < 123" "rev_char b = REV_CHARSET ! unat b"
    using assms by (auto simp: rev_char_def split: if_splits)
  then have "REV_CHARSET ! unat b = 100 \<or> unat (REV_CHARSET ! unat b) < 32
      \<and> CHARSET ! unat (REV_CHARSET ! unat b) = word_of_nat (unat b)"
    using bspec [OF rev_charset_table [unfolded list_all_iff], of "unat b"] by simp
  then show "unat (rev_char b) < 32" "CHARSET ! unat (rev_char b) = b"
    using assms b(2) by auto
qed

section \<open>The checksum symbols\<close>

lemma nat_to_le_add: "nat_to_le (a + b) n = nat_to_le a n @ nat_to_le b (n div 256 ^ a)"
  by (induction a arbitrary: n) (simp_all add: div_mult2_eq)

lemma nat_to_le_zero: "nat_to_le k 0 = replicate k 0"
  by (induction k) simp_all

lemma checksum_number:
  assumes "take_bit 40 c = c"
  shows "from_le (rev (replicate 3 0 @ checksum_bytes c)) = c"
proof -
  have "take_bit 40 (unat c) = unat c"
    unfolding unsigned_take_bit_eq [symmetric] by (rule arg_cong [OF assms])
  then have "unat c < 2 ^ 40" using take_bit_nat_less_exp [of 40 "unat c"] by (simp only:)
  then have "unat c div 256 ^ 5 = 0" by simp
  then have "to_le 8 c = take 5 (to_le 8 c) @ replicate 3 0"
    using nat_to_le_add [of 5 3 "unat c"] nat_to_le_zero [of 3] unfolding to_le_def by simp
  moreover have "rev (replicate 3 0 @ checksum_bytes c) = take 5 (to_le 8 c) @ replicate 3 0"
    by (simp add: checksum_bytes_def rev_drop)
  ultimately have "rev (replicate 3 0 @ checksum_bytes c) = to_le 8 c" by metis
  then show ?thesis by simp
qed

lemma checksum_symbols:
  obtains t where "conv8to5 (checksum_bytes c) = Some t" "length t = 8" "symbols 5 t"
    "conv5to8 t = Some (checksum_bytes c)"
proof -
  obtain t where t: "conv8to5 (checksum_bytes c) = Some t" "length t = (8 * length (checksum_bytes c) + 4) div 5"
    "symbols 5 t" using conv8to5_spells by blast
  moreover have "length (checksum_bytes c) = 5" by (simp add: checksum_bytes_def)
  moreover have "conv5to8 t = Some (checksum_bytes c)"
    using conv_roundtrip [of "checksum_bytes c"] t(1) by simp
  ultimately show thesis using that by simp
qed

text \<open>What decoding makes of a text with a right checksum: the symbols regrouped, or a panic.\<close>

definition decoded :: "Prefix \<Rightarrow> u8 list option \<Rightarrow> (AddressError, Address) outcome" where
  "decoded prefix bytes = (case bytes of
     None \<Rightarrow> None
   | Some [] \<Rightarrow> None
   | Some (v # payload) \<Rightarrow>
       (case version_try_from v of
          Inl e \<Rightarrow> Err e
        | Inr version \<Rightarrow> map_option Inr (Address_new prefix version payload)))"

definition checksummed :: "Prefix \<Rightarrow> u8 list \<Rightarrow> u8 list option" where
  "checksummed prefix us =
     map_option (\<lambda>t. map (\<lambda>x. CHARSET ! unat x) (us @ t))
       (conv8to5 (checksum_bytes (checksum us (fivebit_prefix prefix))))"

lemma decode_checksummed:
  assumes "symbols 5 us" and "checksummed prefix us = Some s"
  shows "decode_payload prefix s = decoded prefix (conv5to8 us)"
proof -
  let ?c = "checksum us (fivebit_prefix prefix)"
  obtain t where t: "conv8to5 (checksum_bytes ?c) = Some t" "length t = 8" "symbols 5 t"
    "conv5to8 t = Some (checksum_bytes ?c)" by (rule checksum_symbols)
  have s: "s = map (\<lambda>x. CHARSET ! unat x) (us @ t)" using assms(2) t(1) by (simp add: checksummed_def)
  have sym: "unat x < 32" if "x \<in> set (us @ t)" for x
    using that assms(1) t(3) by (auto simp: list_all_iff)
  have rev: "map rev_char s = us @ t" unfolding s map_map by (rule map_idI) (use sym in simp)
  have no: "find (\<lambda>b. rev_char b = 100) s = None"
    unfolding s find_None_iff using sym by fastforce
  have len: "length s = length us + 8" using t(2) by (simp add: s)
  show ?thesis
    unfolding decode_payload_def no rev len Let_def
    using t(2,4) checksum_number [OF checksum_fits] by (simp add: decoded_def checksum_bytes_def)
qed

section \<open>Text and back\<close>

lemma prefix_no_colon: "58 \<notin> set (prefix_as_str p)" "prefix_try_from (prefix_as_str p) = Inr p"
  by (cases p; simp add: prefix_try_from_def)+

lemma split_once_prefix: "split_once 58 (prefix_as_str p @ 58 # t) = Some (prefix_as_str p, t)"
proof -
  have "takeWhile (\<lambda>b. b \<noteq> 58) (prefix_as_str p @ 58 # t) = prefix_as_str p"
    using prefix_no_colon(1) by (subst takeWhile_append2) auto
  moreover have "dropWhile (\<lambda>b. b \<noteq> 58) (prefix_as_str p @ 58 # t) = 58 # t"
    using prefix_no_colon(1) by (subst dropWhile_append2) auto
  ultimately show ?thesis by (simp add: split_once_def)
qed

lemma encode_payload_checksummed:
  assumes "conv8to5 (version_as_u8 (addr_version a) # addr_payload a) = Some us" "symbols 5 us"
  obtains s where "encode_payload a = Some s" "checksummed (addr_prefix a) us = Some s"
proof -
  obtain t where t: "conv8to5 (checksum_bytes (checksum us (fivebit_prefix (addr_prefix a)))) = Some t"
    "symbols 5 t" by (rule checksum_symbols)
  have "length CHARSET = 32" by (simp add: CHARSET_def)
  then have "list_all (\<lambda>x. unat x < length CHARSET) (us @ t)"
    using assms(2) t(2) by simp
  then show thesis
    using that [of "map (\<lambda>x. CHARSET ! unat x) (us @ t)"] assms(1) t(1)
    by (simp add: encode_payload_def checksummed_def Let_def)
qed

text \<open>
  C24: The text of an address decodes to the address.  Every address that can be constructed has a
  text form (no index leaves a table, no array write leaves its array), and parsing that text
  gives the address back.
\<close>

theorem address_text_roundtrip:
  assumes "Address_new prefix version payload = Some a"
  shows "\<exists>s. address_to_string a = Some s \<and> address_try_from s = Ok a"
proof -
  have a: "addr_prefix a = prefix" "addr_version a = version" "addr_payload a = payload"
    using assms by (auto simp: Address_new_def split: if_splits)
  let ?bytes = "version_as_u8 version # payload"
  obtain us where us: "conv8to5 ?bytes = Some us" "symbols 5 us"
    using conv8to5_spells [of ?bytes] by blast
  obtain s where s: "encode_payload a = Some s" "checksummed prefix us = Some s"
    using encode_payload_checksummed [of a us] us by (auto simp: a)
  have "conv5to8 us = Some ?bytes" using conv_roundtrip [of ?bytes] us(1) by simp
  moreover have "version_try_from (version_as_u8 version) = Inr version"
    by (cases version) (simp_all add: version_try_from_def)
  ultimately have "decode_payload prefix s = Ok a"
    using decode_checksummed [OF us(2) s(2)] assms by (simp add: decoded_def)
  then show ?thesis
    by (simp add: address_to_string_def s(1) a address_try_from_def split_once_prefix prefix_no_colon(2))
qed

theorem address_text_roundtrip_witness:
  "\<exists>a s. Address_new Testnet ScriptHash (replicate 32 7) = Some a
     \<and> address_to_string a = Some s \<and> address_try_from s = Ok a"
proof -
  obtain a where a: "Address_new Testnet ScriptHash (replicate 32 7) = Some a"
    by (simp add: Address_new_def)
  then show ?thesis using address_text_roundtrip [OF a] by blast
qed

section \<open>Wrong characters\<close>

lemma conv5to8_inject:
  assumes "symbols 5 xs" "symbols 5 ys" "length xs = 8" "length ys = 8" "conv5to8 xs = conv5to8 ys"
  shows "xs = ys"
proof -
  obtain zs r where zs: "conv5to8 xs = Some zs" "horner 8 zs * 2 ^ (5 * length xs mod 8) + r = horner 5 xs"
    "r < 2 ^ (5 * length xs mod 8)" using conv5to8_spells [OF assms(1)] by blast
  obtain ws q where ws: "conv5to8 ys = Some ws" "horner 8 ws * 2 ^ (5 * length ys mod 8) + q = horner 5 ys"
    "q < 2 ^ (5 * length ys mod 8)" using conv5to8_spells [OF assms(2)] by blast
  have "horner 5 xs = horner 5 ys" using zs ws assms(3-5) by simp
  then show ?thesis using assms by (intro horner_inject [OF _ assms(1,2)]) simp_all
qed

text \<open>The condition that decoding checks before it looks at the payload.\<close>

definition checked :: "Prefix \<Rightarrow> u8 list \<Rightarrow> bool" where
  "checked p us =
     (case conv5to8 (drop (length us - 8) us) of
        None \<Rightarrow> False
      | Some bytes \<Rightarrow> length bytes = 5
          \<and> checksum (take (length us - 8) us) (fivebit_prefix p) = from_le (rev (replicate 3 0 @ bytes)))"

lemma conv5to8_eight:
  "symbols 5 us \<Longrightarrow> length us = 8 \<Longrightarrow> \<exists>bytes. conv5to8 us = Some bytes \<and> length bytes = 5"
  using conv5to8_spells [of us] by auto

lemma decode_unchecked:
  assumes "find (\<lambda>b. rev_char b = 100) s = None" "8 \<le> length s"
  shows "decode_payload p s = (if checked p (map rev_char s)
    then decoded p (conv5to8 (take (length s - 8) (map rev_char s))) else Err BadChecksum)"
proof -
  have "symbols 5 (map rev_char s)"
    using assms(1) rev_char_cases(1) by (auto simp: list_all_iff find_None_iff)
  then have "symbols 5 (drop (length s - 8) (map rev_char s))"
    by (metis append_take_drop_id list_all_append)
  then obtain bytes where "conv5to8 (drop (length s - 8) (map rev_char s)) = Some bytes" "length bytes = 5"
    using conv5to8_eight assms(2) by fastforce
  then show ?thesis
    using assms by (auto simp: decode_payload_def Let_def checked_def decoded_def)
qed

lemma rev_char_inject: "rev_char b \<noteq> 100 \<Longrightarrow> rev_char b = rev_char c \<Longrightarrow> b = c"
  by (metis rev_char_cases(2))

lemma from_le_inject:
  assumes "length xs = 8" "length ys = 8" "(from_le xs :: u64) = from_le ys"
  shows "xs = ys"
proof -
  have "to_le 8 (from_le xs :: u64) = to_le 8 (from_le ys :: u64)" using assms(3) by simp
  then show ?thesis using to_le_from_le [OF assms(1), where 'a = 64] to_le_from_le [OF assms(2), where 'a = 64]
    by simp
qed

lemma checked_once:
  assumes "symbols 5 us" "8 \<le> length us" "i < length us" "d \<noteq> us ! i" "unat d < 32" "checked p us"
  shows "\<not> checked p (us[i := d])"
proof -
  let ?n = "length us - 8"
  have tail: "symbols 5 (drop ?n us)" using assms(1) by (metis append_take_drop_id list_all_append)
  show ?thesis
  proof (cases "i < ?n")
    case True
    then have "take ?n (us[i := d]) = (take ?n us)[i := d]" "drop ?n (us[i := d]) = drop ?n us"
      by (simp_all add: take_update_swap drop_update_cancel)
    moreover have "checksum ((take ?n us)[i := d]) (fivebit_prefix p) \<noteq> checksum (take ?n us) (fivebit_prefix p)"
      using True assms(4) by (intro checksum_separates) simp_all
    ultimately show ?thesis using assms(6) by (auto simp: checked_def split: option.splits)
  next
    case False
    let ?t = "drop ?n us" let ?t' = "?t[i - ?n := d]"
    have upd: "take ?n (us[i := d]) = take ?n us" "drop ?n (us[i := d]) = ?t'"
      using False by (simp_all add: drop_update_swap)
    have "?t' ! (i - ?n) \<noteq> ?t ! (i - ?n)" using False assms(2-4) by simp
    then have "?t' \<noteq> ?t" by metis
    have tail': "symbols 5 ?t'"
      using tail assms(5) set_update_subset_insert [of ?t "i - ?n" d] by (auto simp: list_all_iff)
    obtain b where b: "conv5to8 ?t = Some b" "length b = 5"
      using conv5to8_eight [OF tail] assms(2) by auto
    obtain b' where b': "conv5to8 ?t' = Some b'" "length b' = 5"
      using conv5to8_eight [OF tail'] assms(2) by auto
    have "b \<noteq> b'" using conv5to8_inject [OF tail tail'] \<open>?t' \<noteq> ?t\<close> b(1) b'(1) assms(2) by auto
    then have "rev (replicate 3 0 @ b) \<noteq> rev (replicate 3 0 @ b')" by simp
    then have "(from_le (rev (replicate 3 0 @ b)) :: u64) \<noteq> from_le (rev (replicate 3 0 @ b'))"
      using from_le_inject [of "rev (replicate 3 0 @ b)" "rev (replicate 3 0 @ b')"] b(2) b'(2) by auto
    then show ?thesis using assms(6) b(1) b'(1) by (simp add: checked_def upd)
  qed
qed

lemma find_first: "list_all (\<lambda>x. \<not> P x) xs \<Longrightarrow> P y \<Longrightarrow> find P (xs @ y # zs) = Some y"
  by (induction xs) simp_all

text \<open>
  C25: A single wrong character is always noticed.  When a text after the prefix decodes to an
  address, the text with any one character replaced by another one is refused: as a character
  outside the set, or by the checksum.
\<close>

theorem single_typo_refused:
  assumes "decode_payload p s = Ok a" and "i < length s" and "c \<noteq> s ! i"
  shows "decode_payload p (s[i := c]) = Err (if rev_char c = 100 then DecodingError c else BadChecksum)"
proof -
  have ok: "find (\<lambda>b. rev_char b = 100) s = None" "8 \<le> length s"
    using assms(1) by (auto simp: decode_payload_def split: option.splits if_splits)
  have chk: "checked p (map rev_char s)"
    using assms(1) unfolding decode_unchecked [OF ok] by (simp split: if_splits)
  have valid: "rev_char b \<noteq> 100" if "b \<in> set s" for b using ok(1) that by (auto simp: find_None_iff)
  have sym: "symbols 5 (map rev_char s)"
    using valid rev_char_cases(1) by (auto simp: list_all_iff)
  show ?thesis
  proof (cases "rev_char c = 100")
    case True
    have "s[i := c] = take i s @ c # drop (Suc i) s" using assms(2) by (rule upd_conv_take_nth_drop)
    moreover have "list_all (\<lambda>b. rev_char b \<noteq> 100) (take i s)"
      unfolding list_all_iff using valid in_set_takeD by fast
    ultimately have "find (\<lambda>b. rev_char b = 100) (s[i := c]) = Some c"
      using True by (simp add: find_first)
    then show ?thesis using True by (simp add: decode_payload_def)
  next
    case False
    have none: "find (\<lambda>b. rev_char b = 100) (s[i := c]) = None"
      unfolding find_None_iff using valid False set_update_subset_insert [of s i c] by blast
    have "rev_char c \<noteq> rev_char (s ! i)" using rev_char_inject [OF False] assms(3) by blast
    then have "\<not> checked p ((map rev_char s)[i := rev_char c])"
      using ok(2) assms(2) rev_char_cases(1) [OF False] by (intro checked_once [OF sym _ _ _ _ chk]) simp_all
    then have "\<not> checked p (map rev_char (s[i := c]))" by (simp add: map_update)
    moreover have len: "8 \<le> length (s[i := c])" using ok(2) by simp
    ultimately show ?thesis using False decode_unchecked [OF none len, of p] by simp
  qed
qed

lemma mainnet_text:
  "\<exists>s. decode_payload Mainnet s
     = Ok \<lparr>addr_prefix = Mainnet, addr_version = PubKey, addr_payload = replicate 32 7\<rparr>"
proof -
  let ?bytes = "0 # replicate 32 7 :: u8 list"
  obtain us where us: "conv8to5 ?bytes = Some us" "symbols 5 us" using conv8to5_spells by blast
  obtain t where "conv8to5 (checksum_bytes (checksum us (fivebit_prefix Mainnet))) = Some t"
    by (rule checksum_symbols)
  then obtain s where "checksummed Mainnet us = Some s" by (simp add: checksummed_def)
  moreover have "conv5to8 us = Some ?bytes" using conv_roundtrip [of ?bytes] us(1) by simp
  ultimately have "decode_payload Mainnet s = decoded Mainnet (Some ?bytes)"
    using decode_checksummed [OF us(2)] by simp
  then show ?thesis by (auto simp: decoded_def version_try_from_def Address_new_def)
qed

theorem single_typo_refused_witness:
  "\<exists>s c. decode_payload Mainnet s
       = Ok \<lparr>addr_prefix = Mainnet, addr_version = PubKey, addr_payload = replicate 32 7\<rparr>
     \<and> decode_payload Mainnet (s[0 := 33]) = Err (DecodingError 33)
     \<and> decode_payload Mainnet (s[0 := c]) = Err BadChecksum"
proof -
  obtain s where s: "decode_payload Mainnet s
      = Ok \<lparr>addr_prefix = Mainnet, addr_version = PubKey, addr_payload = replicate 32 7\<rparr>"
    using mainnet_text by blast
  have ok: "find (\<lambda>b. rev_char b = 100) s = None" and len: "0 < length s"
    using s by (auto simp: decode_payload_def split: option.splits if_splits)
  have chars: "rev_char 33 = 100" "rev_char 112 \<noteq> 100" "rev_char 113 \<noteq> 100" by code_simp+
  have "s ! 0 \<noteq> 33" using ok chars(1) nth_mem [OF len] unfolding find_None_iff by metis
  then have "decode_payload Mainnet (s[0 := 33]) = Err (DecodingError 33)"
    using single_typo_refused [OF s len, of 33] chars(1) by simp
  moreover obtain c where "c \<noteq> s ! 0" "rev_char c \<noteq> 100"
    using that [of "if s ! 0 = 112 then 113 else 112"] chars(2,3) by (simp split: if_splits)
  then have "decode_payload Mainnet (s[0 := c]) = Err BadChecksum"
    using single_typo_refused [OF s len, of c] by simp
  ultimately show ?thesis using s by blast
qed

section \<open>Payloads of a wrong length\<close>

text \<open>
  C28: A text with a right checksum whose payload is too short, or does not have the length of its
  version, makes decoding panic instead of returning an error: an index into an empty vector, or
  the assertion of the constructor.
\<close>

theorem checksummed_length_panics:
  assumes "symbols 5 us" and "checksummed prefix us = Some s" and "conv5to8 us = Some bytes"
  shows "decode_payload prefix s = None \<longleftrightarrow>
    bytes = [] \<or> (\<exists>version. version_try_from (hd bytes) = Inr version
                  \<and> length (tl bytes) \<noteq> public_key_len version)"
  using decode_checksummed [OF assms(1,2)] assms(3)
  by (auto simp: decoded_def Address_new_def split: list.splits sum.splits if_splits)

theorem checksummed_length_panics_witness:
  "\<exists>s. length s = 8 \<and> decode_payload Mainnet s = None"
proof -
  obtain t where t: "conv8to5 (checksum_bytes (checksum [] (fivebit_prefix Mainnet))) = Some t" "length t = 8"
    by (rule checksum_symbols)
  then have "checksummed Mainnet [] = Some (map (\<lambda>x. CHARSET ! unat x) t)" by (simp add: checksummed_def)
  moreover have "conv5to8 [] = Some []" by (simp add: conv5to8_def)
  ultimately have "decode_payload Mainnet (map (\<lambda>x. CHARSET ! unat x) t) = None"
    using checksummed_length_panics [of "[]" Mainnet _ "[]"] by simp
  then show ?thesis using t(2) by (metis length_map)
qed

end
