(* ===== verification/Coinbase.thy ===== *)
theory Coinbase
  imports Tx_Hashing Opoi Reward_Params Script_Class Address_Text
begin

text \<open>
  The coinbase transaction: \<^verbatim>\<open>src/consensus/src/processes/coinbase.rs\<close>, with its data in
  \<^verbatim>\<open>src/consensus/core/src/coinbase.rs\<close> and its errors in \<^verbatim>\<open>src/consensus/core/src/errors/coinbase.rs\<close>.
  Parameters are the keyed BLAKE2b hashers (\<open>H\<close> for \<^verbatim>\<open>TransactionHash\<close>, \<open>I\<close> for \<^verbatim>\<open>TransactionID\<close>), the
  floating point expression of the emission schedule (\<open>reward_at\<close>) and the external crates of the
  delegation check and of the tags.  A block hash map is an association list, a missing reward is
  the panic of \<^verbatim>\<open>unwrap\<close>, and every sum and product is checked.

  The lemmas show that the coinbase creates exactly the subsidies, fees and mints that it is given,
  that it has no empty output and stays within the output limit, and that the payload determines
  the coinbase data.
\<close>

section \<open>Data\<close>

record MinerData =
  miner_spk :: ScriptPublicKey
  extra_data :: "u8 list"

record CoinbaseData =
  cb_blue_score :: u64
  cb_subsidy :: u64
  cb_miner_data :: MinerData

record BlockRewardData =
  reward_subsidy :: u64
  total_fees :: u64
  reward_spk :: ScriptPublicKey
  escrow_spk :: "ScriptPublicKey option"

definition BlockRewardData_new_with_escrow ::
    "u64 \<Rightarrow> u64 \<Rightarrow> ScriptPublicKey \<Rightarrow> ScriptPublicKey option \<Rightarrow> BlockRewardData" where
  "BlockRewardData_new_with_escrow subsidy fees spk escrow =
     \<lparr>reward_subsidy = subsidy, total_fees = fees, reward_spk = spk, escrow_spk = escrow\<rparr>"

definition BlockRewardData_new :: "u64 \<Rightarrow> u64 \<Rightarrow> ScriptPublicKey \<Rightarrow> BlockRewardData" where
  "BlockRewardData_new subsidy fees spk =
     \<lparr>reward_subsidy = subsidy, total_fees = fees, reward_spk = spk, escrow_spk = None\<rparr>"

record CoinbaseTransactionTemplate =
  template_tx :: Transaction
  has_red_reward :: bool
  red_reward_output_index :: "nat option"

datatype CoinbaseError =
    PayloadLenBelowMin nat nat
  | PayloadLenAboveMax nat nat
  | PayloadScriptPublicKeyLenAboveMax nat u8
  | PayloadCantContainScriptPublicKey nat nat
  | OPoiTagMissing
  | OPoiTagInvalid u64 "u8 list"

record GhostdagData =
  gd_blue_score :: u64
  gd_blue_work :: "192 word"
  gd_selected_parent :: hash
  mergeset_blues :: "hash list"
  mergeset_reds :: "hash list"
  blues_anticone_sizes :: "(hash \<times> u16) list"

section \<open>Constants and scripts\<close>

definition RD_ALLOCATION_BPS :: u64 where "RD_ALLOCATION_BPS = 500"
definition RD_ALLOCATION_BPS_DIVISOR :: u64 where "RD_ALLOCATION_BPS_DIVISOR = 10000"
definition ESCROW_RATE_BPS :: u64 where "ESCROW_RATE_BPS = 2000"
definition ESCROW_RATE_BPS_DIVISOR :: u64 where "ESCROW_RATE_BPS_DIVISOR = 10000"
definition BURN_SEED :: "u8 list" where "BURN_SEED = bytes_of_string ''KERYX_PROOF_OF_BURN_V1''"
definition RD_ALLOCATION_ADDRESS :: "u8 list" where
  "RD_ALLOCATION_ADDRESS =
     bytes_of_string ''keryx:qp8zp9wnpqhgygpsv25px8whw0ee7md72s0tgy78x5wt7ryk6w525aqm045zv''"

definition coinbase_outputs_limit :: "u64 \<Rightarrow> bool \<Rightarrow> bool \<Rightarrow> u64 option" where
  "coinbase_outputs_limit ghostdag_k h3 h8 = do {
     base \<leftarrow> (if h3
       then do { a \<leftarrow> checked_add ghostdag_k 1; b \<leftarrow> checked_mul 3 a; checked_add b 4 }
       else checked_add ghostdag_k 2);
     if h8 then checked_add base (word_of_nat MAX_REWARD_MINTS_PER_BLOCK) else Some base
   }"

definition LENGTH_OF_BLUE_SCORE :: nat where "LENGTH_OF_BLUE_SCORE = 8"
definition LENGTH_OF_SUBSIDY :: nat where "LENGTH_OF_SUBSIDY = 8"
definition LENGTH_OF_SCRIPT_PUB_KEY_VERSION :: nat where "LENGTH_OF_SCRIPT_PUB_KEY_VERSION = 2"
definition LENGTH_OF_SCRIPT_PUB_KEY_LENGTH :: nat where "LENGTH_OF_SCRIPT_PUB_KEY_LENGTH = 1"
definition MIN_PAYLOAD_LENGTH :: nat where
  "MIN_PAYLOAD_LENGTH = LENGTH_OF_BLUE_SCORE + LENGTH_OF_SUBSIDY + LENGTH_OF_SCRIPT_PUB_KEY_VERSION
     + LENGTH_OF_SCRIPT_PUB_KEY_LENGTH"

lemmas payload_lens = LENGTH_OF_BLUE_SCORE_def LENGTH_OF_SUBSIDY_def
  LENGTH_OF_SCRIPT_PUB_KEY_VERSION_def LENGTH_OF_SCRIPT_PUB_KEY_LENGTH_def MIN_PAYLOAD_LENGTH_def

definition SECONDS_PER_MONTH :: u64 where "SECONDS_PER_MONTH = 2629800"
definition KRX_TAIL_EMISSION_PER_SECOND :: u64 where "KRX_TAIL_EMISSION_PER_SECOND = 10"

definition build_escrow_script :: "u8 list \<Rightarrow> u64 \<Rightarrow> ScriptPublicKey option" where
  "build_escrow_script pubkey_bytes csv_blocks =
     (case res_bind (add_sequence ScriptBuilder_new csv_blocks) (\<lambda>b.
           res_bind (add_op b 0xb1) (\<lambda>b.
           res_bind (add_data b pubkey_bytes) (\<lambda>b.
           add_op b 0xac))) of
        Inl _ \<Rightarrow> None
      | Inr b \<Rightarrow> Some (ScriptPublicKey_from_vec 0 (fst (drain b))))"

definition parse_escrow_pubkey_from_extra_data :: "u8 list \<Rightarrow> u8 list option" where
  "parse_escrow_pubkey_from_extra_data data = parse_escrow_pubkey data"

definition burn_script_public_key :: "(u8 list \<Rightarrow> hash) \<Rightarrow> ScriptPublicKey option" where
  "burn_script_public_key H =
     Address_new Mainnet PubKey (hash_bytes (H BURN_SEED)) \<bind> pay_to_address_script"

text \<open>\<^verbatim>\<open>u64::div_ceil\<close>; a division by zero panics.\<close>

definition div_ceil :: "u64 \<Rightarrow> u64 \<Rightarrow> u64 option" where
  "div_ceil a b = (if b = 0 then None else Some (a div b + (if a mod b > 0 then 1 else 0)))"

text \<open>
  The schedule, month by month until the reward per second truncates to zero.  The month is a
  \<^verbatim>\<open>u32\<close> whose increment is checked, so the loop ends in any case.
\<close>

function emission_from :: "(u32 \<Rightarrow> u64) \<Rightarrow> u64 \<Rightarrow> u32 \<Rightarrow> u64 list \<Rightarrow> u64 list option" where
  "emission_from reward_at bps month schedule =
     (let reward_per_second = reward_at month
      in if reward_per_second = 0 then Some schedule
         else case div_ceil reward_per_second bps of
           None \<Rightarrow> None
         | Some reward \<Rightarrow>
             (case checked_add month 1 of
                None \<Rightarrow> None
              | Some month' \<Rightarrow> emission_from reward_at bps month' (schedule @ [reward])))"
  by auto
termination
proof (relation "measure (\<lambda>(reward_at, bps, month, schedule). 2 ^ 32 - unat month)")
  fix reward_at :: "u32 \<Rightarrow> u64" and bps month schedule r reward and month' :: u32
  assume "checked_add month 1 = Some month'"
  then have "unat month' = unat month + 1" by (simp add: checked_add_eq_Some)
  moreover have "unat month' < 2 ^ 32" using unat_lt [of month'] by simp
  ultimately show "((reward_at, bps, month', schedule @ [reward]), reward_at, bps, month, schedule)
    \<in> measure (\<lambda>(reward_at, bps, month, schedule). 2 ^ 32 - unat month)" by simp
qed simp

declare emission_from.simps [simp del]

definition build_emission_schedule :: "(u32 \<Rightarrow> u64) \<Rightarrow> u64 \<Rightarrow> u64 list option" where
  "build_emission_schedule reward_at bps = emission_from reward_at bps 0 []"

section \<open>The manager\<close>

record CoinbaseManager =
  coinbase_payload_script_public_key_max_len :: u8
  max_coinbase_payload_len :: nat
  emission_start_daa_score :: u64
  pre_emission_base_subsidy :: u64
  mgr_bps :: u64
  emission_schedule :: "u64 list"
  tail_emission_per_block :: u64
  rd_allocation_spk :: ScriptPublicKey
  burn_spk :: ScriptPublicKey
  pom_v3_activation :: ForkActivation
  delegation_cache :: "(hash \<times> bool) list"

definition CoinbaseManager_new ::
    "(u8 list \<Rightarrow> hash) \<Rightarrow> (u32 \<Rightarrow> u64) \<Rightarrow> u8 \<Rightarrow> nat \<Rightarrow> u64 \<Rightarrow> u64 \<Rightarrow> u64 \<Rightarrow> ForkActivation
      \<Rightarrow> CoinbaseManager option" where
  "CoinbaseManager_new H reward_at spk_max_len max_payload_len start_daa base_subsidy bps pom_v3 = do {
     schedule \<leftarrow> build_emission_schedule reward_at bps;
     tail \<leftarrow> div_ceil KRX_TAIL_EMISSION_PER_SECOND bps;
     rd_address \<leftarrow> (case address_try_from RD_ALLOCATION_ADDRESS of Some (Inr a) \<Rightarrow> Some a | _ \<Rightarrow> None);
     rd_spk \<leftarrow> pay_to_address_script rd_address;
     burn \<leftarrow> burn_script_public_key H;
     Some \<lparr>coinbase_payload_script_public_key_max_len = spk_max_len,
       max_coinbase_payload_len = max_payload_len, emission_start_daa_score = start_daa,
       pre_emission_base_subsidy = base_subsidy, mgr_bps = bps, emission_schedule = schedule,
       tail_emission_per_block = tail, rd_allocation_spk = rd_spk, burn_spk = burn,
       pom_v3_activation = pom_v3, delegation_cache = []\<rparr>
   }"

text \<open>
  The verification is given as \<open>verify\<close>; the cache is emptied before an entry beyond 4096 is added.
\<close>

definition verify_escrow_delegation_cached ::
    "(u8 list \<Rightarrow> hash) \<Rightarrow> (u16 \<Rightarrow> u8 list \<Rightarrow> u8 list \<Rightarrow> u8 list \<Rightarrow> bool) \<Rightarrow> CoinbaseManager
      \<Rightarrow> u16 \<Rightarrow> u8 list \<Rightarrow> u8 list \<Rightarrow> u8 list \<Rightarrow> bool \<times> CoinbaseManager" where
  "verify_escrow_delegation_cached H verify self version s escrow_pubkey sig =
     (let key = H (to_le 2 version @ s @ escrow_pubkey @ sig)
      in case map_of (delegation_cache self) key of
           Some ok \<Rightarrow> (ok, self)
         | None \<Rightarrow>
             let ok = verify version s escrow_pubkey sig;
                 cache = (if length (delegation_cache self) \<ge> 4096 then [] else delegation_cache self)
             in (ok, self\<lparr>delegation_cache := AList.update key ok cache\<rparr>))"

section \<open>Subsidies\<close>

definition emission_month :: "CoinbaseManager \<Rightarrow> u64 \<Rightarrow> nat option" where
  "emission_month self daa_score = do {
     elapsed \<leftarrow> checked_sub daa_score (emission_start_daa_score self);
     seconds_since_start \<leftarrow> checked_div elapsed (mgr_bps self);
     Some (unat (seconds_since_start div SECONDS_PER_MONTH))
   }"

definition calc_block_subsidy :: "CoinbaseManager \<Rightarrow> u64 \<Rightarrow> u64 option" where
  "calc_block_subsidy self daa_score =
     (if daa_score < emission_start_daa_score self then Some (pre_emission_base_subsidy self)
      else emission_month self daa_score \<bind> (\<lambda>month.
        Some (if month < length (emission_schedule self) then emission_schedule self ! month
              else tail_emission_per_block self)))"

definition rd_cut_of :: "u64 \<Rightarrow> u64 option" where
  "rd_cut_of subsidy =
     map_option (\<lambda>p. p div RD_ALLOCATION_BPS_DIVISOR) (checked_mul subsidy RD_ALLOCATION_BPS)"

definition escrow_cut_of :: "u64 \<Rightarrow> u64 option" where
  "escrow_cut_of subsidy =
     map_option (\<lambda>p. p div ESCROW_RATE_BPS_DIVISOR) (checked_mul subsidy ESCROW_RATE_BPS)"

definition miner_cut_of :: "u64 \<Rightarrow> u64 \<Rightarrow> u64 \<Rightarrow> u64 option" where
  "miner_cut_of subsidy rd_cut escrow_cut =
     checked_sub subsidy rd_cut \<bind> (\<lambda>rest. checked_sub rest escrow_cut)"

definition base_miner_cut :: "CoinbaseManager \<Rightarrow> u64 \<Rightarrow> u64 option" where
  "base_miner_cut self daa_score = do {
     subsidy \<leftarrow> calc_block_subsidy self daa_score;
     rd_cut \<leftarrow> rd_cut_of subsidy;
     escrow_cut \<leftarrow> escrow_cut_of subsidy;
     miner_cut_of subsidy rd_cut escrow_cut
   }"

section \<open>Payloads\<close>

definition serialize_coinbase_payload ::
    "CoinbaseManager \<Rightarrow> CoinbaseData \<Rightarrow> CoinbaseError + u8 list" where
  "serialize_coinbase_payload self data =
     (let spk = miner_spk (cb_miner_data data);
          script_pub_key_len = length (spk_script spk)
      in if script_pub_key_len > unat (coinbase_payload_script_public_key_max_len self)
         then Inl (PayloadScriptPublicKeyLenAboveMax script_pub_key_len
                (coinbase_payload_script_public_key_max_len self))
         else Inr (to_le 8 (cb_blue_score data) @ to_le 8 (cb_subsidy data) @ to_le 2 (spk_version spk)
                @ to_le 1 (word_of_nat script_pub_key_len :: u8) @ spk_script spk
                @ extra_data (cb_miner_data data)))"

definition modify_coinbase_payload ::
    "CoinbaseManager \<Rightarrow> u8 list \<Rightarrow> MinerData \<Rightarrow> CoinbaseError + u8 list" where
  "modify_coinbase_payload self payload miner_data =
     (let spk = miner_spk miner_data;
          script_pub_key_len = length (spk_script spk)
      in if script_pub_key_len > unat (coinbase_payload_script_public_key_max_len self)
         then Inl (PayloadScriptPublicKeyLenAboveMax script_pub_key_len
                (coinbase_payload_script_public_key_max_len self))
         else Inr (take (LENGTH_OF_BLUE_SCORE + LENGTH_OF_SUBSIDY) payload @ to_le 2 (spk_version spk)
                @ to_le 1 (word_of_nat script_pub_key_len :: u8) @ spk_script spk
                @ extra_data miner_data))"

text \<open>\<^verbatim>\<open>PayloadParser::take\<close>: a split beyond the end panics.\<close>

definition parser_take :: "nat \<Rightarrow> u8 list \<Rightarrow> (u8 list \<times> u8 list) option" where
  "parser_take n remaining =
     (if n \<le> length remaining then Some (take n remaining, drop n remaining) else None)"

definition deserialize_coinbase_payload ::
    "CoinbaseManager \<Rightarrow> u8 list \<Rightarrow> (CoinbaseError, CoinbaseData) outcome" where
  "deserialize_coinbase_payload self payload =
     (if length payload < MIN_PAYLOAD_LENGTH
      then Err (PayloadLenBelowMin (length payload) MIN_PAYLOAD_LENGTH)
      else if length payload > max_coinbase_payload_len self
      then Err (PayloadLenAboveMax (length payload) (max_coinbase_payload_len self))
      else do {
        (blue_score, rest) \<leftarrow> parser_take LENGTH_OF_BLUE_SCORE payload;
        (subsidy, rest) \<leftarrow> parser_take LENGTH_OF_SUBSIDY rest;
        (version, rest) \<leftarrow> parser_take LENGTH_OF_SCRIPT_PUB_KEY_VERSION rest;
        (len, rest) \<leftarrow> parser_take LENGTH_OF_SCRIPT_PUB_KEY_LENGTH rest;
        let script_pub_key_len = (from_le len :: u8);
        if script_pub_key_len > coinbase_payload_script_public_key_max_len self
        then Err (PayloadScriptPublicKeyLenAboveMax (unat script_pub_key_len)
               (coinbase_payload_script_public_key_max_len self))
        else if length rest < unat script_pub_key_len
        then Err (PayloadCantContainScriptPublicKey (length payload)
               (MIN_PAYLOAD_LENGTH + unat script_pub_key_len))
        else do {
          (s, extra) \<leftarrow> parser_take (unat script_pub_key_len) rest;
          Ok \<lparr>cb_blue_score = from_le blue_score, cb_subsidy = from_le subsidy,
             cb_miner_data = \<lparr>miner_spk = \<lparr>spk_version = from_le version, spk_script = s\<rparr>,
               extra_data = extra\<rparr>\<rparr>
        }
      })"

definition validate_opoi_tag ::
    "(u8 list \<Rightarrow> u8 list) \<Rightarrow> u8 list \<Rightarrow> (CoinbaseError, unit) outcome" where
  "validate_opoi_tag hex_encode payload = (case parse_opoi payload of
     Some (nonce, claimed_tag) \<Rightarrow>
       verify_tag_fixed hex_encode nonce claimed_tag \<bind> (\<lambda>ok.
         if ok then Ok () else Err (OPoiTagInvalid nonce claimed_tag))
   | None \<Rightarrow> Err OPoiTagMissing)"

definition parse_escrow_from_extra_data ::
    "CoinbaseManager \<Rightarrow> u8 list \<Rightarrow> u64 \<Rightarrow> ScriptPublicKey option" where
  "parse_escrow_from_extra_data self data daa_score = do {
     pubkey_bytes \<leftarrow> parse_escrow_pubkey_from_extra_data data;
     let csv_blocks = (if is_active (pom_v3_activation self) daa_score
                       then SERVICE_BOND_CSV_WINDOW_BLOCKS else CHALLENGE_WINDOW_BLOCKS);
     build_escrow_script pubkey_bytes csv_blocks
   }"

section \<open>The expected coinbase transaction\<close>

text \<open>
  The share of the miner cut that is paid: two multiplications and divisions in this order, or
  nothing at all for a suspended producer.
\<close>

definition miner_paid_of :: "u64 \<Rightarrow> u64 \<Rightarrow> u64 \<Rightarrow> bool \<Rightarrow> u64 option" where
  "miner_paid_of miner_subsidy tier_bps ratio_bps suspended =
     (if suspended then Some 0
      else do {
        a \<leftarrow> checked_mul miner_subsidy tier_bps;
        b \<leftarrow> checked_mul (a div TIER_REWARD_BPS_DIVISOR) ratio_bps;
        Some (b div RATIO_REWARD_BPS_DIVISOR)
      })"

text \<open>The loop over the blue blocks; its state is \<open>outputs\<close>, \<open>rd_total\<close> and \<open>reward_burn_total\<close>.\<close>

definition blue_step ::
    "CoinbaseManager \<Rightarrow> (hash \<times> BlockRewardData) list \<Rightarrow> (hash \<times> u64) list \<Rightarrow> (hash \<times> u64) list \<Rightarrow> hash set
      \<Rightarrow> TransactionOutput list \<times> u64 \<times> u64 \<Rightarrow> hash \<Rightarrow> (TransactionOutput list \<times> u64 \<times> u64) option" where
  "blue_step self mergeset_rewards tier_bps_by_block ratio_bps_by_block suspended_blues st blue =
     (case st of (outputs, rd_total, reward_burn_total) \<Rightarrow> do {
        reward_data \<leftarrow> map_of mergeset_rewards blue;
        let outputs = outputs @ (if total_fees reward_data > 0
          then [TransactionOutput_new (total_fees reward_data) (burn_spk self)] else []);
        if reward_subsidy reward_data > 0
        then do {
          rd_cut \<leftarrow> rd_cut_of (reward_subsidy reward_data);
          escrow_cut \<leftarrow> escrow_cut_of (reward_subsidy reward_data);
          rd_total \<leftarrow> checked_add rd_total rd_cut;
          miner_subsidy \<leftarrow> miner_cut_of (reward_subsidy reward_data) rd_cut escrow_cut;
          let tier_bps = (case map_of tier_bps_by_block blue of
            Some b \<Rightarrow> b | None \<Rightarrow> TIER_REWARD_BPS_DIVISOR);
          let ratio_bps = (case map_of ratio_bps_by_block blue of
            Some b \<Rightarrow> b | None \<Rightarrow> RATIO_REWARD_BPS_DIVISOR);
          miner_paid \<leftarrow> miner_paid_of miner_subsidy tier_bps ratio_bps (blue \<in> suspended_blues);
          shortfall \<leftarrow> checked_sub miner_subsidy miner_paid;
          reward_burn_total \<leftarrow> checked_add reward_burn_total shortfall;
          let outputs = outputs @ (if miner_paid > 0
            then [TransactionOutput_new miner_paid (reward_spk reward_data)] else []);
          let outputs = outputs @ (if escrow_cut > 0
            then [TransactionOutput_new escrow_cut
                    (case escrow_spk reward_data of Some spk \<Rightarrow> spk | None \<Rightarrow> burn_spk self)]
            else []);
          Some (outputs, rd_total, reward_burn_total)
        }
        else Some (outputs, rd_total, reward_burn_total)
      })"

text \<open>The loop over the red blocks; its state is \<open>red_subsidy\<close> and \<open>red_fees\<close>.\<close>

definition red_step ::
    "(hash \<times> BlockRewardData) list \<Rightarrow> hash set \<Rightarrow> bool \<Rightarrow> u64 \<times> u64 \<Rightarrow> hash \<Rightarrow> (u64 \<times> u64) option" where
  "red_step mergeset_rewards mergeset_non_daa burn_red_subsidy st red =
     (case st of (red_subsidy, red_fees) \<Rightarrow> do {
        reward_data \<leftarrow> map_of mergeset_rewards red;
        if red \<in> mergeset_non_daa
        then map_option (\<lambda>f. (red_subsidy, f)) (checked_add red_fees (total_fees reward_data))
        else if burn_red_subsidy
        then do {
          both \<leftarrow> checked_add (reward_subsidy reward_data) (total_fees reward_data);
          map_option (\<lambda>f. (red_subsidy, f)) (checked_add red_fees both)
        }
        else do {
          s \<leftarrow> checked_add red_subsidy (reward_subsidy reward_data);
          f \<leftarrow> checked_add red_fees (total_fees reward_data);
          Some (s, f)
        }
      })"

text \<open>The outputs that follow those of the blue blocks, and the index of the red reward.\<close>

definition aggregate_outputs ::
    "CoinbaseManager \<Rightarrow> MinerData \<Rightarrow> TransactionOutput list \<times> u64 \<times> u64 \<Rightarrow> u64 \<times> u64
      \<Rightarrow> (ScriptPublicKey \<times> u64) list \<Rightarrow> (TransactionOutput list \<times> nat option) option" where
  "aggregate_outputs self miner_data blues reds reward_mints =
     (case (blues, reds) of ((outputs, rd_total, reward_burn_total), (red_subsidy, red_fees)) \<Rightarrow> do {
        let outputs = outputs @ (if red_fees > 0
          then [TransactionOutput_new red_fees (burn_spk self)] else []);
        (outputs, rd_total, index) \<leftarrow>
          (if red_subsidy > 0
           then do {
             rd_cut \<leftarrow> rd_cut_of red_subsidy;
             rd_total \<leftarrow> checked_add rd_total rd_cut;
             rest \<leftarrow> checked_sub red_subsidy rd_cut;
             Some (outputs @ [TransactionOutput_new rest (miner_spk miner_data)], rd_total,
                   Some (length outputs))
           }
           else Some (outputs, rd_total, None));
        let outputs = outputs @ (if rd_total > 0
          then [TransactionOutput_new rd_total (rd_allocation_spk self)] else []);
        let outputs = outputs @ (if reward_burn_total > 0
          then [TransactionOutput_new reward_burn_total (burn_spk self)] else []);
        Some (outputs @ map (\<lambda>(spk, amount). TransactionOutput_new amount spk) reward_mints, index)
      })"

definition TX_VERSION :: u16 where "TX_VERSION = 0"

definition expected_coinbase_transaction ::
    "(u8 list \<Rightarrow> hash) \<Rightarrow> CoinbaseManager \<Rightarrow> u64 \<Rightarrow> MinerData \<Rightarrow> GhostdagData
      \<Rightarrow> (hash \<times> BlockRewardData) list \<Rightarrow> hash set \<Rightarrow> (hash \<times> u64) list \<Rightarrow> (hash \<times> u64) list \<Rightarrow> hash set
      \<Rightarrow> (ScriptPublicKey \<times> u64) list \<Rightarrow> (CoinbaseError, CoinbaseTransactionTemplate) outcome" where
  "expected_coinbase_transaction I self daa_score miner_data ghostdag_data mergeset_rewards
     mergeset_non_daa tier_bps_by_block ratio_bps_by_block suspended_blues reward_mints = do {
     blues \<leftarrow> foldM (blue_step self mergeset_rewards tier_bps_by_block ratio_bps_by_block suspended_blues)
       ([], 0, 0) (filter (\<lambda>h. h \<notin> mergeset_non_daa) (mergeset_blues ghostdag_data));
     let burn_red_subsidy = is_active (pom_v3_activation self) daa_score;
     reds \<leftarrow> foldM (red_step mergeset_rewards mergeset_non_daa burn_red_subsidy) (0, 0)
       (mergeset_reds ghostdag_data);
     (outputs, index) \<leftarrow> aggregate_outputs self miner_data blues reds reward_mints;
     subsidy \<leftarrow> calc_block_subsidy self daa_score;
     case serialize_coinbase_payload self \<lparr>cb_blue_score = gd_blue_score ghostdag_data,
            cb_subsidy = subsidy, cb_miner_data = miner_data\<rparr> of
       Inl e \<Rightarrow> Err e
     | Inr payload \<Rightarrow>
         Ok \<lparr>template_tx = Transaction_new I TX_VERSION [] outputs 0 SUBNETWORK_ID_COINBASE 0 payload,
            has_red_reward = (case reds of (red_subsidy, red_fees) \<Rightarrow> red_subsidy > 0 \<or> red_fees > 0),
            red_reward_output_index = index\<rparr>
   }"

section \<open>Value\<close>

definition output_value :: "TransactionOutput list \<Rightarrow> nat" where
  "output_value outs = sum_list (map (\<lambda>out. unat (out_value out)) outs)"

lemma output_value_simps [simp]:
  "output_value [] = 0" "output_value (xs @ ys) = output_value xs + output_value ys"
  "output_value (out # xs) = unat (out_value out) + output_value xs"
  by (simp_all add: output_value_def)

lemma out_value_new [simp]: "out_value (TransactionOutput_new v spk) = v"
  by (simp add: TransactionOutput_new_def)

lemma if_output [simp]:
  "output_value (if 0 < v then [TransactionOutput_new v spk] else []) = unat v"
  by (simp add: word_gt_0)

lemma positive_outputs [simp]:
  "list_all (\<lambda>out. out_value out > 0) (if 0 < v then [TransactionOutput_new v spk] else [])"
  "list_all (\<lambda>out. out_value out > 0) (map (\<lambda>(spk, amount). TransactionOutput_new amount spk) mints)
   \<longleftrightarrow> list_all (\<lambda>m. snd m > 0) mints"
  by (auto simp: list_all_iff)

text \<open>What a block of the mergeset brings in, and what is known of a reward that the loops see.\<close>

definition reward_of :: "(hash \<times> BlockRewardData) list \<Rightarrow> hash \<Rightarrow> BlockRewardData" where
  "reward_of rw h = (case map_of rw h of Some r \<Rightarrow> r
     | None \<Rightarrow> \<lparr>reward_subsidy = 0, total_fees = 0, reward_spk = \<lparr>spk_version = 0, spk_script = []\<rparr>,
         escrow_spk = None\<rparr>)"

definition block_value :: "(hash \<times> BlockRewardData) list \<Rightarrow> hash \<Rightarrow> nat" where
  "block_value rw h = unat (reward_subsidy (reward_of rw h)) + unat (total_fees (reward_of rw h))"

lemma blue_step_value:
  assumes "blue_step self rw tier ratio suspended (outs, rd, burn) blue = Some (outs', rd', burn')"
  shows "output_value outs' + unat rd' + unat burn' = output_value outs + unat rd + unat burn + block_value rw blue"
    and "length outs' \<le> length outs + 3"
    and "list_all (\<lambda>out. out_value out > 0) outs \<Longrightarrow> list_all (\<lambda>out. out_value out > 0) outs'"
proof -
  from assms obtain r where r: "map_of rw blue = Some r"
    by (auto simp: blue_step_def split: bind_splits)
  have val: "block_value rw blue = unat (reward_subsidy r) + unat (total_fees r)"
    by (simp add: block_value_def reward_of_def r)
  note step = assms [unfolded blue_step_def, simplified, unfolded r, simplified]
  show "length outs' \<le> length outs + 3"
    and "list_all (\<lambda>out. out_value out > 0) outs \<Longrightarrow> list_all (\<lambda>out. out_value out > 0) outs'"
    using step by (auto simp: Let_def TransactionOutput_new_def split: if_splits bind_splits)
  show "output_value outs' + unat rd' + unat burn' = output_value outs + unat rd + unat burn + block_value rw blue"
  proof (cases "reward_subsidy r > 0")
    case False
    then show ?thesis using step by (auto simp: val word_gt_0)
  next
    case True
    obtain rd_cut escrow_cut miner_subsidy miner_paid shortfall where
      sums: "checked_add rd rd_cut = Some rd'" "miner_cut_of (reward_subsidy r) rd_cut escrow_cut = Some miner_subsidy"
        "checked_sub miner_subsidy miner_paid = Some shortfall" "checked_add burn shortfall = Some burn'"
      and outs': "output_value outs' = output_value outs + unat (total_fees r) + unat miner_paid + unat escrow_cut"
      using step True by (auto simp: Let_def split: bind_splits)
    show ?thesis
      using sums unfolding outs' val miner_cut_of_def
      by (auto simp: checked_add_eq_Some checked_sub_eq_Some word_le_nat_alt split: bind_splits)
  qed
qed

lemma blue_fold_value:
  "foldM (blue_step self rw tier ratio suspended) (outs, rd, burn) blues = Some (outs', rd', burn') \<Longrightarrow>
   output_value outs' + unat rd' + unat burn'
     = output_value outs + unat rd + unat burn + sum_list (map (block_value rw) blues)
   \<and> length outs' \<le> length outs + 3 * length blues
   \<and> (list_all (\<lambda>out. out_value out > 0) outs \<longrightarrow> list_all (\<lambda>out. out_value out > 0) outs')"
proof (induction blues arbitrary: outs rd burn)
  case (Cons b blues)
  then obtain outs1 rd1 burn1 where
    step: "blue_step self rw tier ratio suspended (outs, rd, burn) b = Some (outs1, rd1, burn1)"
    and rest: "foldM (blue_step self rw tier ratio suspended) (outs1, rd1, burn1) blues = Some (outs', rd', burn')"
    by (auto split: bind_splits)
  show ?case using blue_step_value [OF step] Cons.IH [OF rest] by auto
qed simp

definition red_value :: "(hash \<times> BlockRewardData) list \<Rightarrow> hash set \<Rightarrow> hash \<Rightarrow> nat" where
  "red_value rw non_daa h =
     (if h \<in> non_daa then unat (total_fees (reward_of rw h)) else block_value rw h)"

lemma red_step_value:
  assumes "red_step rw non_daa burned (sub, fees) red = Some (sub', fees')"
  shows "unat sub' + unat fees' = unat sub + unat fees + red_value rw non_daa red"
  using assms by (auto simp: red_step_def red_value_def block_value_def reward_of_def checked_add_eq_Some
      split: bind_splits if_splits)

lemma red_fold_value:
  "foldM (red_step rw non_daa burned) (sub, fees) reds = Some (sub', fees') \<Longrightarrow>
   unat sub' + unat fees' = unat sub + unat fees + sum_list (map (red_value rw non_daa) reds)"
proof (induction reds arbitrary: sub fees)
  case (Cons h reds)
  then obtain sub1 fees1 where "red_step rw non_daa burned (sub, fees) h = Some (sub1, fees1)"
    "foldM (red_step rw non_daa burned) (sub1, fees1) reds = Some (sub', fees')"
    by (auto split: bind_splits)
  then show ?case using red_step_value Cons.IH by fastforce
qed simp

lemma rd_cut_small: "rd_cut_of s = Some c \<Longrightarrow> unat c = unat s * 500 div 10000"
  by (auto simp: rd_cut_of_def checked_mul_eq_Some unat_div RD_ALLOCATION_BPS_def RD_ALLOCATION_BPS_DIVISOR_def)

lemma mint_value:
  "output_value (map (\<lambda>(spk, amount). TransactionOutput_new amount spk) mints) = sum_list (map (unat \<circ> snd) mints)"
  by (induction mints) (auto simp: output_value_def TransactionOutput_new_def)

lemma aggregate_value:
  assumes "aggregate_outputs self miner (outs, rd, burn) (sub, fees) mints = Some (outs', index)"
  shows "output_value outs' = output_value outs + unat rd + unat burn + unat sub + unat fees
      + sum_list (map (unat \<circ> snd) mints)"
    and "length outs' \<le> length outs + 4 + length mints"
    and "list_all (\<lambda>out. out_value out > 0) outs \<Longrightarrow> list_all (\<lambda>m. snd m > 0) mints \<Longrightarrow>
      list_all (\<lambda>out. out_value out > 0) outs'"
proof -
  show "output_value outs' = output_value outs + unat rd + unat burn + unat sub + unat fees
      + sum_list (map (unat \<circ> snd) mints)"
  proof (cases "sub > 0")
    case True
    obtain cut rd1 rest where sums: "checked_add rd cut = Some rd1" "checked_sub sub cut = Some rest"
      and outs': "output_value outs' = output_value outs + unat fees + unat rest + unat rd1 + unat burn
        + sum_list (map (unat \<circ> snd) mints)"
      using assms True by (auto simp: aggregate_outputs_def Let_def mint_value split: bind_splits)
    show ?thesis
      using sums unfolding outs' by (auto simp: checked_add_eq_Some checked_sub_eq_Some word_le_nat_alt)
  next
    case False
    then show ?thesis using assms by (auto simp: aggregate_outputs_def Let_def mint_value word_gt_0)
  qed
  show "length outs' \<le> length outs + 4 + length mints"
    using assms by (auto simp: aggregate_outputs_def Let_def split: bind_splits if_splits)
  have positive: "0 < rest" if "rd_cut_of sub = Some cut" "checked_sub sub cut = Some rest" "0 < sub" for cut rest
  proof -
    have "0 < unat sub" using that(3) by (simp add: word_gt_0 unat_gt_0)
    moreover have "unat rest = unat sub - unat sub * 500 div 10000"
      using that(1,2) rd_cut_small by (simp add: checked_sub_eq_Some)
    ultimately have "0 < unat rest" by linarith
    then show ?thesis by (simp add: word_gt_0 unat_gt_0)
  qed
  show "list_all (\<lambda>out. out_value out > 0) outs'"
    if "list_all (\<lambda>out. out_value out > 0) outs" "list_all (\<lambda>m. snd m > 0) mints"
    using assms that positive
    by (cases "sub > 0") (auto simp: aggregate_outputs_def Let_def split: bind_splits)
qed

lemma expected_coinbase_parts:
  assumes "expected_coinbase_transaction I self daa miner gd rw non_daa tier ratio suspended mints = Ok t"
  obtains outs rd burn sub fees outs' index subsidy payload where
    "foldM (blue_step self rw tier ratio suspended) ([], 0, 0)
       (filter (\<lambda>h. h \<notin> non_daa) (mergeset_blues gd)) = Some (outs, rd, burn)"
    "foldM (red_step rw non_daa (is_active (pom_v3_activation self) daa)) (0, 0) (mergeset_reds gd) = Some (sub, fees)"
    "aggregate_outputs self miner (outs, rd, burn) (sub, fees) mints = Some (outs', index)"
    "calc_block_subsidy self daa = Some subsidy"
    "serialize_coinbase_payload self \<lparr>cb_blue_score = gd_blue_score gd, cb_subsidy = subsidy,
       cb_miner_data = miner\<rparr> = Inr payload"
    "t = \<lparr>template_tx = Transaction_new I TX_VERSION [] outs' 0 SUBNETWORK_ID_COINBASE 0 payload,
       has_red_reward = (sub > 0 \<or> fees > 0), red_reward_output_index = index\<rparr>"
  using assms by (auto simp: expected_coinbase_transaction_def Let_def split: bind_splits sum.splits)

lemma Transaction_new_fields [simp]:
  "tx_outputs (Transaction_new I v ins outs lt sn g pl) = outs"
  "tx_inputs (Transaction_new I v ins outs lt sn g pl) = ins"
  "tx_payload (Transaction_new I v ins outs lt sn g pl) = pl"
  "subnetwork_id (Transaction_new I v ins outs lt sn g pl) = sn"
  "tx_mass (Transaction_new I v ins outs lt sn g pl) = 0"
  "tx_version (Transaction_new I v ins outs lt sn g pl) = v"
  "tx_gas (Transaction_new I v ins outs lt sn g pl) = g"
  by (simp_all add: Transaction_new_def finalize_def new_non_finalized_def)

text \<open>
  C31: The coinbase transaction pays out exactly what the merged blocks bring in.  The values of its
  outputs add up to the subsidies and fees of the blue blocks in the difficulty window, the
  subsidies and fees of the red blocks in the window, the fees of the red blocks outside of it, and
  the inference-reward mints: the split between miner, escrow, treasury and burn loses and creates
  nothing, whatever the tier and ratio multipliers and the suspensions are.
\<close>

theorem coinbase_conserves_value:
  assumes "expected_coinbase_transaction I self daa miner gd rw non_daa tier ratio suspended mints = Ok t"
  shows "output_value (tx_outputs (template_tx t)) =
    sum_list (map (block_value rw) (filter (\<lambda>h. h \<notin> non_daa) (mergeset_blues gd)))
    + sum_list (map (red_value rw non_daa) (mergeset_reds gd))
    + sum_list (map (unat \<circ> snd) mints)"
proof -
  obtain outs rd burn sub fees outs' index subsidy payload where parts:
    "foldM (blue_step self rw tier ratio suspended) ([], 0, 0)
       (filter (\<lambda>h. h \<notin> non_daa) (mergeset_blues gd)) = Some (outs, rd, burn)"
    "foldM (red_step rw non_daa (is_active (pom_v3_activation self) daa)) (0, 0) (mergeset_reds gd) = Some (sub, fees)"
    "aggregate_outputs self miner (outs, rd, burn) (sub, fees) mints = Some (outs', index)"
    and t: "t = \<lparr>template_tx = Transaction_new I TX_VERSION [] outs' 0 SUBNETWORK_ID_COINBASE 0 payload,
       has_red_reward = (sub > 0 \<or> fees > 0), red_reward_output_index = index\<rparr>"
    using assms by (rule expected_coinbase_parts)
  show ?thesis
    using blue_fold_value [OF parts(1)] red_fold_value [OF parts(2)] aggregate_value(1) [OF parts(3)] t by simp
qed

text \<open>A manager, two blue blocks (the second suspended), a red block and a mint.\<close>

definition sample_manager :: CoinbaseManager where
  "sample_manager = \<lparr>coinbase_payload_script_public_key_max_len = 150, max_coinbase_payload_len = 204,
     emission_start_daa_score = 0, pre_emission_base_subsidy = 50, mgr_bps = 10,
     emission_schedule = [540000000], tail_emission_per_block = 1,
     rd_allocation_spk = ScriptPublicKey_from_vec 0 [0x52], burn_spk = ScriptPublicKey_from_vec 0 [0x6a],
     pom_v3_activation = 1000, delegation_cache = []\<rparr>"

definition sample_rewards :: "(hash \<times> BlockRewardData) list" where
  "sample_rewards =
     [(1, BlockRewardData_new_with_escrow 1000 7 (ScriptPublicKey_from_vec 0 [0x51])
            (Some (ScriptPublicKey_from_vec 0 [0x53]))),
      (2, BlockRewardData_new 2001 0 (ScriptPublicKey_from_vec 0 [0x54])),
      (3, BlockRewardData_new 500 9 (ScriptPublicKey_from_vec 0 [0x55]))]"

definition sample_ghostdag :: GhostdagData where
  "sample_ghostdag = \<lparr>gd_blue_score = 5, gd_blue_work = 0, gd_selected_parent = 1, mergeset_blues = [1, 2],
     mergeset_reds = [3], blues_anticone_sizes = []\<rparr>"

definition sample_miner :: MinerData where
  "sample_miner = \<lparr>miner_spk = ScriptPublicKey_from_vec 0 [0x51, 0x52], extra_data = [9]\<rparr>"

definition sample_coinbase :: "(CoinbaseError, CoinbaseTransactionTemplate) outcome" where
  "sample_coinbase = expected_coinbase_transaction (\<lambda>_. 0) sample_manager 10 sample_miner sample_ghostdag
     sample_rewards {} [(1, 6000)] [(1, 9000)] {2} [(ScriptPublicKey_from_vec 0 [0x56], 33)]"

section \<open>No panic\<close>

lemma checked_mul_small: "unat a * unat b < 2 ^ 64 \<Longrightarrow> \<exists>c. checked_mul a (b :: u64) = Some c \<and> unat c = unat a * unat b"
  by (cases "checked_mul a b") (auto simp: checked_mul_eq_None checked_mul_eq_Some)

lemma checked_add_fits: "unat a + unat b < 2 ^ 64 \<Longrightarrow> \<exists>c. checked_add a (b :: u64) = Some c \<and> unat c = unat a + unat b"
  by (cases "checked_add a b") (auto simp: checked_add_eq_None checked_add_eq_Some)

lemma cuts_total:
  assumes "unat s * 10000 < 2 ^ 64"
  shows "\<exists>rd escrow miner. rd_cut_of s = Some rd \<and> escrow_cut_of s = Some escrow
    \<and> miner_cut_of s rd escrow = Some miner \<and> unat rd + unat escrow + unat miner = unat s"
proof -
  obtain p where p: "checked_mul s RD_ALLOCATION_BPS = Some p" "unat p = unat s * 500"
    using checked_mul_small [of s 500] assms by (auto simp: RD_ALLOCATION_BPS_def)
  obtain q where q: "checked_mul s ESCROW_RATE_BPS = Some q" "unat q = unat s * 2000"
    using checked_mul_small [of s 2000] assms by (auto simp: ESCROW_RATE_BPS_def)
  have rd: "unat (p div 10000) = unat s * 500 div 10000" and escrow: "unat (q div 10000) = unat s * 2000 div 10000"
    using p(2) q(2) by (simp_all add: unat_div)
  have le: "unat (p div 10000) + unat (q div 10000) \<le> unat s" unfolding rd escrow by linarith
  then have "p div 10000 \<le> s" unfolding word_le_nat_alt by linarith
  then obtain r where r: "checked_sub s (p div 10000) = Some r" "unat r = unat s - unat (p div 10000)"
    by (auto simp: checked_sub_def unat_sub)
  then have "q div 10000 \<le> r" using le unfolding word_le_nat_alt by linarith
  then obtain m where "checked_sub r (q div 10000) = Some m" "unat m = unat r - unat (q div 10000)"
    by (auto simp: checked_sub_def unat_sub)
  then show ?thesis
    using p(1) q(1) r le by (auto simp: rd_cut_of_def escrow_cut_of_def miner_cut_of_def
        RD_ALLOCATION_BPS_DIVISOR_def ESCROW_RATE_BPS_DIVISOR_def)
qed

lemma miner_paid_total:
  assumes "unat m * 10000 < 2 ^ 64" "t \<le> 10000" "r \<le> 10000"
  shows "\<exists>p. miner_paid_of m t r suspended = Some p \<and> p \<le> m"
proof (cases suspended)
  case False
  have scale: "\<exists>c. checked_mul x y = Some c \<and> unat (c div 10000) \<le> unat x"
    if "unat x * 10000 < 2 ^ 64" "y \<le> 10000" for x y :: u64
  proof -
    have y: "unat y \<le> 10000" using that(2) by (simp add: word_le_nat_alt)
    then have le: "unat x * unat y \<le> unat x * 10000" by (rule mult_left_mono) simp
    have "unat x * unat y < 2 ^ 64" using le that(1) by (rule le_less_trans)
    from checked_mul_small [OF this] obtain c where c: "checked_mul x y = Some c" "unat c = unat x * unat y"
      by blast
    have "unat c div 10000 \<le> unat x * 10000 div 10000" unfolding c(2) using le by (rule div_le_mono)
    then have "unat (c div 10000) \<le> unat x" by (simp add: unat_div)
    then show ?thesis using c(1) by auto
  qed
  obtain a where a: "checked_mul m t = Some a" "unat (a div 10000) \<le> unat m" using scale assms by blast
  then have "unat (a div 10000) * 10000 < 2 ^ 64" using assms(1) by linarith
  then obtain b where b: "checked_mul (a div 10000) r = Some b" "unat (b div 10000) \<le> unat (a div 10000)"
    using scale assms(3) by blast
  show ?thesis
    using False a b by (auto simp: miner_paid_of_def TIER_REWARD_BPS_DIVISOR_def RATIO_REWARD_BPS_DIVISOR_def
        word_le_nat_alt)
qed (simp add: miner_paid_of_def)

abbreviation bps_ok :: "(hash \<times> u64) list \<Rightarrow> bool" where
  "bps_ok table \<equiv> list_all (\<lambda>p. snd p \<le> 10000) table"

lemma bps_lookup: "bps_ok table \<Longrightarrow> (case map_of table h of Some b \<Rightarrow> b | None \<Rightarrow> 10000) \<le> (10000 :: u64)"
  by (auto simp: list_all_iff dest!: map_of_SomeD split: option.splits)

abbreviation subsidy_of :: "(hash \<times> BlockRewardData) list \<Rightarrow> hash \<Rightarrow> nat" where
  "subsidy_of rw h \<equiv> unat (reward_subsidy (reward_of rw h))"

lemma blue_step_total:
  assumes "map_of rw blue \<noteq> None" "subsidy_of rw blue * 10000 < 2 ^ 64" "bps_ok tier" "bps_ok ratio"
    and "unat rd + unat burn + subsidy_of rw blue < 2 ^ 64"
  shows "\<exists>outs' rd' burn'. blue_step self rw tier ratio suspended (outs, rd, burn) blue = Some (outs', rd', burn')
    \<and> unat rd' + unat burn' \<le> unat rd + unat burn + subsidy_of rw blue"
proof -
  obtain r where r: "map_of rw blue = Some r" using assms(1) by blast
  then have sub: "reward_of rw blue = r" by (simp add: reward_of_def)
  obtain c e m where cuts: "rd_cut_of (reward_subsidy r) = Some c" "escrow_cut_of (reward_subsidy r) = Some e"
    "miner_cut_of (reward_subsidy r) c e = Some m" "unat c + unat e + unat m = unat (reward_subsidy r)"
    using cuts_total assms(2) sub by blast
  let ?t = "case map_of tier blue of Some b \<Rightarrow> b | None \<Rightarrow> TIER_REWARD_BPS_DIVISOR"
  let ?q = "case map_of ratio blue of Some b \<Rightarrow> b | None \<Rightarrow> RATIO_REWARD_BPS_DIVISOR"
  have "unat m * 10000 < 2 ^ 64" using cuts(4) assms(2) sub by simp
  then obtain p where p: "miner_paid_of m ?t ?q (blue \<in> suspended) = Some p" "p \<le> m"
    using miner_paid_total bps_lookup [OF assms(3)] bps_lookup [OF assms(4)]
    unfolding TIER_REWARD_BPS_DIVISOR_def RATIO_REWARD_BPS_DIVISOR_def by blast
  obtain rd' where rd': "checked_add rd c = Some rd'" "unat rd' = unat rd + unat c"
    using checked_add_fits [of rd c] assms(5) cuts(4) sub by auto
  have diff: "checked_sub m p = Some (m - p)" "unat (m - p) \<le> unat m" using p(2) by (simp_all add: checked_sub_def unat_sub)
  obtain burn' where burn': "checked_add burn (m - p) = Some burn'" "unat burn' = unat burn + unat (m - p)"
    using checked_add_fits [of burn "m - p"] assms(5) cuts(4) sub diff(2) by auto
  show ?thesis
    using r sub cuts p(1) rd' diff burn' by (auto simp: blue_step_def Let_def)
qed

lemma blue_fold_total:
  assumes "list_all (\<lambda>h. map_of rw h \<noteq> None) blues" "sum_list (map (subsidy_of rw) blues) * 10000 < 2 ^ 64"
    and "bps_ok tier" "bps_ok ratio" and "unat rd + unat burn + sum_list (map (subsidy_of rw) blues) < 2 ^ 64"
  shows "\<exists>st. foldM (blue_step self rw tier ratio suspended) (outs, rd, burn) blues = Some st"
  using assms(1,2,5)
proof (induction blues arbitrary: outs rd burn)
  case (Cons h blues)
  have pre: "map_of rw h \<noteq> None" "subsidy_of rw h * 10000 < 2 ^ 64"
    "unat rd + unat burn + subsidy_of rw h < 2 ^ 64" using Cons.prems by simp_all
  obtain outs1 rd1 burn1 where
    step: "blue_step self rw tier ratio suspended (outs, rd, burn) h = Some (outs1, rd1, burn1)"
    and le: "unat rd1 + unat burn1 \<le> unat rd + unat burn + subsidy_of rw h"
    using blue_step_total [OF pre(1,2) assms(3,4) pre(3)] by blast
  have "\<exists>st. foldM (blue_step self rw tier ratio suspended) (outs1, rd1, burn1) blues = Some st"
    using Cons.prems le by (intro Cons.IH) auto
  then show ?case using step by simp
qed simp

lemma red_fold_total:
  assumes "list_all (\<lambda>h. map_of rw h \<noteq> None) reds"
    and "unat sub + unat fees + sum_list (map (block_value rw) reds) < 2 ^ 64"
  shows "\<exists>sub' fees'. foldM (red_step rw non_daa burned) (sub, fees) reds = Some (sub', fees')"
  using assms
proof (induction reds arbitrary: sub fees)
  case (Cons h reds)
  obtain r where r: "map_of rw h = Some r" using Cons.prems(1) by auto
  have val: "block_value rw h = unat (reward_subsidy r) + unat (total_fees r)"
    by (simp add: block_value_def reward_of_def r)
  have all: "unat sub + unat fees + unat (reward_subsidy r) + unat (total_fees r) < 2 ^ 64"
    using Cons.prems(2) val by simp
  obtain both where both: "checked_add (reward_subsidy r) (total_fees r) = Some both"
    "unat both = unat (reward_subsidy r) + unat (total_fees r)"
    using checked_add_fits [of "reward_subsidy r" "total_fees r"] all by auto
  have step: "\<exists>s f. red_step rw non_daa burned (sub, fees) h = Some (s, f)"
    using checked_add_fits [of fees "total_fees r"] checked_add_fits [of fees both]
      checked_add_fits [of sub "reward_subsidy r"] both all r by (auto simp: red_step_def)
  then obtain s f where sf: "red_step rw non_daa burned (sub, fees) h = Some (s, f)" by blast
  have "red_value rw non_daa h \<le> block_value rw h" by (simp add: red_value_def block_value_def)
  then have "\<exists>sub' fees'. foldM (red_step rw non_daa burned) (s, f) reds = Some (sub', fees')"
    using Cons.prems red_step_value [OF sf] by (intro Cons.IH) auto
  then show ?case using sf by simp
qed simp

text \<open>
  What makes a coinbase computable: rewards for the merged blocks, multipliers of at most 100 percent,
  subsidies and values far from overflow, a block rate, and a miner script that fits.
\<close>

definition coinbase_inputs_ok ::
    "CoinbaseManager \<Rightarrow> MinerData \<Rightarrow> GhostdagData \<Rightarrow> (hash \<times> BlockRewardData) list \<Rightarrow> hash set
      \<Rightarrow> (hash \<times> u64) list \<Rightarrow> (hash \<times> u64) list \<Rightarrow> bool" where
  "coinbase_inputs_ok self miner gd rw non_daa tier ratio =
     (let blues = filter (\<lambda>h. h \<notin> non_daa) (mergeset_blues gd); reds = mergeset_reds gd
      in list_all (\<lambda>h. map_of rw h \<noteq> None) (blues @ reds)
         \<and> sum_list (map (subsidy_of rw) (blues @ reds)) * 10000 < 2 ^ 64
         \<and> sum_list (map (block_value rw) (blues @ reds)) < 2 ^ 64
         \<and> bps_ok tier \<and> bps_ok ratio \<and> mgr_bps self \<noteq> 0
         \<and> length (spk_script (miner_spk miner)) \<le> unat (coinbase_payload_script_public_key_max_len self))"

lemma red_subsidy_bound:
  "foldM (red_step rw non_daa burned) (sub, fees) reds = Some (sub', fees') \<Longrightarrow>
   unat sub' \<le> unat sub + sum_list (map (subsidy_of rw) reds)"
proof (induction reds arbitrary: sub fees)
  case (Cons h reds)
  then obtain s f where step: "red_step rw non_daa burned (sub, fees) h = Some (s, f)"
    and rest: "foldM (red_step rw non_daa burned) (s, f) reds = Some (sub', fees')"
    by (auto split: bind_splits)
  have "unat s \<le> unat sub + subsidy_of rw h"
    using step by (auto simp: red_step_def reward_of_def checked_add_eq_Some split: bind_splits if_splits)
  then show ?case using Cons.IH [OF rest] by simp
qed simp

lemma sum_subsidies_le: "sum_list (map (subsidy_of rw) hs) \<le> sum_list (map (block_value rw) hs)"
  by (rule sum_list_mono) (simp add: block_value_def)

lemma calc_block_subsidy_total: "mgr_bps self \<noteq> 0 \<Longrightarrow> \<exists>s. calc_block_subsidy self daa = Some s"
  by (auto simp: calc_block_subsidy_def emission_month_def checked_sub_def checked_div_def not_less)

lemma expected_coinbase_total:
  assumes "coinbase_inputs_ok self miner gd rw non_daa tier ratio"
  shows "\<exists>t. expected_coinbase_transaction I self daa miner gd rw non_daa tier ratio suspended mints = Ok t"
proof -
  define blues where "blues = filter (\<lambda>h. h \<notin> non_daa) (mergeset_blues gd)"
  have ok: "list_all (\<lambda>h. map_of rw h \<noteq> None) blues" "list_all (\<lambda>h. map_of rw h \<noteq> None) (mergeset_reds gd)"
    and small: "(sum_list (map (subsidy_of rw) blues) + sum_list (map (subsidy_of rw) (mergeset_reds gd))) * 10000 < 2 ^ 64"
    and val: "sum_list (map (block_value rw) blues) + sum_list (map (block_value rw) (mergeset_reds gd)) < 2 ^ 64"
    and bps: "bps_ok tier" "bps_ok ratio" "mgr_bps self \<noteq> 0"
    and len: "length (spk_script (miner_spk miner)) \<le> unat (coinbase_payload_script_public_key_max_len self)"
    using assms by (auto simp: coinbase_inputs_ok_def Let_def blues_def)
  have sb: "sum_list (map (subsidy_of rw) blues) * 10000 < 2 ^ 64"
    "unat (0 :: u64) + unat (0 :: u64) + sum_list (map (subsidy_of rw) blues) < 2 ^ 64" using small by simp_all
  obtain outs rd burn where blue: "foldM (blue_step self rw tier ratio suspended) ([], 0, 0) blues = Some (outs, rd, burn)"
    using blue_fold_total [OF ok(1) sb(1) bps(1,2) sb(2)] by (metis prod_cases3)
  have "unat (0 :: u64) + unat (0 :: u64) + sum_list (map (block_value rw) (mergeset_reds gd)) < 2 ^ 64"
    using val by simp
  then obtain sub fees where red: "foldM (red_step rw non_daa (is_active (pom_v3_activation self) daa)) (0, 0)
      (mergeset_reds gd) = Some (sub, fees)"
    using red_fold_total [OF ok(2)] by blast
  have sub_le: "unat sub \<le> sum_list (map (subsidy_of rw) (mergeset_reds gd))"
    using red_subsidy_bound [OF red] by simp
  then have "unat sub * 10000 < 2 ^ 64" using small by simp
  from cuts_total [OF this] obtain c e m where cut: "rd_cut_of sub = Some c" "unat c + unat (e :: u64) + unat (m :: u64) = unat sub"
    by blast
  have "unat rd \<le> sum_list (map (block_value rw) blues)" using blue_fold_value [OF blue] by simp
  moreover have "unat c \<le> sum_list (map (block_value rw) (mergeset_reds gd))"
    using cut(2) sub_le sum_subsidies_le [of rw "mergeset_reds gd"] by linarith
  ultimately have "unat rd + unat c < 2 ^ 64" using val by linarith
  then obtain rd' where rd': "checked_add rd c = Some rd'" using checked_add_fits by blast
  have "c \<le> sub" using cut(2) unfolding word_le_nat_alt by linarith
  then obtain outs' index where agg: "aggregate_outputs self miner (outs, rd, burn) (sub, fees) mints = Some (outs', index)"
    using cut(1) rd' by (cases "sub > 0") (auto simp: aggregate_outputs_def Let_def checked_sub_def)
  obtain subsidy where "calc_block_subsidy self daa = Some subsidy"
    using calc_block_subsidy_total [OF bps(3)] by blast
  then show ?thesis
    using blue red agg len
    by (auto simp: expected_coinbase_transaction_def blues_def Let_def serialize_coinbase_payload_def)
qed

theorem coinbase_conserves_value_witness:
  "\<exists>t. sample_coinbase = Ok t \<and> output_value (tx_outputs (template_tx t)) = 3550"
proof -
  have "coinbase_inputs_ok sample_manager sample_miner sample_ghostdag sample_rewards {} [(1, 6000)] [(1, 9000)]"
    by (simp add: coinbase_inputs_ok_def Let_def sample_manager_def sample_miner_def sample_ghostdag_def
        sample_rewards_def reward_of_def block_value_def BlockRewardData_new_with_escrow_def
        BlockRewardData_new_def ScriptPublicKey_from_vec_def)
  then obtain t where t: "sample_coinbase = Ok t"
    using expected_coinbase_total unfolding sample_coinbase_def by blast
  have "output_value (tx_outputs (template_tx t)) = 3550"
    using coinbase_conserves_value [OF t [unfolded sample_coinbase_def]]
    by (simp add: sample_ghostdag_def block_value_def red_value_def reward_of_def sample_rewards_def
        BlockRewardData_new_with_escrow_def BlockRewardData_new_def)
  with t show ?thesis by blast
qed

section \<open>The payload\<close>

lemma parser_take_Some: "n \<le> length bs \<Longrightarrow> parser_take n bs = Some (take n bs, drop n bs)"
  by (simp add: parser_take_def)

lemma deserialize_coinbase_payload_cases:
  "deserialize_coinbase_payload self payload =
     (if length payload < 19 then Err (PayloadLenBelowMin (length payload) 19)
      else if length payload > max_coinbase_payload_len self
      then Err (PayloadLenAboveMax (length payload) (max_coinbase_payload_len self))
      else let len = (from_le (take 1 (drop 18 payload)) :: u8); rest = drop 19 payload
      in if len > coinbase_payload_script_public_key_max_len self
         then Err (PayloadScriptPublicKeyLenAboveMax (unat len) (coinbase_payload_script_public_key_max_len self))
         else if length rest < unat len
         then Err (PayloadCantContainScriptPublicKey (length payload) (19 + unat len))
         else Ok \<lparr>cb_blue_score = from_le (take 8 payload), cb_subsidy = from_le (take 8 (drop 8 payload)),
           cb_miner_data = \<lparr>miner_spk = \<lparr>spk_version = from_le (take 2 (drop 16 payload)),
             spk_script = take (unat len) rest\<rparr>, extra_data = drop (unat len) rest\<rparr>\<rparr>)"
  by (auto simp: deserialize_coinbase_payload_def payload_lens parser_take_Some Let_def)

lemma deserialize_serialized:
  assumes "serialize_coinbase_payload self data = Inr payload" "length payload \<le> max_coinbase_payload_len self"
  shows "deserialize_coinbase_payload self payload = Ok data"
proof -
  let ?spk = "miner_spk (cb_miner_data data)"
  have le: "length (spk_script ?spk) \<le> unat (coinbase_payload_script_public_key_max_len self)"
    and payload: "payload = to_le 8 (cb_blue_score data) @ to_le 8 (cb_subsidy data) @ to_le 2 (spk_version ?spk)
      @ to_le 1 (word_of_nat (length (spk_script ?spk)) :: u8) @ spk_script ?spk @ extra_data (cb_miner_data data)"
    using assms(1) by (auto simp: serialize_coinbase_payload_def Let_def split: if_splits)
  have "unat (coinbase_payload_script_public_key_max_len self) < 256"
    using unat_lt [of "coinbase_payload_script_public_key_max_len self"] by simp
  then have "length (spk_script ?spk) < 256" using le by linarith
  then have len: "unat (word_of_nat (length (spk_script ?spk)) :: u8) = length (spk_script ?spk)"
    by (simp add: unat_of_nat)
  then have "\<not> word_of_nat (length (spk_script ?spk)) > coinbase_payload_script_public_key_max_len self"
    using le by (simp add: word_less_nat_alt)
  then show ?thesis
    using assms(2) len unfolding deserialize_coinbase_payload_cases payload by (simp add: Let_def)
qed

lemma serialize_deserialized:
  assumes "deserialize_coinbase_payload self payload = Ok data"
  shows "serialize_coinbase_payload self data = Inr payload \<and> length payload \<le> max_coinbase_payload_len self"
proof -
  define len where "len = (from_le (take 1 (drop 18 payload)) :: u8)"
  have size: "19 \<le> length payload" "length payload \<le> max_coinbase_payload_len self"
    and fits: "len \<le> coinbase_payload_script_public_key_max_len self" "unat len \<le> length payload - 19"
    and data: "data = \<lparr>cb_blue_score = from_le (take 8 payload), cb_subsidy = from_le (take 8 (drop 8 payload)),
           cb_miner_data = \<lparr>miner_spk = \<lparr>spk_version = from_le (take 2 (drop 16 payload)),
             spk_script = take (unat len) (drop 19 payload)\<rparr>, extra_data = drop (unat len) (drop 19 payload)\<rparr>\<rparr>"
    using assms by (auto simp: deserialize_coinbase_payload_cases Let_def len_def split: if_splits)
  have len_bytes: "to_le 1 len = take 1 (drop 18 payload)"
    unfolding len_def using size by (intro to_le_from_le) simp_all
  have "take 8 payload @ take 8 (drop 8 payload) @ take 2 (drop 16 payload) @ take 1 (drop 18 payload)
      @ drop 19 payload = payload"
    using append_take_drop_id [of 8 payload] append_take_drop_id [of 8 "drop 8 payload"]
      append_take_drop_id [of 2 "drop 16 payload"] append_take_drop_id [of 1 "drop 18 payload"] by simp
  moreover have "take (unat len) (drop 19 payload) @ drop (unat len + 19) payload = drop 19 payload"
    by (metis append_take_drop_id drop_drop)
  ultimately show ?thesis
    using size fits len_bytes
    by (simp add: data serialize_coinbase_payload_def Let_def to_le_from_le word_le_nat_alt)
qed

lemma modify_serialized:
  "serialize_coinbase_payload self data = Inr payload \<Longrightarrow>
   modify_coinbase_payload self payload miner = serialize_coinbase_payload self (data\<lparr>cb_miner_data := miner\<rparr>)"
  by (auto simp: serialize_coinbase_payload_def modify_coinbase_payload_def Let_def payload_lens split: if_splits)

text \<open>
  C32: The coinbase payload and the coinbase data determine each other.  Reading a payload never
  panics, and it yields the data exactly when the payload is the serialization of the data and is
  not longer than the limit.  Replacing the miner data of a serialized payload is the same as
  serializing the data with the new miner: blue score and subsidy are kept, and the error for a
  script that is too long is the same.
\<close>

theorem coinbase_payload_roundtrip:
  "deserialize_coinbase_payload self payload \<noteq> None
   \<and> (deserialize_coinbase_payload self payload = Ok data
      \<longleftrightarrow> serialize_coinbase_payload self data = Inr payload
          \<and> length payload \<le> max_coinbase_payload_len self)
   \<and> res_bind (serialize_coinbase_payload self data) (\<lambda>p. modify_coinbase_payload self p miner)
     = res_bind (serialize_coinbase_payload self data)
         (\<lambda>_. serialize_coinbase_payload self (data\<lparr>cb_miner_data := miner\<rparr>))"
proof (intro conjI)
  show "deserialize_coinbase_payload self payload \<noteq> None"
    unfolding deserialize_coinbase_payload_cases by (simp add: Let_def)
  show "res_bind (serialize_coinbase_payload self data) (\<lambda>p. modify_coinbase_payload self p miner)
     = res_bind (serialize_coinbase_payload self data)
         (\<lambda>_. serialize_coinbase_payload self (data\<lparr>cb_miner_data := miner\<rparr>))"
    using modify_serialized [of self data] by (cases "serialize_coinbase_payload self data") simp_all
qed (use deserialize_serialized serialize_deserialized in blast)


section \<open>Tags, delegations, schedules\<close>

text \<open>A payload whose extra data starts with a generated tag passes the tag check.\<close>

lemma generated_tag_accepted:
  assumes "serialize_coinbase_payload self data = Inr payload"
    and "gen_opoi_extra_data hex_encode nonce = Some tag_data" "extra_data (cb_miner_data data) = tag_data @ post"
    and "find_marker (spk_script (miner_spk (cb_miner_data data))) OPOI_MARKER = None"
    and "\<And>bytes. length (hex_encode bytes) = 2 * length bytes \<and> list_all is_ascii_hexdigit (hex_encode bytes)"
  shows "validate_opoi_tag hex_encode payload = Ok ()"
proof -
  let ?spk = "miner_spk (cb_miner_data data)"
  define pre where "pre = to_le 8 (cb_blue_score data) @ to_le 8 (cb_subsidy data) @ to_le 2 (spk_version ?spk)
    @ to_le 1 (word_of_nat (length (spk_script ?spk)) :: u8) @ spk_script ?spk"
  obtain tag where tag: "tag_fixed hex_encode nonce = Some tag"
    and data: "tag_data = 47 # format_016x nonce @ OPOI_MARKER @ tag"
    using assms(2) by (auto simp: gen_opoi_extra_data_def)
  have payload: "payload = pre @ (47 # format_016x nonce @ OPOI_MARKER @ tag) @ post"
    using assms(1,3) data by (auto simp: serialize_coinbase_payload_def Let_def pre_def split: if_splits)
  obtain out where out: "tag = hex_encode (take 8 out)" "run_inference_fixed (nonce XOR PHASE2_OPOI_SALT) = Some out"
    using tag by (auto simp: tag_fixed_def)
  have "length (from_nonce n) = 32" for n by (simp add: from_nonce_def length_concat replicate_num)
  then have "length out = 32"
    using forward_total [of "from_nonce (nonce XOR PHASE2_OPOI_SALT)"] out(2) by (auto simp: run_inference_fixed_def)
  then have hex: "length tag = 16" "list_all is_ascii_hexdigit tag" using assms(5) out(1) by simp_all
  have "19 \<le> length pre" "drop 19 pre = spk_script ?spk" by (simp_all add: pre_def)
  with assms(4) hex have "parse_opoi payload = Some (nonce, tag)"
    unfolding payload by (intro parse_opoi_generated) simp_all
  then show ?thesis using tag by (simp add: validate_opoi_tag_def verify_tag_fixed_def)
qed

text \<open>Every cached verdict is the verdict on a delegation with the same hash.\<close>

definition delegation_key :: "(u8 list \<Rightarrow> hash) \<Rightarrow> u16 \<Rightarrow> u8 list \<Rightarrow> u8 list \<Rightarrow> u8 list \<Rightarrow> hash" where
  "delegation_key H version s pubkey sig = H (to_le 2 version @ s @ pubkey @ sig)"

definition delegations_sound ::
    "(u8 list \<Rightarrow> hash) \<Rightarrow> (u16 \<Rightarrow> u8 list \<Rightarrow> u8 list \<Rightarrow> u8 list \<Rightarrow> bool) \<Rightarrow> CoinbaseManager \<Rightarrow> bool" where
  "delegations_sound H verify self = (\<forall>(k, ok) \<in> set (delegation_cache self).
     \<exists>v s p g. delegation_key H v s p g = k \<and> verify v s p g = ok)"

lemma set_update_subset: "set (AList.update k v xs) \<subseteq> insert (k, v) (set xs)"
  by (induction xs) auto

lemma delegation_cached_sound:
  assumes "delegations_sound H verify self"
    and "verify_escrow_delegation_cached H verify self version s pubkey sig = (ok, self')"
  shows "delegations_sound H verify self'
    \<and> (\<exists>v t p g. delegation_key H v t p g = delegation_key H version s pubkey sig \<and> verify v t p g = ok)"
proof (cases "map_of (delegation_cache self) (delegation_key H version s pubkey sig)")
  case None
  define cache where "cache = (if length (delegation_cache self) \<ge> 4096 then [] else delegation_cache self)"
  have ok: "ok = verify version s pubkey sig"
    and self': "self' = self\<lparr>delegation_cache := AList.update (delegation_key H version s pubkey sig) ok cache\<rparr>"
    using assms(2) None by (auto simp: verify_escrow_delegation_cached_def delegation_key_def Let_def cache_def)
  have "set cache \<subseteq> set (delegation_cache self)" by (simp add: cache_def)
  then have "set (delegation_cache self') \<subseteq> insert (delegation_key H version s pubkey sig, ok) (set (delegation_cache self))"
    using set_update_subset [of "delegation_key H version s pubkey sig" ok cache] self' by auto
  then show ?thesis using assms(1) ok unfolding delegations_sound_def by blast
next
  case (Some b)
  then show ?thesis
    using assms by (auto simp: verify_escrow_delegation_cached_def delegation_key_def Let_def delegations_sound_def
        dest!: map_of_SomeD)
qed

lemma emission_from_eq:
  assumes "bps \<noteq> 0" "\<And>m. m < n \<Longrightarrow> reward_at (word_of_nat m) \<noteq> 0" "reward_at (word_of_nat n) = 0" "n < 2 ^ 32"
  shows "k \<le> n \<Longrightarrow> emission_from reward_at bps (word_of_nat k) schedule
    = Some (schedule @ map (\<lambda>m. the (div_ceil (reward_at (word_of_nat m)) bps)) [k..<n])"
proof (induction "n - k" arbitrary: k schedule)
  case 0
  then show ?case using assms(3) by (subst emission_from.simps) simp
next
  case (Suc d)
  then have k: "k < n" by simp
  have "checked_add (word_of_nat k :: u32) 1 = Some (word_of_nat (Suc k))"
    using k assms(4) by (simp add: checked_add_eq_Some unat_of_nat del: of_nat_Suc)
  moreover have "emission_from reward_at bps (word_of_nat (Suc k)) (schedule @ [the (div_ceil (reward_at (word_of_nat k)) bps)])
      = Some ((schedule @ [the (div_ceil (reward_at (word_of_nat k)) bps)])
          @ map (\<lambda>m. the (div_ceil (reward_at (word_of_nat m)) bps)) [Suc k..<n])"
    using Suc.hyps k by (intro Suc.hyps(1)) simp_all
  ultimately show ?case
    using assms(1,2) k by (subst emission_from.simps) (simp add: div_ceil_def upt_conv_Cons Let_def)
qed

text \<open>The schedule holds the rounded-up reward per block of every month before the first with none.\<close>

lemma build_emission_schedule_eq:
  assumes "bps \<noteq> 0" "\<And>m. m < n \<Longrightarrow> reward_at (word_of_nat m) \<noteq> 0" "reward_at (word_of_nat n) = 0" "n < 2 ^ 32"
  shows "build_emission_schedule reward_at bps
    = Some (map (\<lambda>m. the (div_ceil (reward_at (word_of_nat m)) bps)) [0..<n])"
  using emission_from_eq [of bps n reward_at 0 "[]"] assms by (simp add: build_emission_schedule_def)

end
