(* ===== verification/Block_Template.thy ===== *)
theory Block_Template
  imports Headers Coinbase
begin

text \<open>
  Block templates: the mutable blocks and templates of \<^verbatim>\<open>src/consensus/core/src/block.rs\<close> and
  \<open>modify_block_template\<close> of \<^verbatim>\<open>src/mining/src/block_template/builder.rs\<close>, which gives a template that
  was built for one miner to another.  The consensus calls of the builder are those of
  \<^verbatim>\<open>src/consensus/src/consensus/mod.rs\<close>: the coinbase manager and the merkle root.  The clock is the
  argument \<open>now\<close>.  Building a template runs the virtual state of the consensus and is not modelled.

  The lemmas show that modifying a template gives the coinbase transaction that building it for the
  new miner would give, but for the cached id, and a header that commits to it.
\<close>

section \<open>Templates\<close>

definition COINBASE_TRANSACTION_INDEX :: nat where "COINBASE_TRANSACTION_INDEX = 0"

record MutableBlock =
  block_header :: Header
  block_transactions :: "Transaction list"

record BlockTemplate =
  template_block :: MutableBlock
  template_miner_data :: MinerData
  coinbase_has_red_reward :: bool
  template_red_reward_output_index :: "nat option"
  selected_parent_timestamp :: u64
  selected_parent_daa_score :: u64
  selected_parent_hash :: hash
  calculated_fees :: "u64 list"

definition BlockTemplate_new ::
    "MutableBlock \<Rightarrow> MinerData \<Rightarrow> bool \<Rightarrow> nat option \<Rightarrow> u64 \<Rightarrow> u64 \<Rightarrow> hash \<Rightarrow> u64 list \<Rightarrow> BlockTemplate" where
  "BlockTemplate_new block miner red index time daa parent fees =
     \<lparr>template_block = block, template_miner_data = miner, coinbase_has_red_reward = red,
      template_red_reward_output_index = index, selected_parent_timestamp = time,
      selected_parent_daa_score = daa, selected_parent_hash = parent, calculated_fees = fees\<rparr>"

text \<open>The builder returns consensus rule errors only where it builds a template.\<close>

datatype BuilderError = BuilderCoinbaseError CoinbaseError

definition rewrite_red_reward :: "nat option \<Rightarrow> ScriptPublicKey \<Rightarrow> Transaction \<Rightarrow> Transaction option" where
  "rewrite_red_reward index spk coinbase_tx =
     (case index of
        None \<Rightarrow> Some coinbase_tx
      | Some idx \<Rightarrow>
          if idx < length (tx_outputs coinbase_tx)
          then Some (coinbase_tx\<lparr>tx_outputs := (tx_outputs coinbase_tx)
                 [idx := (tx_outputs coinbase_tx ! idx)\<lparr>out_spk := spk\<rparr>]\<rparr>)
          else None)"

definition modify_block_template ::
    "(u8 list \<Rightarrow> hash) \<Rightarrow> (u8 list \<Rightarrow> hash) \<Rightarrow> (u8 list \<Rightarrow> hash) \<Rightarrow> u64 \<Rightarrow> u64 \<Rightarrow> CoinbaseManager \<Rightarrow> u64
      \<Rightarrow> MinerData \<Rightarrow> BlockTemplate \<Rightarrow> (BuilderError, BlockTemplate) outcome" where
  "modify_block_template M H B pom_level service_commit consensus now new_miner_data t =
     (let txs = block_transactions (template_block t)
      in if COINBASE_TRANSACTION_INDEX \<ge> length txs then None
         else let coinbase_tx = txs ! COINBASE_TRANSACTION_INDEX
         in case modify_coinbase_payload consensus (tx_payload coinbase_tx) new_miner_data of
              Inl e \<Rightarrow> Err (BuilderCoinbaseError e)
            | Inr new_payload \<Rightarrow> do {
                coinbase_tx \<leftarrow> rewrite_red_reward (template_red_reward_output_index t)
                  (miner_spk new_miner_data) (coinbase_tx\<lparr>tx_payload := new_payload\<rparr>);
                let txs = txs[COINBASE_TRANSACTION_INDEX := coinbase_tx];
                root \<leftarrow> calc_hash_merkle_root M H txs;
                let header = (block_header (template_block t))\<lparr>hash_merkle_root := root\<rparr>;
                let header = (if now > timestamp header then header\<lparr>timestamp := now\<rparr> else header);
                header \<leftarrow> header_finalize B pom_level service_commit header;
                Ok (t\<lparr>template_block := \<lparr>block_header = header, block_transactions = txs\<rparr>,
                  template_miner_data := new_miner_data\<rparr>)
              })"

section \<open>Modifying is rebuilding\<close>

text \<open>The outputs for another miner differ at the red reward only.\<close>

lemma aggregate_outputs_miner:
  assumes "aggregate_outputs self miner blues reds mints = Some (outs, index)"
  shows "aggregate_outputs self miner' blues reds mints = Some (case index of None \<Rightarrow> outs
      | Some i \<Rightarrow> outs[i := (outs ! i)\<lparr>out_spk := miner_spk miner'\<rparr>], index)
    \<and> (\<forall>i. index = Some i \<longrightarrow> i < length outs)"
proof -
  obtain outputs rd burn sub fees where [simp]: "blues = (outputs, rd, burn)" "reds = (sub, fees)"
    by (cases blues; cases reds) auto
  show ?thesis
    using assms
    by (auto simp: aggregate_outputs_def Let_def TransactionOutput_new_def nth_append list_update_append
        split: bind_splits if_splits)
qed

lemma coinbase_for_miner:
  assumes "expected_coinbase_transaction I self daa miner gd rw non_daa tier ratio suspended mints = Ok c"
  obtains outs index subsidy payload where
    "tx_outputs (template_tx c) = outs" "red_reward_output_index c = index"
    "\<forall>i. index = Some i \<longrightarrow> i < length outs" "tx_payload (template_tx c) = payload"
    "serialize_coinbase_payload self \<lparr>cb_blue_score = gd_blue_score gd, cb_subsidy = subsidy,
       cb_miner_data = miner\<rparr> = Inr payload"
    "template_tx c = Transaction_new I TX_VERSION [] outs 0 SUBNETWORK_ID_COINBASE 0 payload"
    "expected_coinbase_transaction I self daa miner' gd rw non_daa tier ratio suspended mints =
       (case serialize_coinbase_payload self \<lparr>cb_blue_score = gd_blue_score gd, cb_subsidy = subsidy,
          cb_miner_data = miner'\<rparr> of
          Inl e \<Rightarrow> Err e
        | Inr payload' \<Rightarrow> Ok \<lparr>template_tx = Transaction_new I TX_VERSION []
            (case index of None \<Rightarrow> outs | Some i \<Rightarrow> outs[i := (outs ! i)\<lparr>out_spk := miner_spk miner'\<rparr>])
            0 SUBNETWORK_ID_COINBASE 0 payload', has_red_reward = has_red_reward c, red_reward_output_index = index\<rparr>)"
proof -
  from assms obtain blues rd burn sub fees outs index subsidy payload where
    parts: "foldM (blue_step self rw tier ratio suspended) ([], 0, 0)
       (filter (\<lambda>h. h \<notin> non_daa) (mergeset_blues gd)) = Some (blues, rd, burn)"
    "foldM (red_step rw non_daa (is_active (pom_v3_activation self) daa)) (0, 0) (mergeset_reds gd) = Some (sub, fees)"
    "aggregate_outputs self miner (blues, rd, burn) (sub, fees) mints = Some (outs, index)"
    "calc_block_subsidy self daa = Some subsidy"
    "serialize_coinbase_payload self \<lparr>cb_blue_score = gd_blue_score gd, cb_subsidy = subsidy,
       cb_miner_data = miner\<rparr> = Inr payload"
    "c = \<lparr>template_tx = Transaction_new I TX_VERSION [] outs 0 SUBNETWORK_ID_COINBASE 0 payload,
       has_red_reward = (sub > 0 \<or> fees > 0), red_reward_output_index = index\<rparr>"
    by (rule expected_coinbase_parts)
  note outs' = aggregate_outputs_miner [OF parts(3)]
  show thesis
  proof (rule that)
    show "expected_coinbase_transaction I self daa miner' gd rw non_daa tier ratio suspended mints =
       (case serialize_coinbase_payload self \<lparr>cb_blue_score = gd_blue_score gd, cb_subsidy = subsidy,
          cb_miner_data = miner'\<rparr> of
          Inl e \<Rightarrow> Err e
        | Inr payload' \<Rightarrow> Ok \<lparr>template_tx = Transaction_new I TX_VERSION []
            (case index of None \<Rightarrow> outs | Some i \<Rightarrow> outs[i := (outs ! i)\<lparr>out_spk := miner_spk miner'\<rparr>])
            0 SUBNETWORK_ID_COINBASE 0 payload', has_red_reward = has_red_reward c, red_reward_output_index = index\<rparr>)"
      unfolding expected_coinbase_transaction_def
      using parts(1,2,4,6) outs' [of miner'] by (simp add: Let_def split: sum.split)
  qed (use parts outs' in auto)
qed

lemma finalized_header:
  assumes "wf_parents (parents_by_level h)"
  obtains x where "calc_header_hash B pom_level service_commit h = Some x"
    "header_finalize B pom_level service_commit h = Some (h\<lparr>header_hash := x\<rparr>)"
proof -
  obtain ls where "expanded_iter (parents_by_level h) = Some ls" by (rule wf_levels [OF assms])
  then show thesis
    using that by (simp add: header_finalize_def calc_header_hash_message header_message_def hash_input_def)
qed

lemma header_hash_ignores_cached:
  "calc_header_hash B pom_level service_commit (h\<lparr>header_hash := x\<rparr>) = calc_header_hash B pom_level service_commit h"
  by (simp add: calc_header_hash_message header_message_def hash_input_def)

lemma modify_runs:
  assumes "block_transactions (template_block t) = tx # rest"
    and "modify_coinbase_payload self (tx_payload tx) miner' = Inr payload'"
    and "rewrite_red_reward (template_red_reward_output_index t) (miner_spk miner') (tx\<lparr>tx_payload := payload'\<rparr>) = Some tx'"
    and "wf_parents (parents_by_level (block_header (template_block t)))"
  shows "\<exists>t' header. modify_block_template M H B pom_level service_commit self now miner' t = Ok t'
    \<and> template_miner_data t' = miner' \<and> block_header (template_block t') = header
    \<and> block_transactions (template_block t') = tx' # rest
    \<and> template_red_reward_output_index t' = template_red_reward_output_index t
    \<and> calc_hash_merkle_root M H (tx' # rest) = Some (hash_merkle_root header)
    \<and> timestamp header = max now (timestamp (block_header (template_block t)))
    \<and> calc_header_hash B pom_level service_commit header = Some (header_hash header)"
proof -
  obtain root where root: "calc_hash_merkle_root M H (tx' # rest) = Some root"
    by (simp add: calc_hash_merkle_root_def calc_merkle_root_tree)
  define h where "h = (let h = (block_header (template_block t))\<lparr>hash_merkle_root := root\<rparr>
    in if now > timestamp h then h\<lparr>timestamp := now\<rparr> else h)"
  have "parents_by_level h = parents_by_level (block_header (template_block t))"
    and time: "timestamp h = max now (timestamp (block_header (template_block t)))" "hash_merkle_root h = root"
    by (auto simp: h_def Let_def max_def)
  then have "wf_parents (parents_by_level h)" using assms(4) by simp
  then obtain x where x: "calc_header_hash B pom_level service_commit h = Some x"
    "header_finalize B pom_level service_commit h = Some (h\<lparr>header_hash := x\<rparr>)" by (rule finalized_header)
  have "modify_block_template M H B pom_level service_commit self now miner' t
      = Ok (t\<lparr>template_block := \<lparr>block_header = h\<lparr>header_hash := x\<rparr>, block_transactions = tx' # rest\<rparr>,
          template_miner_data := miner'\<rparr>)"
    using assms(1-3) root x(2) unfolding h_def
    by (simp add: modify_block_template_def COINBASE_TRANSACTION_INDEX_def Let_def)
  then show ?thesis using root time x(1) by (simp add: header_hash_ignores_cached)
qed

text \<open>
  C37: Modifying a block template is rebuilding it for the new miner.  Take a template whose first
  transaction is the coinbase transaction expected for one miner, with the index of its red reward,
  and whose header has well-formed parents.  If building the coinbase for another miner from the same
  data fails, modifying fails with the same error.  Otherwise modifying succeeds: the first
  transaction is the rebuilt one in every field but the cached id, which stays that of the old
  coinbase, the others are unchanged, the merkle root is that of the rebuilt transactions, the time
  does not decrease, and the cached block hash is the hash of the new header.
\<close>

theorem modified_template_is_rebuilt:
  assumes "expected_coinbase_transaction I self daa miner gd rw non_daa tier ratio suspended mints = Ok c"
    and "block_transactions (template_block t) = template_tx c # rest"
    and "template_red_reward_output_index t = red_reward_output_index c"
    and "wf_parents (parents_by_level (block_header (template_block t)))"
  shows "case expected_coinbase_transaction I self daa miner' gd rw non_daa tier ratio suspended mints of
      None \<Rightarrow> False
    | Some (Inl e) \<Rightarrow> modify_block_template M H B pom_level service_commit self now miner' t = Err (BuilderCoinbaseError e)
    | Some (Inr c') \<Rightarrow> \<exists>t' header. modify_block_template M H B pom_level service_commit self now miner' t = Ok t'
        \<and> template_miner_data t' = miner' \<and> block_header (template_block t') = header
        \<and> block_transactions (template_block t') = (template_tx c')\<lparr>tx_id := tx_id (template_tx c)\<rparr> # rest
        \<and> template_red_reward_output_index t' = red_reward_output_index c'
        \<and> calc_hash_merkle_root M H (template_tx c' # rest) = Some (hash_merkle_root header)
        \<and> timestamp header = max now (timestamp (block_header (template_block t)))
        \<and> calc_header_hash B pom_level service_commit header = Some (header_hash header)"
proof -
  from assms(1) obtain outs index subsidy payload where
    c: "tx_outputs (template_tx c) = outs" "red_reward_output_index c = index"
    "\<forall>i. index = Some i \<longrightarrow> i < length outs" "tx_payload (template_tx c) = payload"
    "serialize_coinbase_payload self \<lparr>cb_blue_score = gd_blue_score gd, cb_subsidy = subsidy,
       cb_miner_data = miner\<rparr> = Inr payload"
    "template_tx c = Transaction_new I TX_VERSION [] outs 0 SUBNETWORK_ID_COINBASE 0 payload"
    and rebuilt: "expected_coinbase_transaction I self daa miner' gd rw non_daa tier ratio suspended mints =
       (case serialize_coinbase_payload self \<lparr>cb_blue_score = gd_blue_score gd, cb_subsidy = subsidy,
          cb_miner_data = miner'\<rparr> of
          Inl e \<Rightarrow> Err e
        | Inr payload' \<Rightarrow> Ok \<lparr>template_tx = Transaction_new I TX_VERSION []
            (case index of None \<Rightarrow> outs | Some i \<Rightarrow> outs[i := (outs ! i)\<lparr>out_spk := miner_spk miner'\<rparr>])
            0 SUBNETWORK_ID_COINBASE 0 payload', has_red_reward = has_red_reward c, red_reward_output_index = index\<rparr>)"
    by (rule coinbase_for_miner [where miner' = miner'])
  have modified: "modify_coinbase_payload self payload miner' = serialize_coinbase_payload self
      \<lparr>cb_blue_score = gd_blue_score gd, cb_subsidy = subsidy, cb_miner_data = miner'\<rparr>"
    using modify_serialized [OF c(5)] by simp
  show ?thesis
  proof (cases "modify_coinbase_payload self payload miner'")
    case (Inl e)
    then show ?thesis
      using rebuilt modified assms(2) c(4) by (simp add: modify_block_template_def COINBASE_TRANSACTION_INDEX_def)
  next
    case (Inr payload')
    define tx' where "tx' = Transaction_new I TX_VERSION []
      (case index of None \<Rightarrow> outs | Some i \<Rightarrow> outs[i := (outs ! i)\<lparr>out_spk := miner_spk miner'\<rparr>])
      0 SUBNETWORK_ID_COINBASE 0 payload'"
    let ?tx = "tx'\<lparr>tx_id := tx_id (template_tx c)\<rparr>"
    have tx: "rewrite_red_reward (template_red_reward_output_index t) (miner_spk miner')
        ((template_tx c)\<lparr>tx_payload := payload'\<rparr>) = Some ?tx"
      using c(2,3,6) assms(3) by (cases index) (auto simp: rewrite_red_reward_def tx'_def Transaction_new_def
          finalize_def new_non_finalized_def)
    have "expected_coinbase_transaction I self daa miner' gd rw non_daa tier ratio suspended mints
        = Ok \<lparr>template_tx = tx', has_red_reward = has_red_reward c, red_reward_output_index = index\<rparr>"
      unfolding rebuilt modified [symmetric] Inr by (simp add: tx'_def)
    moreover have "calc_hash_merkle_root M H (?tx # rest) = calc_hash_merkle_root M H (tx' # rest)"
      by (simp add: calc_hash_merkle_root_def tx_hash_ignores_id)
    ultimately show ?thesis
      using modify_runs [OF assms(2) _ tx assms(4), where self = self and M = M and H = H and B = B
          and pom_level = pom_level and service_commit = service_commit and now = now] Inr c(2,4) assms(3) by simp
  qed
qed

definition sample_template :: "CoinbaseTransactionTemplate \<Rightarrow> BlockTemplate" where
  "sample_template c = BlockTemplate_new \<lparr>block_header = sample_header 0 [(1, [7])], block_transactions = [template_tx c]\<rparr>
     sample_miner (has_red_reward c) (red_reward_output_index c) 3 2 1 []"

theorem modified_template_is_rebuilt_witness:
  "\<exists>c c' t'. sample_coinbase = Ok c
     \<and> expected_coinbase_transaction (\<lambda>_. 0) sample_manager 10
         (sample_miner\<lparr>miner_spk := ScriptPublicKey_from_vec 0 [0x57]\<rparr>) sample_ghostdag
         sample_rewards {} [(1, 6000)] [(1, 9000)] {2} [(ScriptPublicKey_from_vec 0 [0x56], 33)] = Ok c'
     \<and> modify_block_template (\<lambda>_. 1) (\<lambda>_. 2) (\<lambda>_. 3) 0 0 sample_manager 9
         (sample_miner\<lparr>miner_spk := ScriptPublicKey_from_vec 0 [0x57]\<rparr>) (sample_template c) = Ok t'
     \<and> block_transactions (template_block t') = [(template_tx c')\<lparr>tx_id := tx_id (template_tx c)\<rparr>]
     \<and> timestamp (block_header (template_block t')) = 9"
proof -
  let ?miner = "sample_miner\<lparr>miner_spk := ScriptPublicKey_from_vec 0 [0x57]\<rparr>"
  have "coinbase_inputs_ok sample_manager m sample_ghostdag sample_rewards {} [(1, 6000)] [(1, 9000)]"
    if "length (spk_script (miner_spk m)) \<le> 2" for m
    using that by (simp add: coinbase_inputs_ok_def Let_def sample_manager_def sample_ghostdag_def
        sample_rewards_def reward_of_def block_value_def BlockRewardData_new_with_escrow_def
        BlockRewardData_new_def ScriptPublicKey_from_vec_def)
  then have ok: "\<exists>c. expected_coinbase_transaction (\<lambda>_. 0) sample_manager 10 m sample_ghostdag
         sample_rewards {} [(1, 6000)] [(1, 9000)] {2} [(ScriptPublicKey_from_vec 0 [0x56], 33)] = Ok c"
    if "length (spk_script (miner_spk m)) \<le> 2" for m using that expected_coinbase_total by blast
  obtain c where c: "sample_coinbase = Ok c"
    unfolding sample_coinbase_def using ok [of sample_miner] by (auto simp: sample_miner_def ScriptPublicKey_from_vec_def)
  obtain c' where c': "expected_coinbase_transaction (\<lambda>_. 0) sample_manager 10 ?miner sample_ghostdag
         sample_rewards {} [(1, 6000)] [(1, 9000)] {2} [(ScriptPublicKey_from_vec 0 [0x56], 33)] = Ok c'"
    using ok [of ?miner] by (auto simp: ScriptPublicKey_from_vec_def)
  have t: "block_transactions (template_block (sample_template c)) = template_tx c # []"
    "template_red_reward_output_index (sample_template c) = red_reward_output_index c"
    "wf_parents (parents_by_level (block_header (template_block (sample_template c))))"
    "timestamp (block_header (template_block (sample_template c))) = 4"
    by (simp_all add: sample_template_def BlockTemplate_new_def sample_header_def wf_parents_def)
  show ?thesis
    using modified_template_is_rebuilt [OF c [unfolded sample_coinbase_def] t(1-3), where miner' = ?miner
        and M = "\<lambda>_. 1" and H = "\<lambda>_. 2" and B = "\<lambda>_. 3" and pom_level = 0 and service_commit = 0 and now = 9] c c'
    by (auto simp: t(4))
qed

end
