(* ===== verification/Spec2Isabelle.thy ===== *)
theory Spec2Isabelle
  imports Coin_Age Utxo_Diff Service_Properties Standard_Spends Ai_Payload Mass Block_Template
begin

text \<open>
  A verification library for the Keryx node: the parts of the consensus core that decide which coins
  exist, how old they count, and which miners are penalised.
\<close>

end
